(* ===== verification/Prelude.thy ===== *)
theory Prelude
  imports Main "HOL-Library.Word" "HOL-Library.Sublist"
begin

text \<open>
  Shared vocabulary of the development: Go's bytes and strings, its errors and panics as
  values, stateful Go functions as state transformers, little-endian integers, and the list
  and word facts the components use. Nothing here models a file of the repository; it fixes
  how the language and its basic library types are represented.

  \<^item> A Go \<^verbatim>\<open>byte\<close> is an \<open>8 word\<close>, a \<^verbatim>\<open>uint32\<close> a \<open>32 word\<close>. A Go \<^verbatim>\<open>string\<close> is a sequence
    of bytes; it is a HOL \<open>string\<close> here, whose characters have exactly 256 values, and
    the conversions \<^verbatim>\<open>string(b)\<close> and \<^verbatim>\<open>[]byte(s)\<close> are the bijections \<open>string_of\<close> and \<open>bytes_of\<close>.
  \<^item> A Go function that returns \<^verbatim>\<open>(T, error)\<close> and changes state is an
    \<open>('s, 'a) prog\<close>: \<open>Ok\<close> is the return with a nil error, \<open>Err\<close> the return with
    that error, \<open>Panic\<close> a run-time panic, which no code of the repository recovers from.
\<close>

unbundle bit_operations_syntax

named_theorems prog_defs \<open>the combinators for stateful, fallible programs\<close>
named_theorems wire_simps \<open>evaluation of byte-level encodings\<close>

section \<open>Bytes and strings\<close>

type_synonym byte = "8 word"
type_synonym bytes = "8 word list"
type_synonym u32 = "32 word"

definition bytes_of :: "string \<Rightarrow> bytes" where
  "bytes_of s = map of_char s"

definition string_of :: "bytes \<Rightarrow> string" where
  "string_of b = map (\<lambda>x. char_of (unat x)) b"

lemma unat_of_char [simp]: "unat (of_char c :: byte) = of_char c"
proof -
  have "unat (of_nat (of_char c) :: byte) = of_char c mod 2 ^ 8"
    by (simp only: unat_of_nat) simp
  then show ?thesis by (simp add: of_nat_of_char)
qed

lemma of_char_char_of_unat [simp]: "(of_char (char_of (unat (b :: byte))) :: byte) = b"
proof -
  have "unat b < 2 ^ LENGTH(8)" by (rule unsigned_less)
  then have n: "(of_char (char_of (unat b)) :: nat) = unat b" by simp
  have "(of_char (char_of (unat b)) :: byte) = of_nat (of_char (char_of (unat b)))"
    by (simp only: of_nat_of_char)
  also have "\<dots> = b" by (simp only: n) simp
  finally show ?thesis .
qed

lemma string_of_bytes_of [simp]: "string_of (bytes_of s) = s"
  by (induction s) (simp_all add: string_of_def bytes_of_def)

lemma bytes_of_string_of [simp]: "bytes_of (string_of b) = b"
  by (induction b) (simp_all add: string_of_def bytes_of_def)

lemma string_of_eq_iff: "string_of b = s \<longleftrightarrow> b = bytes_of s"
  by auto

lemma string_of_inject [simp]: "string_of a = string_of b \<longleftrightarrow> a = b"
  by (metis bytes_of_string_of)

lemma bytes_of_inject [simp]: "bytes_of a = bytes_of b \<longleftrightarrow> a = b"
  by (metis string_of_bytes_of)

lemma length_bytes_of [simp]: "length (bytes_of s) = length s"
  by (simp add: bytes_of_def)

lemma length_string_of [simp]: "length (string_of b) = length b"
  by (simp add: string_of_def)

lemma bytes_of_append [simp]: "bytes_of (s @ t) = bytes_of s @ bytes_of t"
  by (simp add: bytes_of_def)

lemma bytes_of_Nil [simp]: "bytes_of [] = []"
  by (simp add: bytes_of_def)

lemma bytes_of_Cons [simp]: "bytes_of (c # s) = of_char c # bytes_of s"
  by (simp add: bytes_of_def)

lemma string_of_Nil [simp]: "string_of [] = []"
  by (simp add: string_of_def)

lemma string_of_append [simp]: "string_of (a @ b) = string_of a @ string_of b"
  by (simp add: string_of_def)

section \<open>Errors, panics and results\<close>

text \<open>
  The error values the two packages return. \<open>EOF\<close>, \<open>ErrUnexpectedEOF\<close> and \<open>ErrShortWrite\<close>
  are those of package \<^verbatim>\<open>io\<close>; \<open>NetErr\<close> is an error of the network layer (the ones that
  implement \<^verbatim>\<open>net.Error\<close>), \<open>CtxErr\<close> the error of an ended context, \<open>OSErr\<close> one of package
  \<^verbatim>\<open>os\<close>; \<open>ErrSyntax\<close> and \<open>ErrRange\<close> are the two failures of \<^verbatim>\<open>strconv\<close> on an input; \<open>Errorf\<close>
  is \<^verbatim>\<open>fmt.Errorf\<close> or \<^verbatim>\<open>errors.New\<close> with its text; \<open>Wrapf\<close> wraps an error after a text;
  \<open>InvalidHex\<close> and \<open>InvalidVersion\<close> are the two errors that quote a string and wrap; the
  last five are the variables of \<^verbatim>\<open>tcpusb/errors.go\<close>.
\<close>

datatype go_error =
    EOF
  | ErrUnexpectedEOF
  | ErrShortWrite
  | NetErr string
  | CtxErr string
  | OSErr string
  | ErrSyntax string
  | ErrRange string
  | Errorf string
  | Wrapf string go_error
  | InvalidHex string go_error
  | InvalidVersion string go_error
  | ErrServiceExists
  | ErrUnauthorized
  | ErrAuthFailed
  | ErrPrematurePacket
  | ErrLateTransport

datatype go_panic =
    NilDereference
  | MakeSliceLen
  | SliceBounds
  | IndexOutOfRange
  | PanicCall string

datatype 'a result = Ok 'a | Err go_error | Panic go_panic

section \<open>Stateful programs\<close>

type_synonym ('s, 'a) prog = "'s \<Rightarrow> 'a result \<times> 's"

definition ret :: "'a \<Rightarrow> ('s, 'a) prog" where
  "ret x s = (Ok x, s)"

definition fail :: "go_error \<Rightarrow> ('s, 'a) prog" where
  "fail e s = (Err e, s)"

definition panic :: "go_panic \<Rightarrow> ('s, 'a) prog" where
  "panic p s = (Panic p, s)"

text \<open>
  \<open>andThen m k\<close> is \<^verbatim>\<open>x, err := m; if err != nil { return err }; k(x)\<close>, the most common
  shape of the code. \<open>attempt m k\<close> hands both outcomes to \<open>k\<close>, for the places that
  do something else with the error. \<open>deferring d m\<close> runs \<open>d\<close> when \<open>m\<close> returns or
  panics, as \<^verbatim>\<open>defer d()\<close> before the body \<open>m\<close> does; the outcome is that of \<open>m\<close>.
\<close>

definition andThen :: "('s, 'a) prog \<Rightarrow> ('a \<Rightarrow> ('s, 'b) prog) \<Rightarrow> ('s, 'b) prog" where
  "andThen m k s = (case m s of
       (Ok x, s') \<Rightarrow> k x s'
     | (Err e, s') \<Rightarrow> (Err e, s')
     | (Panic p, s') \<Rightarrow> (Panic p, s'))"

definition attempt :: "('s, 'a) prog \<Rightarrow> (go_error + 'a \<Rightarrow> ('s, 'b) prog) \<Rightarrow> ('s, 'b) prog" where
  "attempt m k s = (case m s of
       (Ok x, s') \<Rightarrow> k (Inr x) s'
     | (Err e, s') \<Rightarrow> k (Inl e) s'
     | (Panic p, s') \<Rightarrow> (Panic p, s'))"

definition deferring :: "('s, unit) prog \<Rightarrow> ('s, 'a) prog \<Rightarrow> ('s, 'a) prog" where
  "deferring d m s = (case m s of (r, s') \<Rightarrow> (r, snd (d s')))"

lemmas prog_basic [prog_defs] = ret_def fail_def panic_def

lemma andThen_ret [simp]: "andThen (ret x) k = k x"
  by (simp add: andThen_def ret_def fun_eq_iff)

lemma andThen_fail [simp]: "andThen (fail e) k = fail e"
  by (simp add: andThen_def fail_def fun_eq_iff)

lemma andThen_assoc: "andThen (andThen m f) g = andThen m (\<lambda>x. andThen (f x) g)"
  by (simp add: andThen_def fun_eq_iff split: prod.split result.split)

lemma andThen_Ok [simp]: "m s = (Ok x, s') \<Longrightarrow> andThen m k s = k x s'"
  by (simp add: andThen_def)

lemma andThen_Err [simp]: "m s = (Err e, s') \<Longrightarrow> andThen m k s = (Err e, s')"
  by (simp add: andThen_def)

lemma andThen_Panic [simp]: "m s = (Panic p, s') \<Longrightarrow> andThen m k s = (Panic p, s')"
  by (simp add: andThen_def)

lemma attempt_Ok [simp]: "m s = (Ok x, s') \<Longrightarrow> attempt m k s = k (Inr x) s'"
  by (simp add: attempt_def)

lemma attempt_Err [simp]: "m s = (Err e, s') \<Longrightarrow> attempt m k s = k (Inl e) s'"
  by (simp add: attempt_def)

lemma attempt_Panic [simp]: "m s = (Panic p, s') \<Longrightarrow> attempt m k s = (Panic p, s')"
  by (simp add: attempt_def)

lemma deferring_eq: "m s = (r, s') \<Longrightarrow> deferring d m s = (r, snd (d s'))"
  by (simp add: deferring_def)

lemma andThen_cong [fundef_cong]:
  assumes "m s = m' s'" and "s = s'"
    and "\<And>x t. m' s' = (Ok x, t) \<Longrightarrow> k x t = k' x t"
  shows "andThen m k s = andThen m' k' s'"
  using assms by (auto simp: andThen_def split: prod.split result.split)

lemma attempt_cong [fundef_cong]:
  assumes "m s = m' s'" and "s = s'"
    and "\<And>x t. m' s' = (Ok x, t) \<Longrightarrow> k (Inr x) t = k' (Inr x) t"
    and "\<And>e t. m' s' = (Err e, t) \<Longrightarrow> k (Inl e) t = k' (Inl e) t"
  shows "attempt m k s = attempt m' k' s'"
  using assms by (auto simp: attempt_def split: prod.split result.split)

text \<open>Programs on one half of a pair of states.\<close>

definition on_first :: "('a, 'x) prog \<Rightarrow> ('a \<times> 'b, 'x) prog" where
  "on_first m s = (case m (fst s) of (r, a) \<Rightarrow> (r, (a, snd s)))"

definition on_second :: "('b, 'x) prog \<Rightarrow> ('a \<times> 'b, 'x) prog" where
  "on_second m s = (case m (snd s) of (r, b) \<Rightarrow> (r, (fst s, b)))"

lemma on_first_eq [simp]: "m a = (r, a') \<Longrightarrow> on_first m (a, b) = (r, (a', b))"
  by (simp add: on_first_def)

lemma on_second_eq [simp]: "m b = (r, b') \<Longrightarrow> on_second m (a, b) = (r, (a, b'))"
  by (simp add: on_second_def)

text \<open>
  Measures, for the loops: a program \<open>keeps\<close> a measure when no successful run increases
  it, and \<open>uses\<close> it when every successful run decreases it.
\<close>

definition keeps :: "('s \<Rightarrow> nat) \<Rightarrow> ('s, 'a) prog \<Rightarrow> bool" where
  "keeps f m \<longleftrightarrow> (\<forall>s x s'. m s = (Ok x, s') \<longrightarrow> f s' \<le> f s)"

definition uses :: "('s \<Rightarrow> nat) \<Rightarrow> ('s, 'a) prog \<Rightarrow> bool" where
  "uses f m \<longleftrightarrow> (\<forall>s x s'. m s = (Ok x, s') \<longrightarrow> f s' < f s)"

named_theorems measure_intros \<open>programs that keep or use a measure\<close>

lemma usesD: "uses f m \<Longrightarrow> m s = (Ok x, s') \<Longrightarrow> f s' < f s"
  by (simp add: uses_def)

lemma keeps_basic [measure_intros]: "keeps f (ret x)" "keeps f (fail e)" "keeps f (panic p)"
  by (simp_all add: keeps_def ret_def fail_def panic_def)

lemma keeps_andThen [measure_intros]:
  "keeps f m \<Longrightarrow> (\<And>x. keeps f (k x)) \<Longrightarrow> keeps f (andThen m k)"
  by (fastforce simp: keeps_def andThen_def split: prod.splits result.splits)

lemma uses_andThen [measure_intros]:
  "uses f m \<Longrightarrow> (\<And>x. keeps f (k x)) \<Longrightarrow> uses f (andThen m k)"
  by (fastforce simp: keeps_def uses_def andThen_def split: prod.splits result.splits)

lemma keeps_if [measure_intros]: "keeps f a \<Longrightarrow> keeps f b \<Longrightarrow> keeps f (if P then a else b)"
  by simp

lemma keeps_on_first [measure_intros]: "keeps f m \<Longrightarrow> keeps (\<lambda>s. f (fst s)) (on_first m)"
  by (auto simp: keeps_def on_first_def split: prod.splits)

lemma uses_on_first [measure_intros]: "uses f m \<Longrightarrow> uses (\<lambda>s. f (fst s)) (on_first m)"
  by (auto simp: uses_def on_first_def split: prod.splits)

lemma keeps_on_second [measure_intros]: "keeps (\<lambda>s. f (fst s)) (on_second m)"
  by (auto simp: keeps_def on_second_def split: prod.splits)

text \<open>
  \<open>oblivious R m\<close>: from states related by \<open>R\<close>, \<open>m\<close> has the same outcome and ends in
  related states; so \<open>m\<close> cannot tell related states apart.
\<close>

definition oblivious :: "('s \<Rightarrow> 's \<Rightarrow> bool) \<Rightarrow> ('s, 'a) prog \<Rightarrow> bool" where
  "oblivious R m \<longleftrightarrow> (\<forall>s t. R s t \<longrightarrow> fst (m s) = fst (m t) \<and> R (snd (m s)) (snd (m t)))"

named_theorems oblivious_intros \<open>programs that respect a relation\<close>

lemma obliviousI:
  assumes "\<And>s t. R s t \<Longrightarrow> fst (m s) = fst (m t) \<and> R (snd (m s)) (snd (m t))"
  shows "oblivious R m"
  using assms by (simp add: oblivious_def)

lemma obliviousE:
  assumes "oblivious R m" and "R s t"
  obtains r s' t' where "m s = (r, s')" and "m t = (r, t')" and "R s' t'"
proof (cases "m s"; cases "m t")
  fix r s' r2 t' assume *: "m s = (r, s')" "m t = (r2, t')"
  from assms have "fst (m s) = fst (m t)" "R (snd (m s)) (snd (m t))"
    by (auto simp: oblivious_def)
  with * have "m t = (r, t')" "R s' t'" by simp_all
  with *(1) show thesis by (rule that)
qed

lemma oblivious_basic [oblivious_intros]:
  "oblivious R (ret x)" "oblivious R (fail e)" "oblivious R (panic p)"
  by (simp_all add: oblivious_def ret_def fail_def panic_def)

lemma oblivious_andThen [oblivious_intros]:
  assumes "oblivious R m" and "\<And>x. oblivious R (k x)"
  shows "oblivious R (andThen m k)"
proof (rule obliviousI)
  fix s t assume "R s t"
  with assms(1) obtain r s' t' where *: "m s = (r, s')" "m t = (r, t')" "R s' t'"
    by (rule obliviousE)
  then show "fst (andThen m k s) = fst (andThen m k t) \<and>
      R (snd (andThen m k s)) (snd (andThen m k t))"
    using assms(2) by (cases r) (auto simp: andThen_def oblivious_def)
qed

lemma oblivious_attempt [oblivious_intros]:
  assumes "oblivious R m" and "\<And>x. oblivious R (k x)"
  shows "oblivious R (attempt m k)"
proof (rule obliviousI)
  fix s t assume "R s t"
  with assms(1) obtain r s' t' where *: "m s = (r, s')" "m t = (r, t')" "R s' t'"
    by (rule obliviousE)
  then show "fst (attempt m k s) = fst (attempt m k t) \<and>
      R (snd (attempt m k s)) (snd (attempt m k t))"
    using assms(2) by (cases r) (auto simp: attempt_def oblivious_def)
qed

lemma oblivious_if [oblivious_intros]:
  "oblivious R a \<Longrightarrow> oblivious R b \<Longrightarrow> oblivious R (if P then a else b)"
  by simp

lemma oblivious_case_sum [oblivious_intros]:
  "(\<And>e. oblivious R (f e)) \<Longrightarrow> (\<And>x. oblivious R (g x)) \<Longrightarrow>
   oblivious R (case y of Inl e \<Rightarrow> f e | Inr x \<Rightarrow> g x)"
  by (simp split: sum.split)

text \<open>
  A program logic for them: from a state where \<open>P\<close> holds, a run of \<open>m\<close> that returns a
  value ends in \<open>Q\<close>, one that returns an error ends in \<open>E\<close>; a panic ends the process.
\<close>

definition triple ::
  "('s \<Rightarrow> bool) \<Rightarrow> ('s, 'a) prog \<Rightarrow> ('a \<Rightarrow> 's \<Rightarrow> bool) \<Rightarrow> ('s \<Rightarrow> bool) \<Rightarrow> bool" where
  "triple P m Q E \<longleftrightarrow> (\<forall>s. P s \<longrightarrow> (case m s of
       (Ok x, s') \<Rightarrow> Q x s' | (Err _, s') \<Rightarrow> E s' | (Panic _, _) \<Rightarrow> True))"

lemma tripleI:
  assumes "\<And>s x s'. P s \<Longrightarrow> m s = (Ok x, s') \<Longrightarrow> Q x s'"
    and "\<And>s e s'. P s \<Longrightarrow> m s = (Err e, s') \<Longrightarrow> E s'"
  shows "triple P m Q E"
  using assms by (auto simp: triple_def split: prod.split result.split)

lemma triple_Ok: "triple P m Q E \<Longrightarrow> P s \<Longrightarrow> m s = (Ok x, s') \<Longrightarrow> Q x s'"
  by (auto simp: triple_def)

lemma triple_Err: "triple P m Q E \<Longrightarrow> P s \<Longrightarrow> m s = (Err e, s') \<Longrightarrow> E s'"
  by (auto simp: triple_def)

lemma triple_ret: "(\<And>s. P s \<Longrightarrow> Q x s) \<Longrightarrow> triple P (ret x) Q E"
  by (simp add: triple_def ret_def)

lemma triple_fail: "(\<And>s. P s \<Longrightarrow> E s) \<Longrightarrow> triple P (fail e) Q E"
  by (simp add: triple_def fail_def)

lemma triple_panic: "triple P (panic p) Q E"
  by (simp add: triple_def panic_def)

lemma triple_andThen:
  assumes "triple P m Q E" and "\<And>x. triple (Q x) (k x) R E"
  shows "triple P (andThen m k) R E"
  using assms by (fastforce simp: triple_def andThen_def split: prod.splits result.splits)

lemma triple_attempt:
  assumes "triple P m Q F" and "\<And>x. triple (Q x) (k (Inr x)) R E" and "\<And>e. triple F (k (Inl e)) R E"
  shows "triple P (attempt m k) R E"
  using assms by (fastforce simp: triple_def attempt_def split: prod.splits result.splits)

lemma triple_deferring:
  assumes "triple P m (\<lambda>_. Q) Q" and "\<And>s. Q s \<Longrightarrow> R (snd (d s))"
  shows "triple P (deferring d m) (\<lambda>_. R) R"
  using assms by (fastforce simp: triple_def deferring_def split: prod.splits result.splits)

section \<open>Little-endian 32-bit integers\<close>

text \<open>
  \<^verbatim>\<open>binary.LittleEndian.PutUint32\<close> and \<^verbatim>\<open>binary.LittleEndian.Uint32\<close>. The latter reads the
  first four bytes of its slice; every use in the repository passes at least four, and the
  last equation stands for Go's index panic, which those uses never reach.
\<close>

definition put32 :: "u32 \<Rightarrow> bytes" where
  "put32 w = [ucast w, ucast (drop_bit 8 w), ucast (drop_bit 16 w), ucast (drop_bit 24 w)]"

fun get32 :: "bytes \<Rightarrow> u32" where
  "get32 (a # b # c # d # _) =
     ucast a OR push_bit 8 (ucast b) OR push_bit 16 (ucast c) OR push_bit 24 (ucast d)"
| "get32 _ = 0"

lemma length_put32 [simp]: "length (put32 w) = 4"
  by (simp add: put32_def)

lemma get32_put32 [simp]: "get32 (put32 w @ rest) = w"
proof (rule bit_word_eqI)
  fix n
  assume "n < LENGTH(32)"
  then consider "n < 8" | "8 \<le> n" "n < 16" | "16 \<le> n" "n < 24" | "24 \<le> n" "n < 32"
    by fastforce
  then show "bit (get32 (put32 w @ rest)) n = bit w n"
    by cases (simp add: put32_def bit_simps, (simp add: put32_def bit_simps, linarith)+)
qed

lemma get32_put32_exact [simp]: "get32 (put32 w) = w"
  using get32_put32 [of w "[]"] by simp

lemma put32_inject [simp]: "put32 v = put32 w \<longleftrightarrow> v = w"
  by (metis get32_put32_exact)

lemma bit_byte_beyond: "8 \<le> n \<Longrightarrow> \<not> bit (b :: byte) n"
  using bit_imp_le_length [of b n] by auto

lemma put32_get32_4: "put32 (get32 [p, q, r, s]) = [p, q, r, s]"
  unfolding put32_def get32.simps list.inject
  by (intro conjI bit_word_eqI) (simp_all add: bit_simps bit_byte_beyond)

lemma put32_get32: "length b = 4 \<Longrightarrow> put32 (get32 b) = b"
  by (auto simp: numeral_eq_Suc length_Suc_conv put32_get32_4 simp del: get32.simps)

lemma unat_of_nat_u32 [simp]: "n < 2 ^ 32 \<Longrightarrow> unat (of_nat n :: u32) = n"
  by (simp add: unat_of_nat take_bit_nat_eq_self)

section \<open>Lists\<close>

text \<open>\<open>chunks n xs\<close> cuts \<open>xs\<close> into pieces of \<open>n\<close> elements, the last one shorter.\<close>

function chunks :: "nat \<Rightarrow> 'a list \<Rightarrow> 'a list list" where
  "chunks n xs = (if n = 0 \<or> xs = [] then [] else take n xs # chunks n (drop n xs))"
  by pat_completeness auto
termination
  by (relation "measure (\<lambda>(n, xs). length xs)") auto

declare chunks.simps [simp del]

lemma chunks_Nil [simp]: "chunks n [] = []"
  by (simp add: chunks.simps)

lemma concat_chunks: "0 < n \<Longrightarrow> concat (chunks n xs) = xs"
proof (induction n xs rule: chunks.induct)
  case (1 n xs)
  then show ?case by (cases "xs = []") (simp_all add: chunks.simps [of n xs])
qed

lemma chunks_bounds:
  "c \<in> set (chunks n xs) \<Longrightarrow> c \<noteq> [] \<and> length c \<le> n"
proof (induction n xs rule: chunks.induct)
  case (1 n xs)
  from "1.prems" have ne: "\<not> (n = 0 \<or> xs = [])"
    by (auto simp: chunks.simps [of n xs] split: if_splits)
  with "1.prems" have "c = take n xs \<or> c \<in> set (chunks n (drop n xs))"
    by (simp add: chunks.simps [of n xs])
  with ne "1.IH" show ?case by auto
qed

lemma take_append_length [simp]: "length xs = n \<Longrightarrow> take n (xs @ ys) = xs"
  by simp

lemma drop_append_length [simp]: "length xs = n \<Longrightarrow> drop n (xs @ ys) = ys"
  by simp

section \<open>Updated lists\<close>

lemma nth_upd: "j < length xs \<Longrightarrow> xs[i := x] ! j = (if i = j then x else xs ! j)"
  by (cases "i < length xs") simp_all

lemma map_upd_same: "f x = f (xs ! i) \<Longrightarrow> map f (xs[i := x]) = map f xs"
  by (auto intro!: nth_equalityI simp: nth_upd)

end
