(* ===== verification/Conn.thy ===== *)
theory Conn
  imports Prelude
begin

text \<open>
  Network connections as the code sees them, and the \<^verbatim>\<open>io\<close> helpers it calls on them. A
  connection is a record of what the peer will send (in the segments in which single
  \<^verbatim>\<open>Read\<close> calls will see it), how the stream ends, what has been written so far, how many
  more bytes the peer accepts, and whether this side closed it. The environment is the
  initial record: every theorem quantifies over it. The theory ends with two contracts:
  \<open>byte_sink\<close>, the part of \<^verbatim>\<open>io.Writer\<close> the code relies on, and the notion of a program
  that does not depend on how the peer's bytes are cut into segments.
\<close>

section \<open>net.Conn\<close>

record conn =
  incoming :: "bytes list"
  in_end :: go_error
  outgoing :: bytes
  room :: "nat option"
  isclosed :: bool

definition new_conn :: "bytes list \<Rightarrow> go_error \<Rightarrow> conn" where
  "new_conn segs e =
     \<lparr>incoming = segs, in_end = e, outgoing = [], room = None, isclosed = False\<rparr>"

abbreviation err_closed :: go_error where
  "err_closed \<equiv> NetErr ''use of closed network connection''"

abbreviation err_pipe :: go_error where
  "err_pipe \<equiv> NetErr ''broken pipe''"

text \<open>
  \<^verbatim>\<open>Read(p)\<close> with \<open>len(p) = n\<close>: at most \<open>n\<close> bytes of the next segment. Reading zero bytes
  returns at once, as the network layer of Go does.
\<close>

definition conn_Read :: "nat \<Rightarrow> (conn, bytes) prog" where
  "conn_Read n c =
     (if isclosed c then (Err err_closed, c)
      else if n = 0 then (Ok [], c)
      else case incoming c of
        [] \<Rightarrow> (Err (in_end c), c)
      | seg # segs \<Rightarrow>
          (Ok (take n seg),
           c\<lparr>incoming := (if length seg \<le> n then segs else drop n seg # segs)\<rparr>))"

definition conn_Write :: "bytes \<Rightarrow> (conn, nat) prog" where
  "conn_Write p c =
     (if isclosed c then (Err err_closed, c)
      else case room c of
        None \<Rightarrow> (Ok (length p), c\<lparr>outgoing := outgoing c @ p\<rparr>)
      | Some k \<Rightarrow>
          if length p \<le> k
          then (Ok (length p), c\<lparr>outgoing := outgoing c @ p, room := Some (k - length p)\<rparr>)
          else (Err err_pipe, c\<lparr>outgoing := outgoing c @ take k p, room := Some 0\<rparr>))"

definition conn_Close :: "(conn, unit) prog" where
  "conn_Close c =
     (if isclosed c then (Err err_closed, c) else (Ok (), c\<lparr>isclosed := True\<rparr>))"

definition conn_SetDeadline :: "(conn, unit) prog" where
  "conn_SetDeadline c = (if isclosed c then (Err err_closed, c) else (Ok (), c))"

section \<open>io.ReadFull and io.ReadAll\<close>

definition in_size :: "conn \<Rightarrow> nat" where
  "in_size c = sum_list (map (Suc \<circ> length) (incoming c))"

lemma conn_Read_decreases:
  "conn_Read n c = (Ok d, c') \<Longrightarrow> 0 < n \<Longrightarrow> in_size c' < in_size c"
  by (auto simp: conn_Read_def in_size_def split: if_splits list.splits)

text \<open>
  \<^verbatim>\<open>io.ReadFull(r, buf)\<close>: reads until \<open>buf\<close> is full. An end of stream after at least one
  byte is \<open>ErrUnexpectedEOF\<close>, any other error is passed on.
\<close>

function read_loop :: "nat \<Rightarrow> bytes \<Rightarrow> (conn, bytes) prog" where
  "read_loop n acc c =
     (if n = 0 then (Ok acc, c)
      else case conn_Read n c of
        (Ok d, c') \<Rightarrow> read_loop (n - length d) (acc @ d) c'
      | (Err e, c') \<Rightarrow> (Err (if acc \<noteq> [] \<and> e = EOF then ErrUnexpectedEOF else e), c')
      | (Panic p, c') \<Rightarrow> (Panic p, c'))"
  by pat_completeness auto
termination
  by (relation "measure (\<lambda>(n, acc, c). in_size c)") (auto intro: conn_Read_decreases [OF sym])

declare read_loop.simps [simp del]

definition ReadFull :: "nat \<Rightarrow> (conn, bytes) prog" where
  "ReadFull n = read_loop n []"

text \<open>
  \<^verbatim>\<open>io.ReadAll(r)\<close>: reads until an error; end of stream is success. It returns the bytes
  read so far together with the error, and one caller uses them. The buffer it passes to
  \<^verbatim>\<open>Read\<close> starts at 512 bytes and grows; \<open>read_all_loop_eq\<close> below holds for every size,
  so the model reads 512 bytes at a time.
\<close>

function read_all_loop :: "bytes \<Rightarrow> conn \<Rightarrow> (bytes \<times> go_error option) \<times> conn" where
  "read_all_loop acc c =
     (case conn_Read 512 c of
        (Ok d, c') \<Rightarrow> read_all_loop (acc @ d) c'
      | (Err e, c') \<Rightarrow> ((acc, if e = EOF then None else Some e), c')
      | (Panic p, c') \<Rightarrow> ((acc, None), c'))"
  by pat_completeness auto
termination
  by (relation "measure (\<lambda>(acc, c). in_size c)") (auto intro: conn_Read_decreases [OF sym])

declare read_all_loop.simps [simp del]

definition ReadAll :: "(conn, bytes) prog" where
  "ReadAll c = (case read_all_loop [] c of
       ((b, None), c') \<Rightarrow> (Ok b, c')
     | ((b, Some e), c') \<Rightarrow> (Err e, c'))"

definition ReadAll_data :: "(conn, bytes) prog" where
  "ReadAll_data c = (case read_all_loop [] c of ((b, _), c') \<Rightarrow> (Ok b, c'))"

section \<open>What the loops compute\<close>

text \<open>
  \<open>pending c\<close> is the stream still to come, with the segments forgotten; \<open>advance n c\<close>
  is \<open>c\<close> after \<open>n\<close> of its bytes were consumed.
\<close>

definition pending :: "conn \<Rightarrow> bytes" where
  "pending c = concat (incoming c)"

fun drop_segs :: "nat \<Rightarrow> bytes list \<Rightarrow> bytes list" where
  "drop_segs n [] = []"
| "drop_segs n (s # ss) =
     (if n = 0 then s # ss
      else if length s \<le> n then drop_segs (n - length s) ss
      else drop n s # ss)"

lemma drop_segs_0 [simp]: "drop_segs 0 ss = ss"
  by (cases ss) simp_all

lemma concat_drop_segs [simp]: "concat (drop_segs n ss) = drop n (concat ss)"
  by (induction n ss rule: drop_segs.induct) (auto simp: drop_eq_Nil)

definition advance :: "nat \<Rightarrow> conn \<Rightarrow> conn" where
  "advance n c = c\<lparr>incoming := drop_segs n (incoming c)\<rparr>"

definition drained :: "conn \<Rightarrow> conn" where
  "drained c = c\<lparr>incoming := []\<rparr>"

lemma advance_simps [simp]:
  "in_end (advance n c) = in_end c" "outgoing (advance n c) = outgoing c"
  "room (advance n c) = room c" "isclosed (advance n c) = isclosed c"
  "pending (advance n c) = drop n (pending c)"
  by (simp_all add: advance_def pending_def)

lemma drained_simps [simp]:
  "in_end (drained c) = in_end c" "outgoing (drained c) = outgoing c"
  "room (drained c) = room c" "isclosed (drained c) = isclosed c"
  "pending (drained c) = []"
  by (simp_all add: drained_def pending_def)

lemma advance_0 [simp]: "advance 0 c = c"
  by (simp add: advance_def)

lemma drop_segs_drop_segs [simp]: "drop_segs m (drop_segs n ss) = drop_segs (n + m) ss"
proof (induction n ss rule: drop_segs.induct)
  case (2 n s ss)
  then show ?case by (cases "n = 0"; cases "m = 0"; cases "length s \<le> n") (auto simp: add.commute)
qed simp

lemma advance_advance [simp]: "advance m (advance n c) = advance (n + m) c"
  by (simp add: advance_def)

lemma advance_outgoing [simp]: "advance n (c\<lparr>outgoing := x\<rparr>) = (advance n c)\<lparr>outgoing := x\<rparr>"
  by (simp add: advance_def)

lemma read_loop_eq:
  assumes "\<not> isclosed c"
  shows "read_loop n acc c =
    (if n \<le> length (pending c) then (Ok (acc @ take n (pending c)), advance n c)
     else (Err (if acc @ pending c \<noteq> [] \<and> in_end c = EOF then ErrUnexpectedEOF else in_end c),
           drained c))"
  using assms
proof (induction n acc c rule: read_loop.induct)
  case (1 n acc c)
  show ?case
  proof (cases "n = 0 \<or> incoming c = []")
    case True
    with "1.prems" show ?thesis
      by (auto simp: read_loop.simps [of n acc c] conn_Read_def pending_def drained_def)
  next
    case False
    then obtain s ss where s: "incoming c = s # ss" and n: "n \<noteq> 0"
      by (cases "incoming c") auto
    define c' where "c' = c\<lparr>incoming := (if length s \<le> n then ss else drop n s # ss)\<rparr>"
    have rd: "conn_Read n c = (Ok (take n s), c')"
      using s n "1.prems" by (simp add: conn_Read_def c'_def)
    have op: "\<not> isclosed c'" using "1.prems" by (simp add: c'_def)
    note IH = "1.IH" [OF n rd [symmetric] refl op]
    have "read_loop n acc c = read_loop (n - length (take n s)) (acc @ take n s) c'"
      using n rd by (simp add: read_loop.simps [of n acc c])
    with IH show ?thesis
      using s n by (auto simp: c'_def pending_def advance_def drained_def min_def)
  qed
qed

lemma ReadFull_eq:
  assumes "\<not> isclosed c"
  shows "ReadFull n c =
    (if n \<le> length (pending c) then (Ok (take n (pending c)), advance n c)
     else (Err (if pending c \<noteq> [] \<and> in_end c = EOF then ErrUnexpectedEOF else in_end c),
           drained c))"
  using read_loop_eq [OF assms, of n "[]"] by (simp add: ReadFull_def)

lemma ReadFull_0 [simp]: "ReadFull 0 c = (Ok [], c)"
  by (simp add: ReadFull_def read_loop.simps)

lemma ReadFull_closed: "isclosed c \<Longrightarrow> 0 < n \<Longrightarrow> ReadFull n c = (Err err_closed, c)"
  by (simp add: ReadFull_def read_loop.simps conn_Read_def)

lemma ReadFull_Ok [simp]:
  "\<not> isclosed c \<Longrightarrow> n \<le> length (pending c) \<Longrightarrow>
   ReadFull n c = (Ok (take n (pending c)), advance n c)"
  by (simp add: ReadFull_eq)

lemma read_all_loop_eq:
  assumes "\<not> isclosed c"
  shows "read_all_loop acc c =
    ((acc @ pending c, if in_end c = EOF then None else Some (in_end c)), drained c)"
  using assms
proof (induction acc c rule: read_all_loop.induct)
  case (1 acc c)
  show ?case
  proof (cases "incoming c")
    case Nil
    with "1.prems" show ?thesis
      by (auto simp: read_all_loop.simps [of acc c] conn_Read_def pending_def drained_def)
  next
    case (Cons s ss)
    define c' where "c' = c\<lparr>incoming := (if length s \<le> 512 then ss else drop 512 s # ss)\<rparr>"
    have rd: "conn_Read 512 c = (Ok (take 512 s), c')"
      using Cons "1.prems" by (simp add: conn_Read_def c'_def)
    have op: "\<not> isclosed c'" using "1.prems" by (simp add: c'_def)
    have "read_all_loop acc c = read_all_loop (acc @ take 512 s) c'"
      using rd by (simp add: read_all_loop.simps [of acc c])
    with "1.IH" [OF rd [symmetric] refl op] show ?thesis
      using Cons by (auto simp: c'_def pending_def drained_def)
  qed
qed

lemma ReadAll_eq:
  "\<not> isclosed c \<Longrightarrow> ReadAll c =
    (if in_end c = EOF then (Ok (pending c), drained c) else (Err (in_end c), drained c))"
  by (simp add: ReadAll_def read_all_loop_eq)

lemma ReadAll_data_eq [simp]: "\<not> isclosed c \<Longrightarrow> ReadAll_data c = (Ok (pending c), drained c)"
  by (simp add: ReadAll_data_def read_all_loop_eq)

lemma read_all_loop_closed:
  "isclosed c \<Longrightarrow> read_all_loop acc c = ((acc, Some err_closed), c)"
  by (simp add: read_all_loop.simps conn_Read_def)

lemma ReadAll_closed: "isclosed c \<Longrightarrow> ReadAll c = (Err err_closed, c)"
  by (simp add: ReadAll_def read_all_loop_closed)

lemma ReadAll_data_closed: "isclosed c \<Longrightarrow> ReadAll_data c = (Ok [], c)"
  by (simp add: ReadAll_data_def read_all_loop_closed)

text \<open>What the loops of the code need to terminate: a successful read uses up input.\<close>

definition in_len :: "conn \<Rightarrow> nat" where
  "in_len c = length (pending c)"

lemma ReadFull_consumes:
  "ReadFull n c = (Ok d, c') \<Longrightarrow> length (pending c) = n + length (pending c')"
  by (cases "isclosed c"; cases "n = 0")
    (auto simp: ReadFull_closed ReadFull_eq split: if_splits)

lemma keeps_ReadFull [measure_intros]: "keeps in_len (ReadFull n)"
  by (auto simp: keeps_def in_len_def dest: ReadFull_consumes)

lemma uses_ReadFull: "0 < n \<Longrightarrow> uses in_len (ReadFull n)"
  by (auto simp: uses_def in_len_def dest: ReadFull_consumes)

section \<open>Writing\<close>

lemma conn_Write_Ok [simp]:
  "\<not> isclosed c \<Longrightarrow> room c = None \<Longrightarrow>
   conn_Write p c = (Ok (length p), c\<lparr>outgoing := outgoing c @ p\<rparr>)"
  by (simp add: conn_Write_def)

lemma pending_outgoing_update [simp]: "pending (c\<lparr>outgoing := x\<rparr>) = pending c"
  by (simp add: pending_def)

lemma pending_room_update [simp]: "pending (c\<lparr>room := x\<rparr>) = pending c"
  by (simp add: pending_def)

lemma pending_isclosed_update [simp]: "pending (c\<lparr>isclosed := x\<rparr>) = pending c"
  by (simp add: pending_def)

lemma pending_new_conn [simp]: "pending (new_conn segs e) = concat segs"
  by (simp add: pending_def new_conn_def)

lemma new_conn_simps [simp]:
  "in_end (new_conn segs e) = e" "outgoing (new_conn segs e) = []"
  "room (new_conn segs e) = None" "\<not> isclosed (new_conn segs e)"
  by (simp_all add: new_conn_def)

text \<open>
  The contract of \<^verbatim>\<open>io.Writer\<close>, as far as the code uses it: what one \<^verbatim>\<open>Write\<close> call reports
  as written is a prefix of its argument and has reached the sink.
\<close>

locale byte_sink =
  fixes wr :: "bytes \<Rightarrow> ('w, nat) prog"
    and sink :: "'w \<Rightarrow> bytes"
  assumes wr_count: "wr p w = (Ok n, w') \<Longrightarrow> n \<le> length p"
    and wr_sink: "wr p w = (Ok n, w') \<Longrightarrow> sink w' = sink w @ take n p"
    and wr_error: "wr p w = (Err e, w') \<Longrightarrow> \<exists>k \<le> length p. sink w' = sink w @ take k p"

text \<open>A sink that never refuses a write, as the pipe of a reader that keeps reading.\<close>

locale open_sink = byte_sink +
  assumes wr_accepts: "\<exists>w'. wr p w = (Ok (length p), w')"
begin

lemma wr_all:
  obtains w' where "wr p w = (Ok (length p), w')" and "sink w' = sink w @ p"
  using wr_accepts [of p w] wr_sink [of p w "length p"] by auto

end

interpretation conn_sink: byte_sink conn_Write outgoing
proof unfold_locales
  fix p w n w' assume "conn_Write p w = (Ok n, w')"
  then show "n \<le> length p" by (auto simp: conn_Write_def split: if_splits option.splits)
next
  fix p w n w' assume "conn_Write p w = (Ok n, w')"
  then show "outgoing w' = outgoing w @ take n p"
    by (auto simp: conn_Write_def split: if_splits option.splits)
next
  fix p w e w' assume "conn_Write p w = (Err e, w')"
  then have "outgoing w' = outgoing w \<or> (\<exists>k < length p. outgoing w' = outgoing w @ take k p)"
    by (auto simp: conn_Write_def not_le split: if_splits option.splits)
  then show "\<exists>k \<le> length p. outgoing w' = outgoing w @ take k p"
    by (metis append_Nil2 less_imp_le take_eq_Nil zero_le)
qed

section \<open>Independence of the segmentation\<close>

text \<open>
  TCP gives no control over how the peer's bytes are cut into \<^verbatim>\<open>Read\<close> results. Two
  connections that differ only in that respect are \<open>same_stream\<close>; a program is
  \<open>segment_free\<close> when it cannot tell them apart. Programs composed of segment-free ones
  are segment-free.
\<close>

definition same_stream :: "conn \<Rightarrow> conn \<Rightarrow> bool" where
  "same_stream c d \<longleftrightarrow> pending c = pending d \<and> in_end c = in_end d \<and>
     outgoing c = outgoing d \<and> room c = room d \<and> isclosed c = isclosed d"

abbreviation segment_free :: "(conn, 'a) prog \<Rightarrow> bool" where
  "segment_free \<equiv> oblivious same_stream"

lemma segment_free_ReadFull [oblivious_intros]: "segment_free (ReadFull n)"
proof (rule obliviousI)
  fix c d assume s: "same_stream c d"
  show "fst (ReadFull n c) = fst (ReadFull n d) \<and>
      same_stream (snd (ReadFull n c)) (snd (ReadFull n d))"
  proof (cases "isclosed c")
    case True
    with s show ?thesis
      by (cases "n = 0") (auto simp: ReadFull_closed same_stream_def)
  next
    case False
    with s have "\<not> isclosed d" by (simp add: same_stream_def)
    with False s show ?thesis by (auto simp: ReadFull_eq same_stream_def)
  qed
qed

lemma segment_free_ReadAll [oblivious_intros]: "segment_free ReadAll"
proof (rule obliviousI)
  fix c d assume s: "same_stream c d"
  show "fst (ReadAll c) = fst (ReadAll d) \<and> same_stream (snd (ReadAll c)) (snd (ReadAll d))"
    using s by (cases "isclosed c") (auto simp: ReadAll_closed ReadAll_eq same_stream_def)
qed

lemma segment_free_ReadAll_data [oblivious_intros]: "segment_free ReadAll_data"
proof (rule obliviousI)
  fix c d assume s: "same_stream c d"
  show "fst (ReadAll_data c) = fst (ReadAll_data d) \<and>
      same_stream (snd (ReadAll_data c)) (snd (ReadAll_data d))"
    using s by (cases "isclosed c") (auto simp: ReadAll_data_closed same_stream_def)
qed

lemma segment_free_Write [oblivious_intros]: "segment_free (conn_Write p)"
  by (rule obliviousI)
    (auto simp: conn_Write_def same_stream_def split: option.splits)

lemma segment_free_Close [oblivious_intros]: "segment_free conn_Close"
  by (rule obliviousI) (auto simp: conn_Close_def same_stream_def)

section \<open>Framed streams\<close>

text \<open>
  The contract between a frame format and the function that reads one frame. A reader has a
  state (a connection, or a connection with a buffer), of which \<open>stream\<close> is the bytes not
  yet consumed and \<open>ready\<close> says that it is open and between two frames; \<open>fresh\<close> makes
  a state from a byte sequence. The law: from a ready state whose stream starts with an
  encoded frame the reader returns that frame, is ready again and has consumed exactly the
  frame. What follows from it holds for every format of the two packages: a sequence of
  frames is read back in order, and no byte sequence is two different sequences of frames.
\<close>

fun read_frames :: "('s, 'a) prog \<Rightarrow> nat \<Rightarrow> ('s, 'a list) prog" where
  "read_frames rd 0 = ret []"
| "read_frames rd (Suc n) = andThen rd (\<lambda>x. andThen (read_frames rd n) (\<lambda>xs. ret (x # xs)))"

locale frame_format =
  fixes encode :: "'a \<Rightarrow> bytes"
    and decode :: "('s, 'a) prog"
    and valid :: "'a \<Rightarrow> bool"
    and stream :: "'s \<Rightarrow> bytes"
    and ready :: "'s \<Rightarrow> bool"
    and fresh :: "bytes \<Rightarrow> 's"
  assumes decode_encode:
      "valid x \<Longrightarrow> ready s \<Longrightarrow> stream s = encode x @ rest \<Longrightarrow>
       \<exists>s'. decode s = (Ok x, s') \<and> ready s' \<and> stream s' = rest"
    and encode_nonempty: "valid x \<Longrightarrow> encode x \<noteq> []"
    and fresh_ready: "ready (fresh b)" "stream (fresh b) = b"
begin

lemma read_frames_encode:
  "list_all valid xs \<Longrightarrow> ready s \<Longrightarrow> stream s = concat (map encode xs) @ rest \<Longrightarrow>
   \<exists>s'. read_frames decode (length xs) s = (Ok xs, s') \<and> ready s' \<and> stream s' = rest"
proof (induction xs arbitrary: s)
  case Nil
  then show ?case by (simp add: ret_def)
next
  case (Cons x xs)
  then obtain s1 where s1: "decode s = (Ok x, s1)" "ready s1"
      "stream s1 = concat (map encode xs) @ rest"
    using decode_encode [of x s "concat (map encode xs) @ rest"] by auto
  with Cons obtain s' where
    "read_frames decode (length xs) s1 = (Ok xs, s')" "ready s'" "stream s' = rest" by auto
  with s1 show ?case by (simp add: ret_def)
qed

lemma encode_prefix_free:
  assumes "valid x" and "valid y" and "encode x @ r = encode y @ t"
  shows "x = y \<and> r = t"
proof -
  let ?s = "fresh (encode x @ r)"
  obtain s1 where "decode ?s = (Ok x, s1)"
    using decode_encode [OF assms(1) fresh_ready] by auto
  moreover obtain s2 where "decode ?s = (Ok y, s2)"
    using decode_encode [OF assms(2) fresh_ready] assms(3) by auto
  ultimately have "x = y" by simp
  with assms(3) show ?thesis by simp
qed

lemma concat_encode_inject:
  "list_all valid xs \<Longrightarrow> list_all valid ys \<Longrightarrow>
   concat (map encode xs) = concat (map encode ys) \<Longrightarrow> xs = ys"
proof (induction xs arbitrary: ys)
  case Nil
  then show ?case using encode_nonempty by (cases ys) auto
next
  case (Cons x xs)
  from Cons.prems encode_nonempty obtain y zs where ys: "ys = y # zs"
    by (cases ys) auto
  with Cons.prems have "x = y \<and> concat (map encode xs) = concat (map encode zs)"
    by (intro encode_prefix_free) simp_all
  with Cons ys show ?case by simp
qed

end

abbreviation conn_ready :: "conn \<Rightarrow> bool" where
  "conn_ready c \<equiv> \<not> isclosed c"

abbreviation conn_fresh :: "bytes \<Rightarrow> conn" where
  "conn_fresh b \<equiv> new_conn [b] EOF"

end
