(* ===== verification/GoLib.thy ===== *)
theory GoLib
  imports Prelude
begin

text \<open>
  The functions of Go's packages \<^verbatim>\<open>strings\<close>, \<^verbatim>\<open>strconv\<close> and \<^verbatim>\<open>fmt\<close> that the repository
  calls, on byte strings. White space is Unicode's, in its UTF-8 encoding: an encoded
  space never occurs inside another encoded rune, so looking for the encodings byte by byte
  is what the rune loops of \<^verbatim>\<open>strings\<close> do, on invalid UTF-8 as well.
\<close>

section \<open>Package strings\<close>

definition space_encodings :: "string list" where
  "space_encodings =
     [[CHR 0x20], [CHR 0x0A], [CHR 0x09], [CHR 0x0D], [CHR 0x0B], [CHR 0x0C],
      [CHR 0xC2, CHR 0x85], [CHR 0xC2, CHR 0xA0], [CHR 0xE1, CHR 0x9A, CHR 0x80],
      [CHR 0xE2, CHR 0x80, CHR 0x80], [CHR 0xE2, CHR 0x80, CHR 0x81],
      [CHR 0xE2, CHR 0x80, CHR 0x82], [CHR 0xE2, CHR 0x80, CHR 0x83],
      [CHR 0xE2, CHR 0x80, CHR 0x84], [CHR 0xE2, CHR 0x80, CHR 0x85],
      [CHR 0xE2, CHR 0x80, CHR 0x86], [CHR 0xE2, CHR 0x80, CHR 0x87],
      [CHR 0xE2, CHR 0x80, CHR 0x88], [CHR 0xE2, CHR 0x80, CHR 0x89],
      [CHR 0xE2, CHR 0x80, CHR 0x8A], [CHR 0xE2, CHR 0x80, CHR 0xA8],
      [CHR 0xE2, CHR 0x80, CHR 0xA9], [CHR 0xE2, CHR 0x80, CHR 0xAF],
      [CHR 0xE2, CHR 0x81, CHR 0x9F], [CHR 0xE3, CHR 0x80, CHR 0x80]]"

definition space_len :: "string \<Rightarrow> nat" where
  "space_len s = (case find (\<lambda>e. prefix e s) space_encodings of None \<Rightarrow> 0 | Some e \<Rightarrow> length e)"

definition space_end :: "string \<Rightarrow> nat" where
  "space_end s = (case find (\<lambda>e. suffix e s) space_encodings of None \<Rightarrow> 0 | Some e \<Rightarrow> length e)"

lemma space_len_le: "space_len s \<le> length s"
  by (auto simp: space_len_def find_Some_iff dest: prefix_length_le split: option.split)

lemma space_end_le: "space_end s \<le> length s"
  by (auto simp: space_end_def find_Some_iff dest: suffix_length_le split: option.split)

lemma space_len_Nil [simp]: "space_len [] = 0"
  using space_len_le [of "[]"] by simp

lemma space_end_Nil [simp]: "space_end [] = 0"
  using space_end_le [of "[]"] by simp

function trim_left :: "string \<Rightarrow> string" where
  "trim_left s = (if space_len s = 0 then s else trim_left (drop (space_len s) s))"
  by pat_completeness auto
termination
proof (relation "measure length")
  fix s assume "space_len s \<noteq> 0"
  with space_len_le [of s] show "(drop (space_len s) s, s) \<in> measure length" by simp
qed simp

function trim_right :: "string \<Rightarrow> string" where
  "trim_right s = (if space_end s = 0 then s else trim_right (take (length s - space_end s) s))"
  by pat_completeness auto
termination
proof (relation "measure length")
  fix s assume "space_end s \<noteq> 0"
  with space_end_le [of s] show "(take (length s - space_end s) s, s) \<in> measure length" by simp
qed simp

declare trim_left.simps [simp del] trim_right.simps [simp del]

definition TrimSpace :: "string \<Rightarrow> string" where
  "TrimSpace s = trim_right (trim_left s)"

text \<open>\<^verbatim>\<open>strings.Fields\<close>: \<open>cur\<close> is the field being collected.\<close>

function fields_loop :: "string \<Rightarrow> string \<Rightarrow> string list" where
  "fields_loop cur s =
     (case s of
        [] \<Rightarrow> if cur = [] then [] else [cur]
      | x # xs \<Rightarrow>
          if space_len s = 0 then fields_loop (cur @ [x]) xs
          else (if cur = [] then [] else [cur]) @ fields_loop [] (drop (space_len s) s))"
  by pat_completeness auto
termination
  by (relation "measure (\<lambda>(cur, s). length s)") auto

declare fields_loop.simps [simp del]

definition Fields :: "string \<Rightarrow> string list" where
  "Fields s = fields_loop [] s"

text \<open>\<^verbatim>\<open>strings.Split(s, sep)\<close> with a separator of one byte.\<close>

fun Split :: "char \<Rightarrow> string \<Rightarrow> string list" where
  "Split c [] = [[]]"
| "Split c (x # xs) =
     (if x = c then [] # Split c xs
      else case Split c xs of [] \<Rightarrow> [[x]] | y # ys \<Rightarrow> (x # y) # ys)"

fun Join :: "string \<Rightarrow> string list \<Rightarrow> string" where
  "Join sep [] = []"
| "Join sep [x] = x"
| "Join sep (x # y # ys) = x @ sep @ Join sep (y # ys)"

text \<open>\<^verbatim>\<open>strings.Index\<close>, with \<open>None\<close> for \<open>-1\<close>.\<close>

fun Index :: "string \<Rightarrow> string \<Rightarrow> nat option" where
  "Index [] sub = (if sub = [] then Some 0 else None)"
| "Index (x # xs) sub =
     (if prefix sub (x # xs) then Some 0 else map_option Suc (Index xs sub))"

text \<open>\<^verbatim>\<open>strings.Trim(s, " ")\<close>.\<close>

definition TrimBlank :: "string \<Rightarrow> string" where
  "TrimBlank s = rev (dropWhile (\<lambda>c. c = CHR 0x20) (rev (dropWhile (\<lambda>c. c = CHR 0x20) s)))"

definition TrimPrefix :: "string \<Rightarrow> string \<Rightarrow> string" where
  "TrimPrefix s p = (if prefix p s then drop (length p) s else s)"

abbreviation Contains :: "string \<Rightarrow> string \<Rightarrow> bool" where
  "Contains s sub \<equiv> sublist sub s"

abbreviation HasPrefix :: "string \<Rightarrow> string \<Rightarrow> bool" where
  "HasPrefix s p \<equiv> prefix p s"

abbreviation HasSuffix :: "string \<Rightarrow> string \<Rightarrow> bool" where
  "HasSuffix s p \<equiv> suffix p s"

section \<open>Formatting numbers\<close>

fun digits :: "nat \<Rightarrow> nat \<Rightarrow> nat list" where
  "digits b n = (if b < 2 \<or> n < b then [n] else digits b (n div b) @ [n mod b])"

declare digits.simps [simp del]

definition digit_char :: "nat \<Rightarrow> char" where
  "digit_char d = (if d < 10 then char_of (48 + d) else char_of (87 + d))"

text \<open>\<^verbatim>\<open>%x\<close> and \<^verbatim>\<open>%d\<close>, the latter also on negative integers, and \<^verbatim>\<open>%04x\<close>.\<close>

definition hex :: "nat \<Rightarrow> string" where
  "hex n = map digit_char (digits 16 n)"

definition dec :: "nat \<Rightarrow> string" where
  "dec n = map digit_char (digits 10 n)"

definition dec_int :: "int \<Rightarrow> string" where
  "dec_int i = (if i < 0 then CHR ''-'' # dec (nat (- i)) else dec (nat i))"

definition hex4 :: "nat \<Rightarrow> string" where
  "hex4 n = replicate (4 - length (hex n)) (CHR ''0'') @ hex n"

section \<open>Parsing numbers\<close>

definition digit_val :: "char \<Rightarrow> nat option" where
  "digit_val c = (let v = of_char c :: nat in
     if 48 \<le> v \<and> v \<le> 57 then Some (v - 48)
     else if 97 \<le> v \<and> v \<le> 122 then Some (v - 87)
     else if 65 \<le> v \<and> v \<le> 90 then Some (v - 55)
     else None)"

text \<open>
  The loop of \<^verbatim>\<open>strconv.ParseUint\<close> at 64 bits, and \<^verbatim>\<open>strconv.ParseInt\<close> on top of it. A
  digit that is not one of the base is a syntax error, a value above the range a range
  error, whichever comes first; \<open>whole\<close> is the input the error reports.
\<close>

fun parse_uint :: "string \<Rightarrow> nat \<Rightarrow> nat \<Rightarrow> string \<Rightarrow> go_error + nat" where
  "parse_uint whole b acc [] = Inr acc"
| "parse_uint whole b acc (c # cs) =
     (case digit_val c of
        None \<Rightarrow> Inl (ErrSyntax whole)
      | Some d \<Rightarrow>
          if b \<le> d then Inl (ErrSyntax whole)
          else if 2 ^ 64 \<le> acc * b + d then Inl (ErrRange whole)
          else parse_uint whole b (acc * b + d) cs)"

definition ParseInt :: "nat \<Rightarrow> string \<Rightarrow> go_error + int" where
  "ParseInt b s =
     (let neg = HasPrefix s ''-'';
          body = (if neg \<or> HasPrefix s ''+'' then tl s else s)
      in if body = [] then Inl (ErrSyntax s)
         else case parse_uint s b 0 body of
           Inl e \<Rightarrow> Inl e
         | Inr un \<Rightarrow>
             if \<not> neg \<and> 2 ^ 63 \<le> un then Inl (ErrRange s)
             else if neg \<and> 2 ^ 63 < un then Inl (ErrRange s)
             else Inr (if neg then - int un else int un))"

abbreviation Atoi :: "string \<Rightarrow> go_error + int" where
  "Atoi \<equiv> ParseInt 10"

section \<open>Numbers print and parse back\<close>

definition undigits :: "nat \<Rightarrow> nat list \<Rightarrow> nat" where
  "undigits b = foldl (\<lambda>acc d. acc * b + d) 0"

lemma undigits_digits: "undigits b (digits b n) = n"
proof (induction b n rule: digits.induct)
  case (1 b n)
  then show ?case
    by (subst digits.simps) (auto simp: undigits_def)
qed

lemma digits_less: "2 \<le> b \<Longrightarrow> d \<in> set (digits b n) \<Longrightarrow> d < b"
proof (induction b n rule: digits.induct)
  case (1 b n)
  from "1.prems"(2) have "d \<in> set (if b < 2 \<or> n < b then [n] else digits b (n div b) @ [n mod b])"
    by (subst (asm) digits.simps)
  with "1.prems"(1) "1.IH" show ?case by (auto split: if_splits)
qed

lemma digits_nonempty [simp]: "digits b n \<noteq> []"
  by (subst digits.simps) simp

lemma digit_val_digit_char [simp]: "d < 16 \<Longrightarrow> digit_val (digit_char d) = Some d"
  by (auto simp: digit_val_def digit_char_def)

lemma foldl_digits_ge: "acc \<le> foldl (\<lambda>a d. a * b + d) acc ds" if "1 \<le> (b :: nat)"
proof (induction ds arbitrary: acc)
  case (Cons d ds)
  have "acc \<le> acc * b + d" using that by (simp add: trans_le_add1)
  also have "\<dots> \<le> foldl (\<lambda>a d. a * b + d) (acc * b + d) ds" by (rule Cons.IH)
  finally show ?case by simp
qed simp

lemma parse_uint_digits:
  assumes "2 \<le> b" and "b \<le> 16" and "\<forall>d \<in> set ds. d < b"
    and "foldl (\<lambda>a d. a * b + d) acc ds < 2 ^ 64"
  shows "parse_uint w b acc (map digit_char ds) = Inr (foldl (\<lambda>a d. a * b + d) acc ds)"
  using assms(3,4)
proof (induction ds arbitrary: acc)
  case (Cons d ds)
  have "acc * b + d \<le> foldl (\<lambda>a d. a * b + d) (acc * b + d) ds"
    using assms(1) by (intro foldl_digits_ge) simp
  with Cons.prems have lt: "acc * b + d < 2 ^ 64" by simp
  from Cons.prems assms(2) have d: "d < b" "d < 16" by auto
  from d lt Cons show ?case by (simp add: not_le)
qed simp

lemma digit_char_not_sign: "d < 16 \<Longrightarrow> digit_char d \<noteq> CHR ''-'' \<and> digit_char d \<noteq> CHR ''+''"
  using digit_val_digit_char [of d] by (auto simp: digit_val_def)

lemma ParseInt_digits:
  assumes "2 \<le> b" and "b \<le> 16" and "\<forall>d \<in> set ds. d < b" and "ds \<noteq> []"
    and "undigits b ds < 2 ^ 63"
  shows "ParseInt b (map digit_char ds) = Inr (int (undigits b ds))"
proof -
  obtain d ds' where ds: "ds = d # ds'" using assms(4) by (cases ds) auto
  with assms(2,3) have "d < 16" by auto
  then have ns: "digit_char d \<noteq> CHR ''-''" "digit_char d \<noteq> CHR ''+''"
    using digit_char_not_sign by auto
  have "parse_uint (map digit_char ds) b 0 (map digit_char ds) = Inr (undigits b ds)"
    using parse_uint_digits [OF assms(1-3), of 0] assms(5) by (simp add: undigits_def)
  with ns assms(5) ds show ?thesis by (simp add: ParseInt_def)
qed

lemma undigits_replicate_0 [simp]: "undigits b (replicate k 0 @ ds) = undigits b ds"
  by (induction k) (simp_all add: undigits_def)

lemma digit_char_0: "digit_char 0 = CHR ''0''"
  by (rule of_char_eqI [where ?'a = nat]) (simp add: digit_char_def)

lemma hex4_digits: "hex4 n = map digit_char (replicate (4 - length (hex n)) 0 @ digits 16 n)"
  by (simp add: hex4_def hex_def digit_char_0)

lemma ParseInt_hex4 [simp]: "n < 2 ^ 63 \<Longrightarrow> ParseInt 16 (hex4 n) = Inr (int n)"
proof -
  assume n: "n < 2 ^ 63"
  define ds where "ds = replicate (4 - length (hex n)) 0 @ digits 16 n"
  have u: "undigits 16 ds = n" by (simp add: ds_def undigits_digits)
  have "\<forall>d \<in> set ds. d < 16" using digits_less [of 16 _ n] by (auto simp: ds_def)
  then have "ParseInt 16 (map digit_char ds) = Inr (int (undigits 16 ds))"
    using n u by (intro ParseInt_digits) (auto simp: ds_def)
  then show ?thesis using u by (simp add: hex4_digits ds_def)
qed

lemma ParseInt_dec [simp]: "n < 2 ^ 63 \<Longrightarrow> ParseInt 10 (dec n) = Inr (int n)"
proof -
  assume n: "n < 2 ^ 63"
  have "\<forall>d \<in> set (digits 10 n). d < 10" using digits_less [of 10 _ n] by auto
  then have "ParseInt 10 (map digit_char (digits 10 n)) = Inr (int (undigits 10 (digits 10 n)))"
    using n by (intro ParseInt_digits) (auto simp: undigits_digits)
  then show ?thesis by (simp add: dec_def undigits_digits)
qed

lemma length_digits_le: "2 \<le> b \<Longrightarrow> n < b ^ k \<Longrightarrow> 0 < k \<Longrightarrow> length (digits b n) \<le> k"
proof (induction b n arbitrary: k rule: digits.induct)
  case (1 b n)
  show ?case
  proof (cases "n < b")
    case True
    with "1.prems" show ?thesis by (subst digits.simps) simp
  next
    case False
    with "1.prems" have k: "1 < k" by (cases "k = 1") auto
    then have "b ^ k = b ^ (k - 1) * b"
      by (metis One_nat_def Suc_pred less_trans mult.commute power_Suc zero_less_one)
    with "1.prems" have "n div b < b ^ (k - 1)" by (simp add: less_mult_imp_div_less)
    with False "1.IH" [of "k - 1"] "1.prems" k have "length (digits b (n div b)) \<le> k - 1" by simp
    with False "1.prems" k show ?thesis by (subst digits.simps) simp
  qed
qed

lemma length_hex4: "n < 65536 \<Longrightarrow> length (hex4 n) = 4"
  using length_digits_le [of 16 n 4] by (simp add: hex4_def hex_def)

section \<open>Splitting and trimming printable text\<close>

text \<open>
  \<open>graphic s\<close>: \<open>s\<close> is a non-empty string of printable ASCII characters without blanks,
  as serial numbers, states, socket addresses and package names are.
\<close>

definition graphic_char :: "char \<Rightarrow> bool" where
  "graphic_char c \<longleftrightarrow> 0x20 < (of_char c :: nat) \<and> (of_char c :: nat) < 0x7F"

definition graphic :: "string \<Rightarrow> bool" where
  "graphic s \<longleftrightarrow> s \<noteq> [] \<and> list_all graphic_char s"

lemma space_encodings_not_graphic:
  "list_all (\<lambda>e. e \<noteq> [] \<and> \<not> graphic_char (hd e) \<and> \<not> graphic_char (last e)) space_encodings"
  by (simp add: space_encodings_def graphic_char_def)

lemma space_len_graphic: "graphic_char x \<Longrightarrow> space_len (x # xs) = 0"
proof -
  assume g: "graphic_char x"
  have "\<not> prefix e (x # xs)" if "e \<in> set space_encodings" for e
  proof
    assume "prefix e (x # xs)"
    moreover from that have "e \<noteq> []" "\<not> graphic_char (hd e)"
      using space_encodings_not_graphic by (auto simp: list_all_iff)
    ultimately show False using g by (cases e) auto
  qed
  then have "find (\<lambda>e. prefix e (x # xs)) space_encodings = None"
    by (simp add: find_None_iff)
  then show ?thesis by (simp add: space_len_def)
qed

lemma space_end_graphic: "graphic_char x \<Longrightarrow> space_end (xs @ [x]) = 0"
proof -
  assume g: "graphic_char x"
  have "\<not> suffix e (xs @ [x])" if "e \<in> set space_encodings" for e
  proof
    assume "suffix e (xs @ [x])"
    moreover from that have "e \<noteq> []" "\<not> graphic_char (last e)"
      using space_encodings_not_graphic by (auto simp: list_all_iff)
    ultimately show False using g by (metis last_appendR last_snoc suffix_def)
  qed
  then have "find (\<lambda>e. suffix e (xs @ [x])) space_encodings = None"
    by (simp add: find_None_iff)
  then show ?thesis by (simp add: space_end_def)
qed

lemma trim_left_graphic: "graphic_char x \<Longrightarrow> trim_left (x # xs) = x # xs"
  by (simp add: trim_left.simps space_len_graphic)

lemma trim_right_graphic: "graphic_char x \<Longrightarrow> trim_right (xs @ [x]) = xs @ [x]"
  by (simp add: trim_right.simps space_end_graphic)

lemma trim_right_newline: "trim_right (xs @ ''\<newline>'') = trim_right xs"
proof -
  have "\<not> suffix [CHR 0x20] (xs @ [CHR 0x0A])" by (simp add: suffix_def)
  then have "space_end (xs @ [CHR 0x0A]) = 1"
    by (simp add: space_end_def space_encodings_def suffix_def)
  then show ?thesis by (subst trim_right.simps) simp
qed

lemma TrimSpace_ends:
  "s \<noteq> [] \<Longrightarrow> graphic_char (hd s) \<Longrightarrow> graphic_char (last s) \<Longrightarrow> TrimSpace s = s"
  by (metis TrimSpace_def append_butlast_last_id list.collapse trim_left_graphic trim_right_graphic)

lemma TrimSpace_graphic [simp]: "graphic s \<Longrightarrow> TrimSpace s = s"
  by (rule TrimSpace_ends) (auto simp: graphic_def list_all_iff)

lemma TrimSpace_Nil [simp]: "TrimSpace [] = []"
  by (simp add: TrimSpace_def trim_left.simps trim_right.simps)

lemma fields_loop_graphic:
  "list_all graphic_char w \<Longrightarrow> fields_loop cur (w @ rest) = fields_loop (cur @ w) rest"
proof (induction w arbitrary: cur)
  case (Cons x w)
  then have "fields_loop cur (x # w @ rest) = fields_loop (cur @ [x]) (w @ rest)"
    by (subst fields_loop.simps) (simp add: space_len_graphic)
  with Cons show ?case by simp
qed simp

lemma space_len_ascii:
  "space_len (CHR 0x20 # xs) = 1" "space_len (CHR 0x09 # xs) = 1" "space_len (CHR 0x0A # xs) = 1"
  by (simp_all add: space_len_def space_encodings_def)

lemma space_len_blank: "x \<in> {CHR 0x20, CHR 0x09, CHR 0x0A} \<Longrightarrow> space_len (x # xs) = 1"
  using space_len_ascii by blast

lemma fields_loop_blank:
  "x \<in> {CHR 0x20, CHR 0x09, CHR 0x0A} \<Longrightarrow>
   fields_loop cur (x # xs) = (if cur = [] then [] else [cur]) @ fields_loop [] xs"
  by (subst fields_loop.simps) (simp add: space_len_blank)

lemma Fields_word_blank:
  "graphic w \<Longrightarrow> x \<in> {CHR 0x20, CHR 0x09, CHR 0x0A} \<Longrightarrow> Fields (w @ x # rest) = w # Fields rest"
  by (simp add: Fields_def graphic_def fields_loop_graphic fields_loop_blank)

lemma Fields_word: "graphic w \<Longrightarrow> Fields w = [w]"
  using fields_loop_graphic [of w "[]" "[]"]
  by (simp add: Fields_def graphic_def fields_loop.simps)

lemma Fields_Nil [simp]: "Fields [] = []"
  by (simp add: Fields_def fields_loop.simps)

lemma Split_nonempty [simp]: "Split c s \<noteq> []"
  by (induction s) (auto split: list.splits)

lemma Split_append: "c \<notin> set s \<Longrightarrow> Split c (s @ c # rest) = s # Split c rest"
  by (induction s) (auto split: list.splits)

lemma Split_single: "c \<notin> set s \<Longrightarrow> Split c s = [s]"
  by (induction s) (auto split: list.splits)

lemma Split_Join:
  "\<forall>s \<in> set ss. c \<notin> set s \<Longrightarrow> ss \<noteq> [] \<Longrightarrow> Split c (Join [c] ss) = ss"
  by (induction "[c]" ss rule: Join.induct) (auto simp: Split_single Split_append)

lemma graphic_no_newline: "graphic s \<Longrightarrow> CHR 0x0A \<notin> set s \<and> CHR 0x20 \<notin> set s"
  by (auto simp: graphic_def graphic_char_def list_all_iff)

end
