(* ===== verification/Wire.thy ===== *)
theory Wire
  imports Conn GoLib
begin

text \<open>
  The request and reply framing of the adb server protocol: \<^verbatim>\<open>adb/connection.go\<close> (except the
  two methods that open a connection, which are in theory \<open>Client\<close>), the status words of
  \<^verbatim>\<open>adb/status.go\<close>, and the methods of \<^verbatim>\<open>Transport\<close> in \<^verbatim>\<open>adb/device_transport.go\<close>, which
  only use the connection they wrap. All are programs on one connection.
\<close>

section \<open>Status words\<close>

definition StatusOkay :: string where "StatusOkay = ''OKAY''"
definition StatusFail :: string where "StatusFail = ''FAIL''"
definition StatusSyncData :: string where "StatusSyncData = ''DATA''"
definition StatusSyncDone :: string where "StatusSyncDone = ''DONE''"
definition StatusNone :: string where "StatusNone = ''''"

lemmas status_defs = StatusOkay_def StatusFail_def StatusSyncData_def StatusSyncDone_def
  StatusNone_def

section \<open>Commands and length-prefixed payloads\<close>

definition frame :: "string \<Rightarrow> bytes" where
  "frame command = bytes_of (hex4 (length command) @ command)"

text \<open>
  The status is read with a single \<^verbatim>\<open>conn.Read\<close> into a zeroed buffer of four bytes: a
  short read leaves the rest of the buffer zero and is not an error.
\<close>

definition sendADBCommand :: "string \<Rightarrow> (conn, string) prog" where
  "sendADBCommand command =
     andThen (conn_Write (frame command)) (\<lambda>_.
     andThen (conn_Read 4) (\<lambda>d.
     ret (string_of (d @ replicate (4 - length d) 0))))"

definition parseHexInt :: "string \<Rightarrow> go_error + int" where
  "parseHexInt s = (case ParseInt 16 s of
       Inl err \<Rightarrow> Inl (InvalidHex s err)
     | Inr result \<Rightarrow> Inr result)"

definition readLengthPrefixed :: "(conn, bytes) prog" where
  "readLengthPrefixed =
     andThen (ReadFull 4) (\<lambda>lenBuf.
       case parseHexInt (string_of lenBuf) of
         Inl err \<Rightarrow> fail err
       | Inr l \<Rightarrow>
           if l = 0 then ret []
           else if l < 0 then panic MakeSliceLen
           else ReadFull (nat l))"

section \<open>Transport methods\<close>

definition ReadStatus :: "(conn, string) prog" where
  "ReadStatus =
     andThen (ReadFull 4) (\<lambda>statusBuf.
       let status = string_of statusBuf in
       if status = StatusFail
       then attempt readLengthPrefixed (\<lambda>r. case r of
              Inl _ \<Rightarrow> fail (Errorf ''operation failed (unable to read error message)'')
            | Inr msg \<Rightarrow> fail (Errorf (''operation failed: '' @ string_of msg)))
       else ret status)"

definition ValidateOkayStatus :: "(conn, unit) prog" where
  "ValidateOkayStatus =
     andThen ReadStatus (\<lambda>status.
       if status \<noteq> StatusOkay
       then fail (Errorf (''unexpected status: '' @ status @ '' (expected '' @ StatusOkay @ '')''))
       else ret ())"

definition SendCommand :: "string \<Rightarrow> (conn, string) prog" where
  "SendCommand cmd = andThen (conn_Write (frame cmd)) (\<lambda>_. ReadStatus)"

definition command_failed :: "string \<Rightarrow> go_error" where
  "command_failed cmd = Errorf (''command '' @ [CHR 0x27] @ cmd @ [CHR 0x27] @ '' failed'')"

definition ExecuteSimpleCommand :: "string \<Rightarrow> (conn, unit) prog" where
  "ExecuteSimpleCommand cmd =
     andThen (SendCommand cmd) (\<lambda>status.
       if status = StatusFail then fail (command_failed cmd) else ret ())"

definition ExecuteCommandWithResponse :: "string \<Rightarrow> (conn, bytes) prog" where
  "ExecuteCommandWithResponse cmd =
     andThen (SendCommand cmd) (\<lambda>status.
       if status = StatusFail then fail (command_failed cmd) else ReadAll)"

section \<open>The length-prefixed frame format\<close>

lemma readLengthPrefixed_frame:
  assumes "length d < 65536" and "\<not> isclosed c"
    and "pending c = bytes_of (hex4 (length d)) @ d @ rest"
  shows "readLengthPrefixed c = (Ok d, advance (4 + length d) c)"
proof -
  have l4: "length (hex4 (length d)) = 4" using assms(1) by (rule length_hex4)
  have "ReadFull 4 c = (Ok (bytes_of (hex4 (length d))), advance 4 c)"
    using assms(2,3) l4 by simp
  moreover have "parseHexInt (hex4 (length d)) = Inr (int (length d))"
    using assms(1) by (simp add: parseHexInt_def)
  moreover have "pending (advance 4 c) = d @ rest"
    using assms(3) l4 by simp
  ultimately show ?thesis
    using assms(2) by (auto simp: readLengthPrefixed_def ret_def)
qed

definition hex_frame :: "bytes \<Rightarrow> bytes" where
  "hex_frame d = bytes_of (hex4 (length d)) @ d"

lemma hex_frame_string: "hex_frame (bytes_of s) = frame s"
  by (simp add: hex_frame_def frame_def)

lemma length_hex_frame: "length d < 65536 \<Longrightarrow> length (hex_frame d) = 4 + length d"
  by (simp add: hex_frame_def length_hex4)

lemma readLengthPrefixed_hex_frame:
  "length d < 65536 \<Longrightarrow> \<not> isclosed c \<Longrightarrow> pending c = hex_frame d @ rest \<Longrightarrow>
   readLengthPrefixed c = (Ok d, advance (length (hex_frame d)) c)"
  by (simp add: readLengthPrefixed_frame hex_frame_def length_hex4)

interpretation hex_frames: frame_format hex_frame readLengthPrefixed "\<lambda>d. length d < 65536"
  pending conn_ready conn_fresh
proof unfold_locales
  fix x :: bytes and s :: conn and rest
  assume "length x < 65536" and "\<not> isclosed s" and "pending s = hex_frame x @ rest"
  with readLengthPrefixed_hex_frame show
    "\<exists>s'. readLengthPrefixed s = (Ok x, s') \<and> \<not> isclosed s' \<and> pending s' = rest" by auto
next
  fix x :: bytes assume "length x < 65536"
  then have "length (hex_frame x) \<noteq> 0" by (simp add: length_hex_frame)
  then show "hex_frame x \<noteq> []" by auto
qed simp_all

section \<open>Segmentation\<close>

lemma segment_free_readLengthPrefixed [oblivious_intros]: "segment_free readLengthPrefixed"
  unfolding readLengthPrefixed_def by (intro oblivious_intros)

lemma segment_free_ReadStatus [oblivious_intros]: "segment_free ReadStatus"
  unfolding ReadStatus_def Let_def by (intro oblivious_intros)

lemma segment_free_ValidateOkayStatus [oblivious_intros]: "segment_free ValidateOkayStatus"
  unfolding ValidateOkayStatus_def by (intro oblivious_intros)

lemma segment_free_SendCommand [oblivious_intros]: "segment_free (SendCommand cmd)"
  unfolding SendCommand_def by (intro oblivious_intros)

lemma segment_free_ExecuteSimpleCommand [oblivious_intros]:
  "segment_free (ExecuteSimpleCommand cmd)"
  unfolding ExecuteSimpleCommand_def by (intro oblivious_intros)

lemma segment_free_ExecuteCommandWithResponse [oblivious_intros]:
  "segment_free (ExecuteCommandWithResponse cmd)"
  unfolding ExecuteCommandWithResponse_def by (intro oblivious_intros)

section \<open>Status replies\<close>

text \<open>
  \<open>reply c w rest\<close>: the stream of \<open>c\<close> starts with the status word \<open>w\<close>.
\<close>

definition replies :: "conn \<Rightarrow> string \<Rightarrow> bytes \<Rightarrow> bool" where
  "replies c w rest \<longleftrightarrow> \<not> isclosed c \<and> length w = 4 \<and> pending c = bytes_of w @ rest"

lemma ReadStatus_word:
  "replies c w rest \<Longrightarrow> w \<noteq> StatusFail \<Longrightarrow> ReadStatus c = (Ok w, advance 4 c)"
  by (simp add: replies_def ReadStatus_def Let_def ret_def)

lemma ReadStatus_fail:
  assumes "replies c StatusFail (hex_frame msg @ rest)" and "length msg < 65536"
  shows "ReadStatus c = (Err (Errorf (''operation failed: '' @ string_of msg)),
    advance (4 + length (hex_frame msg)) c)"
proof -
  have "readLengthPrefixed (advance 4 c) =
      (Ok msg, advance (length (hex_frame msg)) (advance 4 c))"
    using assms by (intro readLengthPrefixed_hex_frame) (auto simp: replies_def)
  then show ?thesis
    using assms(1) by (simp add: replies_def ReadStatus_def Let_def fail_def)
qed

lemma SendCommand_word:
  assumes "replies c w rest" and "w \<noteq> StatusFail" and "room c = None"
  shows "SendCommand cmd c =
    (Ok w, (advance 4 c)\<lparr>outgoing := outgoing c @ frame cmd\<rparr>)"
proof -
  let ?c = "c\<lparr>outgoing := outgoing c @ frame cmd\<rparr>"
  have "replies ?c w rest" using assms(1) by (simp add: replies_def)
  from ReadStatus_word [OF this assms(2)] assms(1,3) show ?thesis
    by (simp add: SendCommand_def replies_def)
qed

lemma SendCommand_fail:
  assumes "replies c StatusFail (hex_frame msg @ rest)" and "length msg < 65536"
    and "room c = None"
  shows "SendCommand cmd c = (Err (Errorf (''operation failed: '' @ string_of msg)),
    (advance (4 + length (hex_frame msg)) c)\<lparr>outgoing := outgoing c @ frame cmd\<rparr>)"
proof -
  let ?c = "c\<lparr>outgoing := outgoing c @ frame cmd\<rparr>"
  have "replies ?c StatusFail (hex_frame msg @ rest)" using assms(1) by (simp add: replies_def)
  from ReadStatus_fail [OF this assms(2)] assms(1,3) show ?thesis
    by (simp add: SendCommand_def replies_def)
qed

end
