(* ===== verification/Client.thy ===== *)
theory Client
  imports Wire
begin

text \<open>
  Connecting to the adb server and to a device: \<^verbatim>\<open>adb/client.go\<close>, \<^verbatim>\<open>adb/device.go\<close>,
  \<^verbatim>\<open>adb/device_descriptor.go\<close>, the connection methods of \<^verbatim>\<open>adb/connection.go\<close> and the
  functions of \<^verbatim>\<open>adb/device_transport.go\<close> that open transports. The state is the world as
  this process sees it: the table of connections it has opened (a connection value of the Go
  code is an index into it, so that aliases share one entry), the outcomes of the coming dial
  attempts, and a record of the addresses dialled and the processes started.

  The second half states what the rest of the package relies on: the contract of a
  connector as a locale, and a calculus that shows, function by function, that every
  connection a call opens is closed when the call is over.
\<close>

section \<open>The world\<close>

record world =
  conns :: "conn list"
  dials :: "(go_error + conn) list"
  dialled :: "string list"
  spawned :: "string list list"

definition new_world :: "(go_error + conn) list \<Rightarrow> world" where
  "new_world ds = \<lparr>conns = [], dials = ds, dialled = [], spawned = []\<rparr>"

abbreviation err_refused :: go_error where
  "err_refused \<equiv> NetErr ''connection refused''"

text \<open>
  \<^verbatim>\<open>net.Dialer.DialContext\<close>: the next outcome, a refusal when the script is used up. The
  context only makes the dial fail, which is one of the outcomes.
\<close>

definition net_Dial :: "string \<Rightarrow> (world, nat) prog" where
  "net_Dial addr w =
     (let w1 = w\<lparr>dialled := dialled w @ [addr]\<rparr> in
      case dials w of
        [] \<Rightarrow> (Err err_refused, w1)
      | Inl e # ds \<Rightarrow> (Err e, w1\<lparr>dials := ds\<rparr>)
      | Inr c # ds \<Rightarrow> (Ok (length (conns w)), w1\<lparr>dials := ds, conns := conns w @ [c]\<rparr>))"

definition exec_Run :: "string list \<Rightarrow> (world, unit) prog" where
  "exec_Run argv w = (Ok (), w\<lparr>spawned := spawned w @ [argv]\<rparr>)"

definition on_conn :: "nat \<Rightarrow> (conn, 'a) prog \<Rightarrow> (world, 'a) prog" where
  "on_conn h m w =
     (if h < length (conns w)
      then (case m (conns w ! h) of (r, c) \<Rightarrow> (r, w\<lparr>conns := (conns w)[h := c]\<rparr>))
      else (Panic NilDereference, w))"

text \<open>\<^verbatim>\<open>conn.Close()\<close> with its result ignored, as every caller but one does.\<close>

definition close_conn :: "nat \<Rightarrow> (world, unit) prog" where
  "close_conn h w = (Ok (), snd (on_conn h conn_Close w))"

section \<open>Device descriptors\<close>

text \<open>
  The four constants of \<^verbatim>\<open>DeviceDescriptorType\<close>; \<open>OtherDescriptor\<close> is any other value of
  its underlying integer type.
\<close>

datatype device_descriptor_type = DeviceAny | DeviceSerial | DeviceUsb | DeviceLocal | OtherDescriptor int

record device_descriptor =
  descriptorType :: device_descriptor_type
  serial :: string

definition AnyDevice :: device_descriptor where
  "AnyDevice = \<lparr>descriptorType = DeviceAny, serial = ''''\<rparr>"

definition AnyUsbDevice :: device_descriptor where
  "AnyUsbDevice = \<lparr>descriptorType = DeviceUsb, serial = ''''\<rparr>"

definition AnyLocalDevice :: device_descriptor where
  "AnyLocalDevice = \<lparr>descriptorType = DeviceLocal, serial = ''''\<rparr>"

definition DeviceWithSerial :: "string \<Rightarrow> device_descriptor" where
  "DeviceWithSerial s = \<lparr>descriptorType = DeviceSerial, serial = s\<rparr>"

fun descriptor_type_String :: "device_descriptor_type \<Rightarrow> string" where
  "descriptor_type_String DeviceAny = ''DeviceAny''"
| "descriptor_type_String DeviceSerial = ''DeviceSerial''"
| "descriptor_type_String DeviceUsb = ''DeviceUsb''"
| "descriptor_type_String DeviceLocal = ''DeviceLocal''"
| "descriptor_type_String (OtherDescriptor i) = ''Unknown''"

definition descriptor_String :: "device_descriptor \<Rightarrow> string" where
  "descriptor_String d =
     (if descriptorType d = DeviceSerial
      then descriptor_type_String (descriptorType d) @ ''['' @ serial d @ '']''
      else descriptor_type_String (descriptorType d))"

definition invalid_descriptor :: "device_descriptor \<Rightarrow> go_panic" where
  "invalid_descriptor d =
     PanicCall (''invalid DeviceDescriptorType: '' @ descriptor_type_String (descriptorType d))"

definition getHostPrefix :: "device_descriptor \<Rightarrow> ('s, string) prog" where
  "getHostPrefix d = (case descriptorType d of
       DeviceAny \<Rightarrow> ret ''host''
     | DeviceUsb \<Rightarrow> ret ''host-usb''
     | DeviceLocal \<Rightarrow> ret ''host-local''
     | DeviceSerial \<Rightarrow> ret (''host-serial:'' @ serial d)
     | OtherDescriptor _ \<Rightarrow> panic (invalid_descriptor d))"

definition getTransportDescriptor :: "device_descriptor \<Rightarrow> ('s, string) prog" where
  "getTransportDescriptor d = (case descriptorType d of
       DeviceAny \<Rightarrow> ret ''transport-any''
     | DeviceUsb \<Rightarrow> ret ''transport-usb''
     | DeviceLocal \<Rightarrow> ret ''transport-local''
     | DeviceSerial \<Rightarrow> ret (''transport:'' @ serial d)
     | OtherDescriptor _ \<Rightarrow> panic (invalid_descriptor d))"

section \<open>Connectors and clients\<close>

text \<open>A value of the interface \<^verbatim>\<open>Connector\<close> is the program its one method runs.\<close>

type_synonym connector = "(world, nat) prog"

definition connector_addr :: "string \<Rightarrow> int \<Rightarrow> string" where
  "connector_addr host port = host @ '':'' @ dec_int port"

definition connectorImpl_Connection :: "string \<Rightarrow> int \<Rightarrow> connector" where
  "connectorImpl_Connection host port = net_Dial (connector_addr host port)"

definition autoStart_Connection :: "string \<Rightarrow> int \<Rightarrow> string \<Rightarrow> connector" where
  "autoStart_Connection host port bin =
     attempt (connectorImpl_Connection host port) (\<lambda>r. case r of
       Inr conn \<Rightarrow> ret conn
     | Inl _ \<Rightarrow>
         andThen (exec_Run [bin, ''start-server'']) (\<lambda>_.
         connectorImpl_Connection host port))"

record client =
  connector :: connector

record device_info =
  Serial :: string
  State :: string

record device_with_path =
  dwp_Serial :: string
  dwp_State :: string
  dwp_Model :: string
  dwp_Device :: string

record forward_entry =
  fwd_Serial :: string
  fwd_Local :: string
  fwd_Remote :: string

record reverse_entry =
  rev_Remote :: string
  rev_Local :: string

record client_options =
  opt_Host :: string
  opt_Port :: int
  opt_Bin :: string

text \<open>
  The environment of the process: \<open>getenv\<close> is \<^verbatim>\<open>os.Getenv\<close>, \<open>goos\<close> is \<^verbatim>\<open>runtime.GOOS\<close>.
\<close>

definition defaultADBName :: "string \<Rightarrow> string" where
  "defaultADBName goos = (if goos = ''windows'' then ''adb.exe'' else ''adb'')"

definition getEnvOrDefault :: "(string \<Rightarrow> string) \<Rightarrow> string \<Rightarrow> string \<Rightarrow> string" where
  "getEnvOrDefault getenv envVar defaultVal =
     (let val = getenv envVar in if val \<noteq> '''' then val else defaultVal)"

definition resolve_options :: "(string \<Rightarrow> string) \<Rightarrow> string \<Rightarrow> client_options \<Rightarrow> client_options" where
  "resolve_options getenv goos opts =
     (let opts = (if opt_Host opts = ''''
            then opts\<lparr>opt_Host := getEnvOrDefault getenv ''ANDROID_ADB_SERVER_HOST'' ''127.0.0.1''\<rparr>
            else opts);
          opts = (if opt_Port opts = 0
            then let portStr = getenv ''ANDROID_ADB_SERVER_PORT'' in
              opts\<lparr>opt_Port := (if portStr \<noteq> ''''
                  then (case Atoi portStr of Inr port \<Rightarrow> port | Inl _ \<Rightarrow> 5037) else 5037)\<rparr>
            else opts)
      in if opt_Bin opts = '''' then opts\<lparr>opt_Bin := defaultADBName goos\<rparr> else opts)"

definition NewClientWithOptions :: "(string \<Rightarrow> string) \<Rightarrow> string \<Rightarrow> client_options \<Rightarrow> client" where
  "NewClientWithOptions getenv goos opts =
     (let o' = resolve_options getenv goos opts in
      \<lparr>connector = autoStart_Connection (opt_Host o') (opt_Port o') (opt_Bin o')\<rparr>)"

definition NewClient :: "(string \<Rightarrow> string) \<Rightarrow> string \<Rightarrow> client" where
  "NewClient getenv goos =
     NewClientWithOptions getenv goos \<lparr>opt_Host = '''', opt_Port = 0, opt_Bin = ''''\<rparr>"

definition NewClientWithConnector :: "connector \<Rightarrow> client" where
  "NewClientWithConnector conn = \<lparr>connector = conn\<rparr>"

definition Connection :: "client \<Rightarrow> (world, nat) prog" where
  "Connection c = connector c"

record device =
  dev_client :: client
  descriptor :: device_descriptor

definition client_Device :: "client \<Rightarrow> device_descriptor \<Rightarrow> device" where
  "client_Device c desc = \<lparr>dev_client = c, descriptor = desc\<rparr>"

definition device_String :: "device \<Rightarrow> string" where
  "device_String d = descriptor_String (descriptor d)"

section \<open>Transports\<close>

definition Transport :: "device \<Rightarrow> (world, nat) prog" where
  "Transport d =
     andThen (Connection (dev_client d)) (\<lambda>conn.
     andThen (getTransportDescriptor (descriptor d)) (\<lambda>t.
     attempt (on_conn conn (sendADBCommand (''host:'' @ t))) (\<lambda>r. case r of
       Inl err \<Rightarrow> andThen (close_conn conn) (\<lambda>_. fail err)
     | Inr status \<Rightarrow>
         if status \<noteq> StatusOkay
         then attempt (on_conn conn readLengthPrefixed) (\<lambda>p.
              andThen (close_conn conn) (\<lambda>_.
              fail (Errorf (''device selection failed: '' @
                (case p of Inl _ \<Rightarrow> '''' | Inr payload \<Rightarrow> string_of payload)))))
         else ret conn)))"

definition executeTransportCommand :: "device \<Rightarrow> string \<Rightarrow> (world, unit) prog" where
  "executeTransportCommand d cmd =
     andThen (Transport d) (\<lambda>transport.
     deferring (close_conn transport) (on_conn transport (ExecuteSimpleCommand cmd)))"

definition executeTransportCommandWithResponse :: "device \<Rightarrow> string \<Rightarrow> (world, bytes) prog" where
  "executeTransportCommandWithResponse d cmd =
     andThen (Transport d) (\<lambda>transport.
     deferring (close_conn transport) (on_conn transport (ExecuteCommandWithResponse cmd)))"

definition openTransportConnection :: "device \<Rightarrow> string \<Rightarrow> (world, nat) prog" where
  "openTransportConnection d cmd =
     andThen (Transport d) (\<lambda>transport.
     attempt (on_conn transport (ExecuteSimpleCommand cmd)) (\<lambda>r. case r of
       Inl err \<Rightarrow> andThen (close_conn transport) (\<lambda>_. fail err)
     | Inr _ \<Rightarrow> ret transport))"

section \<open>The contract of a connector\<close>

text \<open>
  A connector opens at most one connection, which is the newest entry of the table, and
  leaves the older entries alone; when it reports an error it has opened none.
\<close>

locale dialer =
  fixes dial :: connector
  assumes dial_Ok: "dial w = (Ok h, w') \<Longrightarrow>
      h = length (conns w) \<and> (\<exists>c. conns w' = conns w @ [c])"
    and dial_Err: "dial w = (Err e, w') \<Longrightarrow> conns w' = conns w"
    and dial_Panic: "dial w \<noteq> (Panic p, w')"

lemma net_Dial_Ok:
  "net_Dial a w = (Ok h, w') \<Longrightarrow> h = length (conns w) \<and> (\<exists>c. conns w' = conns w @ [c])"
  by (auto simp: net_Dial_def Let_def split: list.splits sum.splits)

lemma net_Dial_Err: "net_Dial a w = (Err e, w') \<Longrightarrow> conns w' = conns w"
  by (auto simp: net_Dial_def Let_def split: list.splits sum.splits)

lemma net_Dial_Panic: "net_Dial a w \<noteq> (Panic p, w')"
  by (auto simp: net_Dial_def Let_def split: list.splits sum.splits)

interpretation impl: dialer "connectorImpl_Connection host port" for host port
  by unfold_locales
    (auto simp: connectorImpl_Connection_def net_Dial_Panic dest: net_Dial_Ok net_Dial_Err)

lemma autoStart_first:
  "connectorImpl_Connection host port w = (Ok h, w1) \<Longrightarrow>
   autoStart_Connection host port bin w = (Ok h, w1)"
  by (simp add: autoStart_Connection_def ret_def)

lemma autoStart_retry:
  "connectorImpl_Connection host port w = (Err e, w1) \<Longrightarrow>
   autoStart_Connection host port bin w =
     connectorImpl_Connection host port
       (w1\<lparr>spawned := spawned w1 @ [[bin, ''start-server'']]\<rparr>)"
  by (simp add: autoStart_Connection_def exec_Run_def andThen_def)

lemma autoStart_one_dial:
  "\<exists>w0. conns w0 = conns w \<and>
     autoStart_Connection host port bin w = connectorImpl_Connection host port w0"
proof (cases "connectorImpl_Connection host port w")
  case (Pair r w1)
  show ?thesis
  proof (cases r)
    case (Ok h)
    with Pair autoStart_first have
      "autoStart_Connection host port bin w = connectorImpl_Connection host port w" by simp
    then show ?thesis by blast
  next
    case (Err e)
    with Pair have cw: "conns w1 = conns w" using impl.dial_Err by blast
    from Pair Err autoStart_retry have
      "autoStart_Connection host port bin w = connectorImpl_Connection host port
         (w1\<lparr>spawned := spawned w1 @ [[bin, ''start-server'']]\<rparr>)" by simp
    with cw show ?thesis by (intro exI conjI) simp_all
  next
    case (Panic p)
    with Pair impl.dial_Panic show ?thesis by blast
  qed
qed

interpretation autostart: dialer "autoStart_Connection host port bin" for host port bin
proof unfold_locales
  fix w h w' assume "autoStart_Connection host port bin w = (Ok h, w')"
  with autoStart_one_dial [of w host port bin] impl.dial_Ok
  show "h = length (conns w) \<and> (\<exists>c. conns w' = conns w @ [c])" by metis
next
  fix w e w' assume "autoStart_Connection host port bin w = (Err e, w')"
  with autoStart_one_dial [of w host port bin] impl.dial_Err show "conns w' = conns w" by metis
next
  fix w p w' show "autoStart_Connection host port bin w \<noteq> (Panic p, w')"
    using autoStart_one_dial [of w host port bin] impl.dial_Panic by metis
qed

section \<open>Every connection is closed\<close>

text \<open>
  \<open>all_closed B w\<close>: the table is \<open>B\<close>, untouched, followed by closed connections.
  \<open>one_open B h w\<close>: the same, followed by the connection \<open>h\<close>, which may be open. The five
  predicates below say what a function does to such a table when it returns:
  \<open>leak_free\<close> opens nothing for its caller and closes everything it opened, also on its
  error paths; \<open>yields_conn\<close> returns one new connection, or an error and no open one;
  \<open>only h\<close> uses the open connection \<open>h\<close> and no other; \<open>settles h\<close> hands \<open>h\<close> on or reports
  an error with \<open>h\<close> closed; \<open>finishes h\<close> closes \<open>h\<close> either way.
\<close>

named_theorems leak_free_intros \<open>functions that close what they open\<close>

definition all_closed :: "conn list \<Rightarrow> world \<Rightarrow> bool" where
  "all_closed B w \<longleftrightarrow> (\<exists>new. conns w = B @ new \<and> list_all isclosed new)"

definition one_open :: "conn list \<Rightarrow> nat \<Rightarrow> world \<Rightarrow> bool" where
  "one_open B h w \<longleftrightarrow>
     (\<exists>new c. conns w = B @ new @ [c] \<and> list_all isclosed new \<and> h = length B + length new)"

definition leak_free :: "(world, 'a) prog \<Rightarrow> bool" where
  "leak_free m \<longleftrightarrow> (\<forall>B. triple (all_closed B) m (\<lambda>_. all_closed B) (all_closed B))"

definition yields_conn :: "(world, nat) prog \<Rightarrow> bool" where
  "yields_conn m \<longleftrightarrow> (\<forall>B. triple (all_closed B) m (one_open B) (all_closed B))"

definition only :: "nat \<Rightarrow> (world, 'a) prog \<Rightarrow> bool" where
  "only h m \<longleftrightarrow> (\<forall>B. triple (one_open B h) m (\<lambda>_. one_open B h) (one_open B h))"

definition settles :: "nat \<Rightarrow> (world, nat) prog \<Rightarrow> bool" where
  "settles h k \<longleftrightarrow>
     (\<forall>B. triple (one_open B h) k (\<lambda>h' w. h' = h \<and> one_open B h w) (all_closed B))"

definition finishes :: "nat \<Rightarrow> (world, 'a) prog \<Rightarrow> bool" where
  "finishes h k \<longleftrightarrow> (\<forall>B. triple (one_open B h) k (\<lambda>_. all_closed B) (all_closed B))"

lemma one_open_on_conn:
  assumes "one_open B h w" and "on_conn h m w = (r, w')"
  shows "one_open B h w'"
proof -
  from assms(1) obtain new c where n: "conns w = B @ new @ [c]" "list_all isclosed new"
      "h = length B + length new" by (auto simp: one_open_def)
  obtain r' c' where m: "m c = (r', c')" by (cases "m c")
  from n have "conns w ! h = c" by (simp add: nth_append)
  with n m assms(2) have "conns w' = B @ new @ [c']"
    by (auto simp: on_conn_def list_update_append)
  with n show ?thesis by (auto simp: one_open_def)
qed

lemma all_closed_close_conn:
  assumes "one_open B h w"
  shows "all_closed B (snd (close_conn h w))"
proof -
  from assms obtain new c where n: "conns w = B @ new @ [c]" "list_all isclosed new"
      "h = length B + length new" by (auto simp: one_open_def)
  then have "conns w ! h = c" by (simp add: nth_append)
  with n have "conns (snd (close_conn h w)) = B @ new @ [c\<lparr>isclosed := True\<rparr>]"
    by (cases c) (auto simp: close_conn_def on_conn_def conn_Close_def list_update_append)
  with n(2) have "conns (snd (close_conn h w)) = B @ (new @ [c\<lparr>isclosed := True\<rparr>])"
      "list_all isclosed (new @ [c\<lparr>isclosed := True\<rparr>])" by simp_all
  then show ?thesis unfolding all_closed_def by blast
qed

lemma only_basic [leak_free_intros]:
  "only h (ret x)" "only h (fail e)" "only h (panic p)" "only h (on_conn h m)"
  by (auto simp: only_def intro: triple_ret triple_fail triple_panic tripleI one_open_on_conn)

lemma only_andThen [leak_free_intros]:
  "only h m \<Longrightarrow> (\<And>x. only h (k x)) \<Longrightarrow> only h (andThen m k)"
  unfolding only_def by (blast intro: triple_andThen)

lemma only_attempt [leak_free_intros]:
  "only h m \<Longrightarrow> (\<And>x. only h (k x)) \<Longrightarrow> only h (attempt m k)"
  unfolding only_def by (blast intro: triple_attempt)

lemma only_if [leak_free_intros]: "only h a \<Longrightarrow> only h b \<Longrightarrow> only h (if P then a else b)"
  by simp

lemma only_case_sum [leak_free_intros]:
  "(\<And>e. only h (f e)) \<Longrightarrow> (\<And>x. only h (g x)) \<Longrightarrow> only h (case y of Inl e \<Rightarrow> f e | Inr x \<Rightarrow> g x)"
  by (simp split: sum.split)

lemma settles_ret [leak_free_intros]: "settles h (ret h)"
  by (auto simp: settles_def intro: triple_ret)

lemma settles_panic [leak_free_intros]: "settles h (panic p)"
  by (simp add: settles_def triple_panic)

lemma settles_close_fail [leak_free_intros]: "settles h (andThen (close_conn h) (\<lambda>_. fail e))"
  unfolding settles_def
proof
  fix B
  have "triple (one_open B h) (close_conn h) (\<lambda>_. all_closed B) (all_closed B)"
    using all_closed_close_conn by (intro tripleI) (auto simp: close_conn_def)
  then show "triple (one_open B h) (andThen (close_conn h) (\<lambda>_. fail e))
      (\<lambda>h' w. h' = h \<and> one_open B h w) (all_closed B)"
    by (rule triple_andThen) (rule triple_fail)
qed

lemma settles_attempt [leak_free_intros]:
  "only h m \<Longrightarrow> (\<And>x. settles h (k x)) \<Longrightarrow> settles h (attempt m k)"
  unfolding only_def settles_def by (blast intro: triple_attempt)

lemma settles_if [leak_free_intros]:
  "settles h a \<Longrightarrow> settles h b \<Longrightarrow> settles h (if P then a else b)"
  by simp

lemma settles_case_sum [leak_free_intros]:
  "(\<And>e. settles h (f e)) \<Longrightarrow> (\<And>x. settles h (g x)) \<Longrightarrow>
   settles h (case y of Inl e \<Rightarrow> f e | Inr x \<Rightarrow> g x)"
  by (simp split: sum.split)

lemma andThen_panic [simp]: "andThen (panic p) k = panic p"
  by (simp add: andThen_def panic_def fun_eq_iff)

lemma settles_descriptor [leak_free_intros]:
  "(\<And>x. settles h (k x)) \<Longrightarrow> settles h (andThen (getTransportDescriptor d) k)"
  by (simp add: getTransportDescriptor_def settles_panic split: device_descriptor_type.split)

lemma finishes_deferring [leak_free_intros]:
  "only h m \<Longrightarrow> finishes h (deferring (close_conn h) m)"
  unfolding only_def finishes_def by (blast intro: triple_deferring all_closed_close_conn)

lemma yields_conn_andThen [leak_free_intros]:
  assumes "yields_conn m" and "\<And>h. settles h (k h)"
  shows "yields_conn (andThen m k)"
  unfolding yields_conn_def
proof
  fix B
  have "triple (one_open B h) (k h) (one_open B) (all_closed B)" for h
    using assms(2) [of h] unfolding settles_def by (fastforce simp: triple_def split: result.splits prod.splits)
  with assms(1) show "triple (all_closed B) (andThen m k) (one_open B) (all_closed B)"
    unfolding yields_conn_def by (blast intro: triple_andThen)
qed

lemma leak_free_yields:
  "yields_conn m \<Longrightarrow> (\<And>h. finishes h (k h)) \<Longrightarrow> leak_free (andThen m k)"
  unfolding yields_conn_def finishes_def leak_free_def by (blast intro: triple_andThen)

lemma leak_free_basic [leak_free_intros]:
  "leak_free (ret x)" "leak_free (fail e)" "leak_free (panic p)"
  by (auto simp: leak_free_def intro: triple_ret triple_fail triple_panic)

lemma leak_free_if [leak_free_intros]:
  "leak_free a \<Longrightarrow> leak_free b \<Longrightarrow> leak_free (if P then a else b)"
  by simp

lemma leak_free_case_sum [leak_free_intros]:
  "(\<And>e. leak_free (f e)) \<Longrightarrow> (\<And>x. leak_free (g x)) \<Longrightarrow>
   leak_free (case y of Inl e \<Rightarrow> f e | Inr x \<Rightarrow> g x)"
  by (simp split: sum.split)

lemma leak_free_andThen [leak_free_intros]:
  "leak_free m \<Longrightarrow> (\<And>x. leak_free (k x)) \<Longrightarrow> leak_free (andThen m k)"
  unfolding leak_free_def by (blast intro: triple_andThen)

lemma leak_free_attempt [leak_free_intros]:
  "leak_free m \<Longrightarrow> (\<And>x. leak_free (k x)) \<Longrightarrow> leak_free (attempt m k)"
  unfolding leak_free_def by (blast intro: triple_attempt)

lemma leak_free_getHostPrefix [leak_free_intros]: "leak_free (getHostPrefix d)"
  by (simp add: getHostPrefix_def leak_free_basic split: device_descriptor_type.split)

lemma leak_freeD:
  assumes "leak_free m" and "m w = (r, w')" and "\<And>p. r \<noteq> Panic p"
  shows "\<exists>new. conns w' = conns w @ new \<and> list_all isclosed new"
proof -
  have "all_closed (conns w) w" by (auto simp: all_closed_def)
  with assms have "all_closed (conns w) w'"
    unfolding leak_free_def by (cases r) (blast dest: triple_Ok triple_Err)+
  then show ?thesis by (simp add: all_closed_def)
qed

context dialer
begin

lemma dial_yields: "yields_conn dial"
  unfolding yields_conn_def
proof (intro allI tripleI)
  fix B w h w' assume "all_closed B w" and "dial w = (Ok h, w')"
  then show "one_open B h w'"
    using dial_Ok unfolding all_closed_def one_open_def by (fastforce simp: length_append)
next
  fix B w e w' assume "all_closed B w" and "dial w = (Err e, w')"
  then show "all_closed B w'" using dial_Err by (simp add: all_closed_def)
qed

text \<open>What holds of a device whose client uses this connector.\<close>

lemma Transport_yields:
  "connector (dev_client d) = dial \<Longrightarrow> yields_conn (Transport d)"
  unfolding Transport_def Connection_def using dial_yields by (auto intro!: leak_free_intros)

lemma openTransportConnection_yields:
  "connector (dev_client d) = dial \<Longrightarrow> yields_conn (openTransportConnection d cmd)"
  unfolding openTransportConnection_def using Transport_yields
  by (auto intro!: leak_free_intros)

lemma executeTransportCommand_leak_free:
  "connector (dev_client d) = dial \<Longrightarrow> leak_free (executeTransportCommand d cmd)"
  unfolding executeTransportCommand_def
  by (rule leak_free_yields [OF Transport_yields]) (auto intro!: leak_free_intros)

lemma executeTransportCommandWithResponse_leak_free:
  "connector (dev_client d) = dial \<Longrightarrow> leak_free (executeTransportCommandWithResponse d cmd)"
  unfolding executeTransportCommandWithResponse_def
  by (rule leak_free_yields [OF Transport_yields]) (auto intro!: leak_free_intros)

end

end
