(* ===== verification/HostCommands.thy ===== *)
theory HostCommands
  imports Client
begin

text \<open>
  The host services of the adb server, \<^verbatim>\<open>adb/client_commands.go\<close>: the request and reply
  cycle of \<^verbatim>\<open>SendHostCommandContext\<close> and the commands on top of it, with the parsers of
  their replies. Contexts are a record: whether the context has a deadline, and what its
  \<^verbatim>\<open>Err()\<close> answers when the code asks. A cancellation in the middle of the call closes the
  connection; the environment of the connection covers that.
\<close>

section \<open>The request and reply cycle\<close>

record go_context =
  has_deadline :: bool
  ctx_Err :: "go_error option"

definition with_timeout :: "go_error option \<Rightarrow> go_context" where
  "with_timeout e = \<lparr>has_deadline = True, ctx_Err = e\<rparr>"

fun is_net_error :: "go_error \<Rightarrow> bool" where
  "is_net_error (NetErr _) = True"
| "is_net_error _ = False"

text \<open>
  The part of \<^verbatim>\<open>SendHostCommandContext\<close> that talks to the server, on the open connection.
\<close>

definition host_exchange :: "go_context \<Rightarrow> string \<Rightarrow> (conn, bytes) prog" where
  "host_exchange ctx cmd =
     attempt (sendADBCommand cmd) (\<lambda>r. case r of
       Inl err \<Rightarrow> (case ctx_Err ctx of Some e \<Rightarrow> fail e | None \<Rightarrow> fail err)
     | Inr status \<Rightarrow>
         if status = StatusFail
         then attempt readLengthPrefixed (\<lambda>p.
                fail (Errorf (''adb server FAIL: '' @
                  (case p of Inl _ \<Rightarrow> '''' | Inr payload \<Rightarrow> string_of payload))))
         else attempt readLengthPrefixed (\<lambda>p. case p of
                Inr payload \<Rightarrow> ret payload
              | Inl err \<Rightarrow>
                  if is_net_error err then fail err
                  else andThen ReadAll_data (\<lambda>rest.
                    case ctx_Err ctx of Some e \<Rightarrow> fail e | None \<Rightarrow> ret rest)))"

definition SendHostCommandContext :: "client \<Rightarrow> go_context \<Rightarrow> string \<Rightarrow> (world, bytes) prog" where
  "SendHostCommandContext c ctx cmd =
     andThen (Connection c) (\<lambda>conn.
     deferring (close_conn conn)
       (andThen (if has_deadline ctx then on_conn conn conn_SetDeadline else ret ()) (\<lambda>_.
        on_conn conn (host_exchange ctx cmd))))"

text \<open>
  \<^verbatim>\<open>SendHostCommand\<close> makes a context with a timeout; \<open>late\<close> is what that context reports
  once the 30 seconds are over, or \<open>None\<close> while they are not.
\<close>

definition SendHostCommand :: "client \<Rightarrow> go_error option \<Rightarrow> string \<Rightarrow> (world, bytes) prog" where
  "SendHostCommand c late cmd = SendHostCommandContext c (with_timeout late) cmd"

section \<open>Commands\<close>

definition Version :: "client \<Rightarrow> go_error option \<Rightarrow> (world, int) prog" where
  "Version c late =
     andThen (SendHostCommand c late ''host:version'') (\<lambda>payload.
       let versionStr = TrimSpace (string_of payload) in
       case parseHexInt versionStr of
         Inl err \<Rightarrow> fail (InvalidVersion versionStr err)
       | Inr version \<Rightarrow> ret version)"

definition ParseHostPort :: "string \<Rightarrow> int \<Rightarrow> go_error + (string \<times> int)" where
  "ParseHostPort hostPort defaultPort =
     (if Contains hostPort '':''
      then let host = takeWhile (\<lambda>c. c \<noteq> CHR '':'') hostPort;
               rest = tl (dropWhile (\<lambda>c. c \<noteq> CHR '':'') hostPort)
           in (case Atoi rest of Inl err \<Rightarrow> Inl err | Inr port \<Rightarrow> Inr (host, port))
      else Inr (hostPort, defaultPort))"

definition ConnectContext :: "client \<Rightarrow> go_context \<Rightarrow> string \<Rightarrow> (world, string) prog" where
  "ConnectContext c ctx hostPort = (case ParseHostPort hostPort 5555 of
       Inl err \<Rightarrow> fail err
     | Inr (host, port) \<Rightarrow>
         andThen (SendHostCommandContext c ctx (''host:connect:'' @ host @ '':'' @ dec_int port))
           (\<lambda>payload. ret (TrimSpace (string_of payload))))"

definition Connect :: "client \<Rightarrow> go_error option \<Rightarrow> string \<Rightarrow> (world, string) prog" where
  "Connect c late hostPort = ConnectContext c (with_timeout late) hostPort"

definition DisconnectContext :: "client \<Rightarrow> go_context \<Rightarrow> string \<Rightarrow> (world, string) prog" where
  "DisconnectContext c ctx hostPort = (case ParseHostPort hostPort 5555 of
       Inl err \<Rightarrow> fail err
     | Inr (host, port) \<Rightarrow>
         andThen (SendHostCommandContext c ctx (''host:disconnect:'' @ host @ '':'' @ dec_int port))
           (\<lambda>payload. ret (TrimSpace (string_of payload))))"

definition Disconnect :: "client \<Rightarrow> go_error option \<Rightarrow> string \<Rightarrow> (world, string) prog" where
  "Disconnect c late hostPort = DisconnectContext c (with_timeout late) hostPort"

text \<open>The loop of \<^verbatim>\<open>ListDevices\<close> over the lines of the reply.\<close>

fun device_lines :: "string list \<Rightarrow> device_info list" where
  "device_lines [] = []"
| "device_lines (line # lines) =
     (if line = '''' then device_lines lines
      else case Fields line of
        s # st # _ \<Rightarrow> \<lparr>Serial = s, State = st\<rparr> # device_lines lines
      | _ \<Rightarrow> device_lines lines)"

definition ListDevices :: "client \<Rightarrow> go_error option \<Rightarrow> (world, device_info list) prog" where
  "ListDevices c late =
     andThen (SendHostCommand c late ''host:devices'') (\<lambda>payload.
       ret (device_lines (Split (CHR 0x0A) (TrimSpace (string_of payload)))))"

fun device_path_lines :: "string list \<Rightarrow> device_with_path list" where
  "device_path_lines [] = []"
| "device_path_lines (line # lines) =
     (if line = '''' then device_path_lines lines
      else case Fields line of
        s # st # m # dv # _ \<Rightarrow>
          \<lparr>dwp_Serial = s, dwp_State = st, dwp_Model = m, dwp_Device = dv\<rparr> # device_path_lines lines
      | s # st # _ \<Rightarrow>
          \<lparr>dwp_Serial = s, dwp_State = st, dwp_Model = '''', dwp_Device = ''''\<rparr>
            # device_path_lines lines
      | _ \<Rightarrow> device_path_lines lines)"

definition ListDevicesWithPaths ::
  "client \<Rightarrow> go_error option \<Rightarrow> (world, device_with_path list) prog" where
  "ListDevicesWithPaths c late =
     andThen (SendHostCommand c late ''host:devices-l'') (\<lambda>payload.
       ret (device_path_lines (Split (CHR 0x0A) (TrimSpace (string_of payload)))))"

definition TrackDevices :: "client \<Rightarrow> (world, nat) prog" where
  "TrackDevices c =
     andThen (Connection c) (\<lambda>conn.
     attempt (on_conn conn (sendADBCommand ''host:track-devices'')) (\<lambda>r. case r of
       Inl err \<Rightarrow> andThen (close_conn conn) (\<lambda>_. fail err)
     | Inr status \<Rightarrow>
         if status \<noteq> StatusOkay
         then attempt (on_conn conn readLengthPrefixed) (\<lambda>p.
              andThen (close_conn conn) (\<lambda>_.
              fail (Errorf (''trackDevices failed: '' @
                (case p of Inl _ \<Rightarrow> '''' | Inr payload \<Rightarrow> string_of payload)))))
         else ret conn))"

fun pair_fields :: "string list \<Rightarrow> device_info list" where
  "pair_fields (s # st # rest) = \<lparr>Serial = s, State = st\<rparr> # pair_fields rest"
| "pair_fields _ = []"

definition parseDevicesList :: "string \<Rightarrow> device_info list" where
  "parseDevicesList line = pair_fields (Fields line)"

definition KillServer :: "client \<Rightarrow> go_error option \<Rightarrow> (world, bool) prog" where
  "KillServer c late =
     andThen (SendHostCommand c late ''host:kill'') (\<lambda>payload. ret (length payload = 0))"

fun forward_lines :: "string list \<Rightarrow> forward_entry list" where
  "forward_lines [] = []"
| "forward_lines (line # lines) =
     (case Fields line of
        s # l # r # _ \<Rightarrow>
          \<lparr>fwd_Serial = s, fwd_Local = l, fwd_Remote = r\<rparr> # forward_lines lines
      | _ \<Rightarrow> forward_lines lines)"

definition ListForwards :: "client \<Rightarrow> go_error option \<Rightarrow> (world, forward_entry list) prog" where
  "ListForwards c late =
     andThen (SendHostCommand c late ''host:list-forward'') (\<lambda>payload.
       let out = TrimSpace (string_of payload) in
       if out = '''' then ret [] else ret (forward_lines (Split (CHR 0x0A) out)))"

definition client_Features :: "client \<Rightarrow> go_error option \<Rightarrow> (world, string list) prog" where
  "client_Features c late =
     andThen (SendHostCommand c late ''host:features'') (\<lambda>payload.
       ret (Split (CHR '','') (TrimSpace (string_of payload))))"

section \<open>What the exchange does\<close>

text \<open>
  \<open>answers c w rest\<close>: the first segment of the reply carries at least the whole status
  word \<open>w\<close>, which is what the single \<^verbatim>\<open>Read\<close> of \<^verbatim>\<open>sendADBCommand\<close> needs.
\<close>

definition answers :: "conn \<Rightarrow> string \<Rightarrow> bytes \<Rightarrow> bool" where
  "answers c w rest \<longleftrightarrow> \<not> isclosed c \<and> room c = None \<and> length w = 4 \<and>
     pending c = bytes_of w @ rest \<and> (\<exists>seg segs. incoming c = seg # segs \<and> 4 \<le> length seg)"

lemma sendADBCommand_word:
  assumes "answers c w rest"
  shows "sendADBCommand cmd c =
    (Ok w, (advance 4 c)\<lparr>outgoing := outgoing c @ frame cmd\<rparr>)"
proof -
  from assms obtain seg segs where s: "incoming c = seg # segs" "4 \<le> length seg"
    and c: "\<not> isclosed c" "room c = None" "length w = 4" "pending c = bytes_of w @ rest"
    by (auto simp: answers_def)
  have "take 4 seg = take 4 (pending c)" using s by (simp add: pending_def)
  then have w: "take 4 seg = bytes_of w" using c by simp
  let ?c = "c\<lparr>outgoing := outgoing c @ frame cmd\<rparr>"
  have "conn_Read 4 ?c = (Ok (bytes_of w), advance 4 ?c)"
    using s c(1) w by (simp add: conn_Read_def advance_def)
  with c show ?thesis by (simp add: sendADBCommand_def ret_def)
qed

lemma host_exchange_Ok:
  assumes "answers c StatusOkay (hex_frame payload @ rest)" and "length payload < 65536"
  shows "host_exchange ctx cmd c =
    (Ok payload, (advance (4 + length (hex_frame payload)) c)\<lparr>outgoing := outgoing c @ frame cmd\<rparr>)"
proof -
  let ?c = "(advance 4 c)\<lparr>outgoing := outgoing c @ frame cmd\<rparr>"
  have "readLengthPrefixed ?c = (Ok payload, advance (length (hex_frame payload)) ?c)"
    using assms by (intro readLengthPrefixed_hex_frame) (auto simp: answers_def)
  with sendADBCommand_word [OF assms(1)] show ?thesis
    by (simp add: host_exchange_def status_defs ret_def)
qed

lemma host_exchange_Fail:
  assumes "answers c StatusFail (hex_frame msg @ rest)" and "length msg < 65536"
  shows "fst (host_exchange ctx cmd c) = Err (Errorf (''adb server FAIL: '' @ string_of msg))"
proof -
  let ?c = "(advance 4 c)\<lparr>outgoing := outgoing c @ frame cmd\<rparr>"
  have "readLengthPrefixed ?c = (Ok msg, advance (length (hex_frame msg)) ?c)"
    using assms by (intro readLengthPrefixed_hex_frame) (auto simp: answers_def)
  with sendADBCommand_word [OF assms(1)] show ?thesis
    by (simp add: host_exchange_def fail_def)
qed

section \<open>Running a command through a client\<close>

lemma autoStart_connects:
  "dials w = Inr c # ds \<Longrightarrow>
   autoStart_Connection host port bin w =
     (Ok (length (conns w)),
      w\<lparr>dialled := dialled w @ [connector_addr host port], dials := ds, conns := conns w @ [c]\<rparr>)"
  by (intro autoStart_first) (simp add: connectorImpl_Connection_def net_Dial_def)

text \<open>
  A whole host command over a connection that answers with a framed payload: the payload is
  returned, exactly the framed command was written, and the connection is closed.
\<close>

lemma SendHostCommandContext_Ok:
  assumes "connector cl = autoStart_Connection host port bin"
    and "dials w = Inr c # ds"
    and "answers c StatusOkay (hex_frame payload @ rest)" and "length payload < 65536"
  shows "\<exists>w' c'. SendHostCommandContext cl ctx cmd w = (Ok payload, w') \<and>
    dials w' = ds \<and> conns w' = conns w @ [c'] \<and> isclosed c' \<and> outgoing c' = outgoing c @ frame cmd"
proof -
  let ?h = "length (conns w)"
  let ?w = "w\<lparr>dialled := dialled w @ [connector_addr host port], dials := ds,
    conns := conns w @ [c]\<rparr>"
  let ?c = "(advance (4 + length (hex_frame payload)) c)\<lparr>outgoing := outgoing c @ frame cmd\<rparr>"
  have "Connection cl w = (Ok ?h, ?w)"
    using assms(1,2) autoStart_connects by (simp add: Connection_def)
  moreover have "on_conn ?h (host_exchange ctx cmd) ?w = (Ok payload, ?w\<lparr>conns := conns w @ [?c]\<rparr>)"
    using host_exchange_Ok [OF assms(3,4)] by (simp add: on_conn_def)
  moreover have "(if has_deadline ctx then on_conn ?h conn_SetDeadline else ret ()) ?w = (Ok (), ?w)"
    using assms(3) by (simp add: on_conn_def conn_SetDeadline_def ret_def answers_def)
  ultimately show ?thesis
    using assms(3)
    by (simp add: SendHostCommandContext_def deferring_def close_conn_def on_conn_def
        conn_Close_def answers_def)
qed

context dialer
begin

lemma SendHostCommandContext_leak_free:
  "connector c = dial \<Longrightarrow> leak_free (SendHostCommandContext c ctx cmd)"
  unfolding SendHostCommandContext_def Connection_def
  by (rule leak_free_yields) (auto simp: dial_yields intro!: leak_free_intros)

lemma TrackDevices_yields: "connector c = dial \<Longrightarrow> yields_conn (TrackDevices c)"
  unfolding TrackDevices_def Connection_def using dial_yields by (auto intro!: leak_free_intros)

end

end
