(* ===== verification/Device.thy ===== *)
theory Device
  imports HostCommands
begin

text \<open>
  The operations on one device that are built from the connection layer:
  \<^verbatim>\<open>adb/device_shell.go\<close>, \<^verbatim>\<open>adb/device_info.go\<close>, \<^verbatim>\<open>adb/device_features.go\<close>,
  \<^verbatim>\<open>adb/device_forward.go\<close>, \<^verbatim>\<open>adb/device_network.go\<close> and \<^verbatim>\<open>adb/device_commands.go\<close>. As in
  \<^verbatim>\<open>adb/client_commands.go\<close>, \<open>late\<close> is what the context of a host command reports. In the
  functions that take a context of their own, \<open>ctx_Err ctx = Some e\<close> is a context that is done
  before the device's stream ends.
\<close>

section \<open>Shell commands\<close>

definition background :: go_context where
  "background = \<lparr>has_deadline = False, ctx_Err = None\<rparr>"

definition Shell :: "device \<Rightarrow> string \<Rightarrow> (world, nat) prog" where
  "Shell d command =
     andThen (Transport d) (\<lambda>transport.
     attempt (on_conn transport (SendCommand (''shell:'' @ command))) (\<lambda>r. case r of
       Inl err \<Rightarrow> andThen (close_conn transport) (\<lambda>_. fail err)
     | Inr status \<Rightarrow>
         if status \<noteq> StatusOkay
         then andThen (close_conn transport) (\<lambda>_. fail (Errorf (''unexpected status: '' @ status)))
         else ret transport))"

definition readAllWithContext :: "go_context \<Rightarrow> nat \<Rightarrow> (world, bytes) prog" where
  "readAllWithContext ctx conn = (case ctx_Err ctx of
       Some e \<Rightarrow> andThen (close_conn conn) (\<lambda>_. fail e)
     | None \<Rightarrow> on_conn conn ReadAll)"

definition RunCommandContext :: "device \<Rightarrow> go_context \<Rightarrow> string \<Rightarrow> (world, string) prog" where
  "RunCommandContext d ctx command =
     andThen (Shell d command) (\<lambda>conn.
     deferring (close_conn conn)
       (andThen (readAllWithContext ctx conn) (\<lambda>data. ret (string_of data))))"

definition RunCommand :: "device \<Rightarrow> string \<Rightarrow> (world, string) prog" where
  "RunCommand d command = RunCommandContext d background command"

definition ReadAllFromConn :: "nat \<Rightarrow> (world, bytes) prog" where
  "ReadAllFromConn conn = deferring (close_conn conn) (on_conn conn ReadAll)"

section \<open>Attributes and properties\<close>

definition getAttribute :: "device \<Rightarrow> go_error option \<Rightarrow> string \<Rightarrow> (world, string) prog" where
  "getAttribute d late attr =
     andThen (getHostPrefix (descriptor d)) (\<lambda>p.
     andThen (SendHostCommand (dev_client d) late (p @ '':'' @ attr)) (\<lambda>payload.
     ret (TrimSpace (string_of payload))))"

definition device_Serial :: "device \<Rightarrow> go_error option \<Rightarrow> (world, string) prog" where
  "device_Serial d late =
     andThen (getAttribute d late ''get-serialno'') (\<lambda>attr. ret (TrimSpace attr))"

definition DevicePath :: "device \<Rightarrow> go_error option \<Rightarrow> (world, string) prog" where
  "DevicePath d late =
     andThen (getAttribute d late ''get-devpath'') (\<lambda>attr. ret (TrimSpace attr))"

definition device_State :: "device \<Rightarrow> go_error option \<Rightarrow> (world, string) prog" where
  "device_State d late =
     andThen (getAttribute d late ''get-state'') (\<lambda>attr. ret (TrimSpace attr))"

text \<open>One line of the \<^verbatim>\<open>getprop\<close> output: the property it sets, if any.\<close>

definition getprop_line :: "string \<Rightarrow> (string \<times> string) option" where
  "getprop_line l =
     (let line = TrimSpace l in
      if line = '''' then None
      else if \<not> HasPrefix line ''['' then None
      else case Index line '']:'' of
        None \<Rightarrow> None
      | Some endKey \<Rightarrow>
          let key = TrimBlank (take (endKey - 1) (drop 1 line));
              rest = TrimSpace (drop (endKey + 2) line);
              rest = (if HasPrefix rest ''['' \<and> HasSuffix rest '']''
                      then take (length rest - 2) (drop 1 rest) else rest)
          in Some (key, rest))"

definition parseGetpropOutput :: "string \<Rightarrow> string \<rightharpoonup> string" where
  "parseGetpropOutput output =
     foldl (\<lambda>props line. case getprop_line line of
        None \<Rightarrow> props | Some (key, rest) \<Rightarrow> props(key \<mapsto> rest))
       Map.empty (Split (CHR 0x0A) output)"

definition Properties :: "device \<Rightarrow> (world, string \<rightharpoonup> string) prog" where
  "Properties d = andThen (RunCommand d ''getprop'') (\<lambda>output. ret (parseGetpropOutput output))"

definition quoted :: "string \<Rightarrow> string" where
  "quoted s = [CHR 0x27] @ s @ [CHR 0x27]"

definition DHCPIpAddress :: "device \<Rightarrow> string \<Rightarrow> (world, string) prog" where
  "DHCPIpAddress d iface0 =
     (let iface = (if iface0 = '''' then ''wlan0'' else iface0) in
      andThen (Properties d) (\<lambda>props.
        case props (''dhcp.'' @ iface @ ''.ipaddress'') of
          Some ip \<Rightarrow> if ip \<noteq> '''' then ret ip
                    else fail (Errorf (''unable to find ipaddress for '' @ quoted iface))
        | None \<Rightarrow> fail (Errorf (''unable to find ipaddress for '' @ quoted iface))))"

section \<open>Device state\<close>

definition Reboot :: "device \<Rightarrow> (world, bool) prog" where
  "Reboot d = andThen (executeTransportCommand d ''reboot:'') (\<lambda>_. ret True)"

definition Remount :: "device \<Rightarrow> (world, bool) prog" where
  "Remount d = andThen (executeTransportCommand d ''remount:'') (\<lambda>_. ret True)"

definition Root :: "device \<Rightarrow> (world, bool) prog" where
  "Root d =
     andThen (executeTransportCommandWithResponse d ''root:'') (\<lambda>data.
       let out = string_of data in
       if Contains out ''restarting adbd as root'' then ret True
       else fail (Errorf (TrimSpace out)))"

definition WaitForDevice :: "device \<Rightarrow> go_error option \<Rightarrow> (world, bool) prog" where
  "WaitForDevice d late =
     andThen (getHostPrefix (descriptor d)) (\<lambda>p.
     andThen (SendHostCommand (dev_client d) late (p @ '':wait-for-device'')) (\<lambda>payload.
     ret (length payload = 0)))"

text \<open>
  \<open>timer\<close> is \<^verbatim>\<open>None\<close> when the goroutine that waits for the device sends its error first. When
  the timer wins, the goroutine is not stopped: \<open>timer = Some at\<close>, where \<open>at\<close> takes the state to
  the one the goroutine had reached by then, and what it does later happens after the return.
\<close>

definition WaitForDeviceWithTimeout ::
  "device \<Rightarrow> go_error option \<Rightarrow> (world \<Rightarrow> world) option \<Rightarrow> (world, unit) prog" where
  "WaitForDeviceWithTimeout d late timer w =
     (case timer of
        None \<Rightarrow> attempt (WaitForDevice d late) (\<lambda>r. case r of Inl err \<Rightarrow> fail err | Inr _ \<Rightarrow> ret ()) w
      | Some at \<Rightarrow> (Err (Errorf ''wait for device timed out''), at w))"

definition WaitBootComplete :: "device \<Rightarrow> (world, bool) prog" where
  "WaitBootComplete d =
     andThen (executeTransportCommandWithResponse d ''shell:getprop sys.boot_completed'') (\<lambda>data.
     ret (Contains (string_of data) ''1''))"

definition TrackJdwp :: "device \<Rightarrow> (world, nat) prog" where
  "TrackJdwp d = openTransportConnection d ''track-jdwp''"

section \<open>Features\<close>

fun online_serial :: "device_info list \<Rightarrow> string option" where
  "online_serial [] = None"
| "online_serial (i # is) = (if State i = ''device'' then Some (Serial i) else online_serial is)"

definition firstDeviceSerial :: "device \<Rightarrow> go_error option \<Rightarrow> (world, string) prog" where
  "firstDeviceSerial d late =
     andThen (ListDevices (dev_client d) late) (\<lambda>devices.
       case online_serial devices of
         Some s \<Rightarrow> ret s
       | None \<Rightarrow> (case devices of
           i # _ \<Rightarrow> ret (Serial i)
         | [] \<Rightarrow> fail (Errorf ''adb: no devices found'')))"

text \<open>
  The device is looked up under its own timeout (\<open>late\<close>), the features are asked for under the
  caller's context.
\<close>

definition FeaturesContext :: "device \<Rightarrow> go_error option \<Rightarrow> go_context \<Rightarrow> (world, string list) prog" where
  "FeaturesContext d late ctx =
     andThen (getHostPrefix (descriptor d)) (\<lambda>p0.
     andThen (if descriptorType (descriptor d) = DeviceAny
              then andThen (firstDeviceSerial d late) (\<lambda>serial. ret (''host-serial:'' @ serial))
              else ret p0) (\<lambda>p.
     andThen (SendHostCommandContext (dev_client d) ctx (p @ '':features'')) (\<lambda>payload.
       let raw = TrimSpace (string_of payload) in
       if raw = '''' then ret [] else ret (Split (CHR '','') raw))))"

definition Features :: "device \<Rightarrow> go_error option \<Rightarrow> (world, string list) prog" where
  "Features d late = FeaturesContext d late background"

definition HasFeature :: "device \<Rightarrow> go_error option \<Rightarrow> string \<Rightarrow> (world, bool) prog" where
  "HasFeature d late feature =
     andThen (Features d late) (\<lambda>features. ret (feature \<in> set features))"

section \<open>Port forwarding\<close>

text \<open>
  The two status words that answer a forwarding request: the first acknowledges the request,
  the second its execution.
\<close>

definition two_okays :: "(conn, bool) prog" where
  "two_okays =
     andThen ReadStatus (\<lambda>status.
       if status = StatusOkay
       then andThen ReadStatus (\<lambda>status.
              if status = StatusOkay then ret True
              else fail (Errorf (''unexpected status: '' @ status)))
       else fail (Errorf (''unexpected status: '' @ status)))"

definition write_frame :: "string \<Rightarrow> (conn, nat) prog" where
  "write_frame cmd = conn_Write (frame cmd)"

definition Forward :: "device \<Rightarrow> string \<Rightarrow> string \<Rightarrow> (world, bool) prog" where
  "Forward d local remote =
     andThen (Connection (dev_client d)) (\<lambda>conn.
     deferring (close_conn conn)
       (andThen (getHostPrefix (descriptor d)) (\<lambda>p.
        on_conn conn (andThen (write_frame (p @ '':forward:'' @ local @ '';'' @ remote)) (\<lambda>_. two_okays)))))"

definition ForwardRemove :: "device \<Rightarrow> string \<Rightarrow> (world, bool) prog" where
  "ForwardRemove d local =
     andThen (Connection (dev_client d)) (\<lambda>conn.
     deferring (close_conn conn)
       (andThen (getHostPrefix (descriptor d)) (\<lambda>p.
        on_conn conn (andThen (write_frame (p @ '':killforward:'' @ local)) (\<lambda>_. two_okays)))))"

definition Reverse :: "device \<Rightarrow> string \<Rightarrow> string \<Rightarrow> (world, bool) prog" where
  "Reverse d remote local =
     andThen (Transport d) (\<lambda>transport.
     deferring (close_conn transport)
       (on_conn transport
         (andThen (SendCommand (''reverse:forward:'' @ remote @ '';'' @ local)) (\<lambda>status.
            if status \<noteq> StatusOkay then fail (Errorf (''unexpected status: '' @ status))
            else andThen ReadStatus (\<lambda>status.
              if status \<noteq> StatusOkay then fail (Errorf (''unexpected status: '' @ status))
              else ret True)))))"

definition ReverseRemove :: "device \<Rightarrow> string \<Rightarrow> (world, bool) prog" where
  "ReverseRemove d remote =
     andThen (Transport d) (\<lambda>transport.
     deferring (close_conn transport)
       (on_conn transport
         (andThen (write_frame (''reverse:killforward:'' @ remote)) (\<lambda>_. two_okays))))"

fun reverse_lines :: "string list \<Rightarrow> reverse_entry list" where
  "reverse_lines [] = []"
| "reverse_lines (line # lines) =
     (case Fields line of
        r # l # _ \<Rightarrow> \<lparr>rev_Remote = r, rev_Local = l\<rparr> # reverse_lines lines
      | _ \<Rightarrow> reverse_lines lines)"

definition ListReverses :: "device \<Rightarrow> (world, reverse_entry list) prog" where
  "ListReverses d =
     andThen (Transport d) (\<lambda>transport.
     deferring (close_conn transport)
       (on_conn transport
         (attempt (SendCommand ''reverse:list-forward'') (\<lambda>r. case r of
            Inl err \<Rightarrow> fail (Wrapf ''listReverses failed'' err)
          | Inr status \<Rightarrow>
              if status \<noteq> StatusOkay then fail (Errorf (''unexpected status: '' @ status))
              else andThen readLengthPrefixed (\<lambda>payload.
                let out = TrimSpace (string_of payload) in
                if out = '''' then ret []
                else ret (reverse_lines (Split (CHR 0x0A) out)))))))"

section \<open>Network services of the device\<close>

definition TcpIp :: "device \<Rightarrow> int \<Rightarrow> (world, bool) prog" where
  "TcpIp d port0 =
     (let port = (if port0 = 0 then 5555 else port0) in
      andThen (executeTransportCommandWithResponse d (''tcpip:'' @ dec_int port)) (\<lambda>data.
      ret (Contains (string_of data) ''starting in'')))"

definition Usb :: "device \<Rightarrow> (world, bool) prog" where
  "Usb d = andThen (executeTransportCommand d ''usb:'') (\<lambda>_. ret True)"

definition OpenLocal :: "device \<Rightarrow> string \<Rightarrow> (world, nat) prog" where
  "OpenLocal d path = openTransportConnection d (''local:'' @ path)"

definition OpenLog :: "device \<Rightarrow> string \<Rightarrow> (world, nat) prog" where
  "OpenLog d name = openTransportConnection d (''log:'' @ name)"

definition OpenSocketContext :: "device \<Rightarrow> string \<Rightarrow> (world, nat) prog" where
  "OpenSocketContext d addr =
     andThen (Transport d) (\<lambda>transport.
     attempt (on_conn transport (ExecuteSimpleCommand addr)) (\<lambda>r. case r of
       Inl err \<Rightarrow> andThen (close_conn transport) (\<lambda>_. fail err)
     | Inr _ \<Rightarrow> ret transport))"

definition OpenSocket :: "device \<Rightarrow> string \<Rightarrow> (world, nat) prog" where
  "OpenSocket d addr = OpenSocketContext d addr"

end
