(* ===== verification/Packet.thy ===== *)
theory Packet
  imports Conn GoLib
begin

text \<open>
  The packet layer of the bridge: \<^verbatim>\<open>tcpusb/packet.go\<close>, \<^verbatim>\<open>tcpusb/packet_reader.go\<close> and
  \<^verbatim>\<open>tcpusb/rolling_counter.go\<close>. A packet's data is the empty list where the code has a nil
  slice: the reader leaves \<^verbatim>\<open>Data\<close> nil exactly when the length is zero.
\<close>

section \<open>Packets\<close>

definition A_SYNC :: u32 where "A_SYNC = 0x434e5953"
definition A_CNXN :: u32 where "A_CNXN = 0x4e584e43"
definition A_OPEN :: u32 where "A_OPEN = 0x4e45504f"
definition A_OKAY :: u32 where "A_OKAY = 0x59414b4f"
definition A_CLSE :: u32 where "A_CLSE = 0x45534c43"
definition A_WRTE :: u32 where "A_WRTE = 0x45545257"
definition A_AUTH :: u32 where "A_AUTH = 0x48545541"

lemmas command_defs = A_SYNC_def A_CNXN_def A_OPEN_def A_OKAY_def A_CLSE_def A_WRTE_def A_AUTH_def

record packet =
  Command :: u32
  Arg0 :: u32
  Arg1 :: u32
  Length :: u32
  Check :: u32
  pMagic :: u32
  Data :: bytes

definition Checksum :: "bytes \<Rightarrow> u32" where
  "Checksum data = foldl (\<lambda>sum b. sum + ucast b) 0 data"

definition Magic :: "u32 \<Rightarrow> u32" where
  "Magic command = command XOR 0xffffffff"

text \<open>
  The buffer has \<open>24 + length\<close> bytes, a 32-bit sum. For data of 4 GiB and more the sum and
  the length field wrap; the code then truncates the data, or panics when fewer than 24 bytes
  are left. Every caller passes at most 65535 bytes or a device name.
\<close>

definition Assemble :: "u32 \<Rightarrow> u32 \<Rightarrow> u32 \<Rightarrow> bytes \<Rightarrow> bytes" where
  "Assemble command arg0 arg1 data =
     (let len = of_nat (length data) :: u32; check = Checksum data in
      take (unat (24 + len))
        (put32 command @ put32 arg0 @ put32 arg1 @ put32 len @ put32 check @
         put32 (Magic command) @ data))"

definition Swap32 :: "u32 \<Rightarrow> u32" where
  "Swap32 n = (drop_bit 24 n AND 0xff) OR (drop_bit 8 n AND 0xff00) OR
     (push_bit 8 n AND 0xff0000) OR push_bit 24 n"

definition VerifyChecksum :: "packet \<Rightarrow> bool" where
  "VerifyChecksum p \<longleftrightarrow> Check p = Checksum (Data p)"

definition VerifyMagic :: "packet \<Rightarrow> bool" where
  "VerifyMagic p \<longleftrightarrow> pMagic p = Magic (Command p)"

definition hex8 :: "nat \<Rightarrow> string" where
  "hex8 n = replicate (8 - length (hex n)) (CHR ''0'') @ hex n"

definition packet_String :: "packet \<Rightarrow> string" where
  "packet_String p =
     (let cmdType =
        (if Command p = A_SYNC then ''SYNC''
         else if Command p = A_CNXN then ''CNXN''
         else if Command p = A_OPEN then ''OPEN''
         else if Command p = A_OKAY then ''OKAY''
         else if Command p = A_CLSE then ''CLSE''
         else if Command p = A_WRTE then ''WRTE''
         else if Command p = A_AUTH then ''AUTH''
         else ''UNKNOWN(0x'' @ hex8 (unat (Command p)) @ '')'')
      in cmdType @ '' arg0='' @ dec (unat (Arg0 p)) @ '' arg1='' @ dec (unat (Arg1 p)) @
         '' length='' @ dec (unat (Length p)))"

section \<open>The packet reader\<close>

text \<open>
  The reader's stream is the client connection, which the socket also writes to; a reader
  program therefore runs on the connection and the reader's own fields.
\<close>

record packet_reader =
  buffer :: bytes
  inBody :: bool
  rd_packet :: packet

definition no_packet :: packet where
  "no_packet = \<lparr>Command = 0, Arg0 = 0, Arg1 = 0, Length = 0, Check = 0, pMagic = 0, Data = []\<rparr>"

definition NewPacketReader :: packet_reader where
  "NewPacketReader = \<lparr>buffer = [], inBody = False, rd_packet = no_packet\<rparr>"

definition appendChunk :: "(conn \<times> packet_reader, unit) prog" where
  "appendChunk =
     andThen (on_first (conn_Read 4096)) (\<lambda>chunk.
     on_second (\<lambda>pr. (Ok (), pr\<lparr>buffer := buffer pr @ chunk\<rparr>)))"

definition parse_header :: "bytes \<Rightarrow> packet" where
  "parse_header header =
     \<lparr>Command = get32 header, Arg0 = get32 (drop 4 header), Arg1 = get32 (drop 8 header),
      Length = get32 (drop 12 header), Check = get32 (drop 16 header),
      pMagic = get32 (drop 20 header), Data = []\<rparr>"

text \<open>One round of the loop of \<^verbatim>\<open>ReadPacket\<close>; \<open>None\<close> goes round again.\<close>

definition read_packet_step :: "(conn \<times> packet_reader, packet option) prog" where
  "read_packet_step s =
     (case s of (c, pr) \<Rightarrow>
      if inBody pr
      then let n = unat (Length (rd_packet pr)) in
           if length (buffer pr) < n
           then andThen appendChunk (\<lambda>_. ret None) s
           else let p = (rd_packet pr)\<lparr>Data := take n (buffer pr)\<rparr>;
                    pr = pr\<lparr>rd_packet := p, buffer := drop n (buffer pr)\<rparr> in
                if \<not> VerifyChecksum p then (Err (Errorf ''checksum mismatch''), (c, pr))
                else (Ok (Some p), (c, pr\<lparr>inBody := False\<rparr>))
      else if length (buffer pr) < 24
           then andThen appendChunk (\<lambda>_. ret None) s
           else let p = parse_header (take 24 (buffer pr));
                    pr = pr\<lparr>rd_packet := p, buffer := drop 24 (buffer pr)\<rparr> in
                if \<not> VerifyMagic p then (Err (Errorf ''magic value mismatch''), (c, pr))
                else if Length p = 0 then (Ok (Some p), (c, pr))
                else (Ok None, (c, pr\<lparr>inBody := True\<rparr>)))"

definition reader_size :: "conn \<times> packet_reader \<Rightarrow> nat" where
  "reader_size s = 2 * in_size (fst s) + (if inBody (snd s) then 0 else 1)"

lemma appendChunk_cases:
  "appendChunk (c, pr) = (case conn_Read 4096 c of
      (Ok d, c') \<Rightarrow> (Ok (), (c', pr\<lparr>buffer := buffer pr @ d\<rparr>))
    | (Err e, c') \<Rightarrow> (Err e, (c', pr))
    | (Panic p, c') \<Rightarrow> (Panic p, (c', pr)))"
  by (auto simp: appendChunk_def on_first_def on_second_def andThen_def split: prod.split result.split)

lemma read_packet_step_decreases:
  "read_packet_step s = (Ok None, s') \<Longrightarrow> reader_size s' < reader_size s"
proof -
  assume st: "read_packet_step s = (Ok None, s')"
  obtain c pr where s: "s = (c, pr)" by (cases s)
  have ap: "reader_size s' < reader_size s"
    if "andThen appendChunk (\<lambda>_. ret (None :: packet option)) s = (Ok None, s')"
  proof -
    from that s obtain d c' where "conn_Read 4096 c = (Ok d, c')"
        and "s' = (c', pr\<lparr>buffer := buffer pr @ d\<rparr>)"
      by (auto simp: andThen_def appendChunk_cases ret_def split: prod.splits result.splits)
    with conn_Read_decreases s show ?thesis by (fastforce simp: reader_size_def)
  qed
  from st s have "andThen appendChunk (\<lambda>_. ret (None :: packet option)) s = (Ok None, s') \<or>
      (\<not> inBody pr \<and> inBody (snd s') \<and> fst s' = c)"
    by (auto simp: read_packet_step_def Let_def split: if_splits)
  then show ?thesis using ap s by (auto simp: reader_size_def)
qed

function ReadPacket :: "(conn \<times> packet_reader, packet) prog" where
  "ReadPacket s = (case read_packet_step s of
       (Ok None, s') \<Rightarrow> ReadPacket s'
     | (Ok (Some p), s') \<Rightarrow> (Ok p, s')
     | (Err e, s') \<Rightarrow> (Err e, s')
     | (Panic p, s') \<Rightarrow> (Panic p, s'))"
  by pat_completeness auto
termination
  by (relation "measure reader_size") (auto dest!: sym read_packet_step_decreases)

declare ReadPacket.simps [simp del]

section \<open>Rolling counters\<close>

record rolling_counter =
  rc_max :: u32
  rc_min :: u32
  now :: u32

definition NewRollingCounter :: "u32 \<Rightarrow> rolling_counter" where
  "NewRollingCounter mx = \<lparr>rc_max = mx, rc_min = 1, now = 1\<rparr>"

definition rc_Next :: "rolling_counter \<Rightarrow> u32 \<times> rolling_counter" where
  "rc_Next rc =
     (let rc' = (if rc_max rc \<le> now rc then rc\<lparr>now := rc_min rc\<rparr> else rc\<lparr>now := now rc + 1\<rparr>)
      in (now rc', rc'))"

section \<open>What the reader computes\<close>

text \<open>
  The reference: one packet taken off the front of the byte stream, with no buffer and no
  segments. \<open>e\<close> is the error with which the stream ends.
\<close>

definition body_spec :: "go_error \<Rightarrow> packet \<Rightarrow> bytes \<Rightarrow> packet result \<times> bytes" where
  "body_spec e p s =
     (let n = unat (Length p) in
      if length s < n then (Err e, [])
      else let q = p\<lparr>Data := take n s\<rparr> in
           (if VerifyChecksum q then Ok q else Err (Errorf ''checksum mismatch''), drop n s))"

definition packet_spec :: "go_error \<Rightarrow> bytes \<Rightarrow> packet result \<times> bytes" where
  "packet_spec e s =
     (if length s < 24 then (Err e, [])
      else let p = parse_header (take 24 s) in
           if \<not> VerifyMagic p then (Err (Errorf ''magic value mismatch''), drop 24 s)
           else if Length p = 0 then (Ok p, drop 24 s)
           else body_spec e p (drop 24 s))"

definition unread :: "conn \<times> packet_reader \<Rightarrow> bytes" where
  "unread s = buffer (snd s) @ pending (fst s)"

definition reader_spec :: "conn \<times> packet_reader \<Rightarrow> packet result \<times> bytes" where
  "reader_spec s =
     (if inBody (snd s) then body_spec (in_end (fst s)) (rd_packet (snd s)) (unread s)
      else packet_spec (in_end (fst s)) (unread s))"

definition between_packets :: "conn \<times> packet_reader \<Rightarrow> bool" where
  "between_packets s \<longleftrightarrow> \<not> isclosed (fst s) \<and> \<not> inBody (snd s)"

lemma conn_Read_open:
  assumes "\<not> isclosed c" and "0 < n"
  shows "(\<exists>d c'. conn_Read n c = (Ok d, c') \<and> pending c = d @ pending c' \<and>
        in_end c' = in_end c \<and> \<not> isclosed c' \<and> outgoing c' = outgoing c \<and> room c' = room c) \<or>
     (conn_Read n c = (Err (in_end c), c) \<and> pending c = [])"
  using assms by (cases "incoming c") (auto simp: conn_Read_def pending_def)

lemma append_step_spec:
  assumes "\<not> isclosed c"
  shows "(\<exists>c' pr'. andThen appendChunk (\<lambda>_. ret (None :: packet option)) (c, pr) = (Ok None, (c', pr')) \<and>
        unread (c', pr') = unread (c, pr) \<and> inBody pr' = inBody pr \<and>
        rd_packet pr' = rd_packet pr \<and> in_end c' = in_end c \<and> \<not> isclosed c' \<and>
        outgoing c' = outgoing c \<and> room c' = room c) \<or>
     (andThen appendChunk (\<lambda>_. ret (None :: packet option)) (c, pr) = (Err (in_end c), (c, pr)) \<and>
        unread (c, pr) = buffer pr)"
  using conn_Read_open [OF assms, of 4096]
  by (auto simp: andThen_def appendChunk_cases unread_def ret_def)

definition same_conn :: "conn \<Rightarrow> conn \<Rightarrow> bool" where
  "same_conn c c' \<longleftrightarrow> in_end c' = in_end c \<and> isclosed c' = isclosed c \<and>
     outgoing c' = outgoing c \<and> room c' = room c"

lemma same_conn_refl [simp]: "same_conn c c"
  by (simp add: same_conn_def)

lemma same_conn_trans: "same_conn a b \<Longrightarrow> same_conn b c \<Longrightarrow> same_conn a c"
  by (simp add: same_conn_def)

text \<open>A round of the loop either leaves the specified outcome unchanged or is that outcome.\<close>

definition round_ok :: "conn \<times> packet_reader \<Rightarrow> bool" where
  "round_ok s \<longleftrightarrow> (case read_packet_step s of
       (Ok None, s') \<Rightarrow> reader_spec s' = reader_spec s \<and> same_conn (fst s) (fst s')
     | (Ok (Some p), s') \<Rightarrow> reader_spec s = (Ok p, unread s') \<and> \<not> inBody (snd s') \<and> same_conn (fst s) (fst s')
     | (Err e, s') \<Rightarrow> fst (reader_spec s) = Err e
     | (Panic q, s') \<Rightarrow> False)"

lemma round_short:
  assumes "\<not> isclosed c" and "length (buffer pr) < (if inBody pr then unat (Length (rd_packet pr)) else 24)"
  shows "round_ok (c, pr)"
proof -
  let ?s = "(c, pr)"
  have step: "read_packet_step ?s = andThen appendChunk (\<lambda>_. ret None) ?s"
    using assms(2) by (auto simp: read_packet_step_def Let_def split: if_splits)
  from assms(1) append_step_spec [of c pr] consider
    c' pr' where "andThen appendChunk (\<lambda>_. ret (None :: packet option)) ?s = (Ok None, (c', pr'))"
      "unread (c', pr') = unread ?s" "inBody pr' = inBody pr" "rd_packet pr' = rd_packet pr"
      "same_conn c c'"
    | "andThen appendChunk (\<lambda>_. ret (None :: packet option)) ?s = (Err (in_end c), ?s)" "unread ?s = buffer pr"
    by (auto simp: same_conn_def)
  then show ?thesis
  proof cases
    case 1
    then have "reader_spec (c', pr') = reader_spec ?s" by (simp add: reader_spec_def same_conn_def)
    with 1 step show ?thesis by (simp add: round_ok_def)
  next
    case 2
    then have "fst (reader_spec ?s) = Err (in_end c)"
      using assms(2) by (cases "inBody pr") (auto simp: reader_spec_def body_spec_def packet_spec_def Let_def)
    with 2 step show ?thesis by (simp add: round_ok_def)
  qed
qed

lemma round_body:
  assumes "inBody pr" and "unat (Length (rd_packet pr)) \<le> length (buffer pr)"
  shows "round_ok (c, pr)"
proof -
  let ?n = "unat (Length (rd_packet pr))"
  let ?q = "(rd_packet pr)\<lparr>Data := take ?n (buffer pr)\<rparr>"
  have "reader_spec (c, pr) = (if VerifyChecksum ?q then Ok ?q else Err (Errorf ''checksum mismatch''),
      drop ?n (unread (c, pr)))"
    using assms by (simp add: reader_spec_def body_spec_def unread_def Let_def)
  then show ?thesis
    using assms by (cases "VerifyChecksum ?q") (auto simp: round_ok_def read_packet_step_def Let_def unread_def)
qed

lemma round_header:
  assumes "\<not> inBody pr" and "24 \<le> length (buffer pr)"
  shows "round_ok (c, pr)"
proof -
  let ?p = "parse_header (take 24 (buffer pr))"
  have "reader_spec (c, pr) =
      (if \<not> VerifyMagic ?p then (Err (Errorf ''magic value mismatch''), drop 24 (unread (c, pr)))
       else if Length ?p = 0 then (Ok ?p, drop 24 (unread (c, pr)))
       else body_spec (in_end c) ?p (drop 24 (unread (c, pr))))"
    using assms by (simp add: reader_spec_def packet_spec_def unread_def Let_def)
  then show ?thesis
    using assms by (simp add: round_ok_def read_packet_step_def Let_def unread_def reader_spec_def)
qed

lemma read_packet_step_cases:
  assumes "\<not> isclosed (fst s)"
  obtains s' where "read_packet_step s = (Ok None, s')" and "reader_spec s' = reader_spec s"
      and "same_conn (fst s) (fst s')"
  | p s' where "read_packet_step s = (Ok (Some p), s')" and "reader_spec s = (Ok p, unread s')"
      and "\<not> inBody (snd s')" and "same_conn (fst s) (fst s')"
  | e s' where "read_packet_step s = (Err e, s')" and "fst (reader_spec s) = Err e"
proof -
  obtain c pr where "s = (c, pr)" by (cases s)
  moreover have "round_ok (c, pr)" if "\<not> isclosed c"
    using that round_short round_body round_header by (cases "inBody pr") (force simp: not_less)+
  ultimately have "round_ok s" using assms by simp
  then show thesis
    using that by (auto simp: round_ok_def split: prod.splits result.splits option.splits)
qed

lemma ReadPacket_reader_spec:
  "\<not> isclosed (fst s) \<Longrightarrow>
   fst (ReadPacket s) = fst (reader_spec s) \<and>
   (\<forall>p. fst (reader_spec s) = Ok p \<longrightarrow> unread (snd (ReadPacket s)) = snd (reader_spec s) \<and>
      between_packets (snd (ReadPacket s)) \<and> same_conn (fst s) (fst (snd (ReadPacket s))))"
proof (induction s rule: ReadPacket.induct)
  case (1 s)
  show ?case
  proof (cases rule: read_packet_step_cases [OF "1.prems", case_names again packet error])
    case (again s')
    then have "ReadPacket s = ReadPacket s'" by (simp add: ReadPacket.simps [of s])
    moreover have "\<not> isclosed (fst s')" using again "1.prems" by (simp add: same_conn_def)
    ultimately show ?thesis
      using "1.IH" [OF again(1) [symmetric]] again same_conn_trans by auto
  next
    case (packet p s')
    then show ?thesis using "1.prems"
      by (simp add: ReadPacket.simps [of s] between_packets_def same_conn_def)
  next
    case (error e s')
    then show ?thesis by (simp add: ReadPacket.simps [of s])
  qed
qed


section \<open>Assembled packets\<close>

definition packet_of :: "u32 \<Rightarrow> u32 \<Rightarrow> u32 \<Rightarrow> bytes \<Rightarrow> packet" where
  "packet_of command arg0 arg1 d =
     \<lparr>Command = command, Arg0 = arg0, Arg1 = arg1, Length = of_nat (length d), Check = Checksum d,
      pMagic = Magic command, Data = d\<rparr>"

definition sendable :: "packet \<Rightarrow> bool" where
  "sendable p \<longleftrightarrow> p = packet_of (Command p) (Arg0 p) (Arg1 p) (Data p) \<and>
     length (Data p) < 2 ^ 32 - 24"

definition encode_packet :: "packet \<Rightarrow> bytes" where
  "encode_packet p = Assemble (Command p) (Arg0 p) (Arg1 p) (Data p)"

lemma packet_of_fields [simp]:
  "Command (packet_of c a b d) = c" "Arg0 (packet_of c a b d) = a" "Arg1 (packet_of c a b d) = b"
  "Length (packet_of c a b d) = of_nat (length d)" "Data (packet_of c a b d) = d"
  "Check (packet_of c a b d) = Checksum d" "pMagic (packet_of c a b d) = Magic c"
  by (simp_all add: packet_of_def)

lemma sendable_packet_of [simp]: "sendable (packet_of c a b d) \<longleftrightarrow> length d < 2 ^ 32 - 24"
  by (simp add: sendable_def)

lemma unat_of_length: "n < 2 ^ 32 \<Longrightarrow> unat (of_nat n :: u32) = n"
  by (simp add: unat_of_nat take_bit_nat_eq_self)

lemma Assemble_layout:
  assumes "length d < 2 ^ 32 - 24"
  shows "Assemble c a b d = put32 c @ put32 a @ put32 b @ put32 (of_nat (length d)) @
     put32 (Checksum d) @ put32 (Magic c) @ d"
proof -
  have "unat (24 + of_nat (length d) :: u32) = 24 + length d"
    using unat_of_length [of "24 + length d"] assms by simp
  then show ?thesis by (simp add: Assemble_def Let_def)
qed

lemma length_Assemble: "length d < 2 ^ 32 - 24 \<Longrightarrow> length (Assemble c a b d) = 24 + length d"
  by (simp add: Assemble_layout)

lemma put32_take: "4 \<le> n \<Longrightarrow> take n (put32 w @ s) = put32 w @ take (n - 4) s"
  by simp

lemma put32_skips:
  "drop 4 (put32 w @ s) = s" "drop 8 (put32 w @ s) = drop 4 s"
  "drop 12 (put32 w @ s) = drop 8 s" "drop 16 (put32 w @ s) = drop 12 s"
  "drop 20 (put32 w @ s) = drop 16 s"
  by simp_all

lemma parse_header_put32:
  "parse_header (take 24 (put32 c @ put32 a @ put32 b @ put32 l @ put32 k @ put32 m @ d)) =
   \<lparr>Command = c, Arg0 = a, Arg1 = b, Length = l, Check = k, pMagic = m, Data = []\<rparr>"
proof -
  have "take 24 (put32 c @ put32 a @ put32 b @ put32 l @ put32 k @ put32 m @ d) =
      put32 c @ put32 a @ put32 b @ put32 l @ put32 k @ put32 m"
    by (subst put32_take, simp)+ simp
  then show ?thesis
    by (simp only: parse_header_def put32_skips get32_put32 get32_put32_exact)
qed

lemma packet_spec_encode:
  assumes "sendable p"
  shows "packet_spec e (encode_packet p @ rest) = (Ok p, rest)"
proof -
  let ?d = "Data p"
  have fields: "Length p = of_nat (length ?d)" "Check p = Checksum ?d" "pMagic p = Magic (Command p)"
      and len: "length ?d < 2 ^ 32 - 24"
    using assms packet_of_fields [of "Command p" "Arg0 p" "Arg1 p" ?d] by (simp_all add: sendable_def)
  have enc: "encode_packet p @ rest = put32 (Command p) @ put32 (Arg0 p) @ put32 (Arg1 p) @
      put32 (of_nat (length ?d)) @ put32 (Checksum ?d) @ put32 (Magic (Command p)) @ ?d @ rest"
    by (simp add: encode_packet_def Assemble_layout [OF len])
  have un: "unat (of_nat (length ?d) :: u32) = length ?d"
    using len by (intro unat_of_length) simp
  then have zero: "(of_nat (length ?d) :: u32) = 0 \<longleftrightarrow> ?d = []"
    by (metis (no_types) unsigned_eq_0_iff length_0_conv)
  show ?thesis unfolding packet_spec_def enc parse_header_put32 Let_def
    by (auto simp: VerifyMagic_def zero body_spec_def un VerifyChecksum_def Let_def fields
        intro!: packet.equality)
qed

definition fresh_reader :: "bytes \<Rightarrow> conn \<times> packet_reader" where
  "fresh_reader b = (conn_fresh b, NewPacketReader)"

lemma ReadPacket_encode:
  assumes "sendable p" and "between_packets s" and "unread s = encode_packet p @ rest"
  shows "\<exists>s'. ReadPacket s = (Ok p, s') \<and> between_packets s' \<and> unread s' = rest"
proof -
  have "reader_spec s = (Ok p, rest)"
    using assms packet_spec_encode by (simp add: reader_spec_def between_packets_def)
  then show ?thesis
    using ReadPacket_reader_spec [of s] assms(2)
    by (cases "ReadPacket s") (auto simp: between_packets_def)
qed


interpretation packets: frame_format encode_packet ReadPacket sendable unread between_packets fresh_reader
proof
  show "sendable x \<Longrightarrow> encode_packet x \<noteq> []" for x
    by (simp add: encode_packet_def Assemble_layout sendable_def put32_def)
  show "sendable x \<Longrightarrow> between_packets s \<Longrightarrow> unread s = encode_packet x @ rest \<Longrightarrow>
      \<exists>s'. ReadPacket s = (Ok x, s') \<and> between_packets s' \<and> unread s' = rest" for x s rest
    by (rule ReadPacket_encode)
qed (simp_all add: fresh_reader_def between_packets_def unread_def NewPacketReader_def
    new_conn_def pending_def)

text \<open>The exact outcome when a segment is one packet.\<close>

lemma ReadPacket_segment:
  assumes "sendable p" and "length (Data p) \<le> 4072" and "\<not> isclosed c"
    and "incoming c = encode_packet p # segs" and "buffer r = []" and "\<not> inBody r"
  shows "ReadPacket (c, r) =
    (Ok p, (c\<lparr>incoming := segs\<rparr>, \<lparr>buffer = [], inBody = False, rd_packet = p\<rparr>))"
proof -
  let ?d = "Data p" and ?c = "c\<lparr>incoming := segs\<rparr>"
  let ?h = "\<lparr>Command = Command p, Arg0 = Arg0 p, Arg1 = Arg1 p, Length = of_nat (length ?d),
    Check = Checksum ?d, pMagic = Magic (Command p), Data = []\<rparr>"
  have fields: "Length p = of_nat (length ?d)" "Check p = Checksum ?d" "pMagic p = Magic (Command p)"
      and len: "length ?d < 2 ^ 32 - 24"
    using assms(1) packet_of_fields [of "Command p" "Arg0 p" "Arg1 p" ?d] by (simp_all add: sendable_def)
  have un: "unat (of_nat (length ?d) :: u32) = length ?d" using len by (intro unat_of_length) simp
  then have zero: "(of_nat (length ?d) :: u32) = 0 \<longleftrightarrow> ?d = []"
    by (metis (no_types) unsigned_eq_0_iff length_0_conv)
  have enc: "encode_packet p = put32 (Command p) @ put32 (Arg0 p) @ put32 (Arg1 p) @
      put32 (of_nat (length ?d)) @ put32 (Checksum ?d) @ put32 (Magic (Command p)) @ ?d"
    by (simp add: encode_packet_def Assemble_layout [OF len])
  have le: "length (encode_packet p) = 24 + length ?d" by (simp add: enc)
  have hd: "parse_header (take 24 (encode_packet p)) = ?h" unfolding enc by (rule parse_header_put32)
  have tl: "drop 24 (encode_packet p) = ?d" by (simp add: enc)
  have rd: "conn_Read 4096 c = (Ok (encode_packet p), ?c)"
    using assms(2-4) le by (simp add: conn_Read_def)
  have r0: "r\<lparr>buffer := encode_packet p\<rparr> = \<lparr>buffer = encode_packet p, inBody = False, rd_packet = rd_packet r\<rparr>"
    using assms(6) by (cases r) simp
  have s1: "read_packet_step (c, r) =
      (Ok None, (?c, \<lparr>buffer = encode_packet p, inBody = False, rd_packet = rd_packet r\<rparr>))"
    using assms(5,6) rd r0 by (simp add: read_packet_step_def andThen_def appendChunk_cases ret_def)
  have eq: "?h\<lparr>Data := ?d\<rparr> = p" by (rule packet.equality) (simp_all add: fields)
  have s2: "read_packet_step (?c, \<lparr>buffer = encode_packet p, inBody = False, rd_packet = q\<rparr>) =
      (if ?d = [] then (Ok (Some p), (?c, \<lparr>buffer = [], inBody = False, rd_packet = p\<rparr>))
       else (Ok None, (?c, \<lparr>buffer = ?d, inBody = True, rd_packet = ?h\<rparr>)))" for q
    by (auto simp: read_packet_step_def Let_def le hd tl VerifyMagic_def zero fields
        intro!: packet.equality)
  have s3: "read_packet_step (?c, \<lparr>buffer = ?d, inBody = True, rd_packet = ?h\<rparr>) =
      (Ok (Some p), (?c, \<lparr>buffer = [], inBody = False, rd_packet = p\<rparr>))"
    using eq by (simp add: read_packet_step_def Let_def un VerifyChecksum_def fields)
  show ?thesis
    by (subst ReadPacket.simps, simp add: s1, subst ReadPacket.simps, simp add: s2)
      (subst ReadPacket.simps, simp add: s3)
qed

section \<open>Checksums\<close>

lemma foldl_add_start:
  "foldl (\<lambda>sum (b :: byte). sum + (ucast b :: u32)) a bs = a + foldl (\<lambda>sum b. sum + ucast b) 0 bs"
proof (induction bs arbitrary: a)
  case (Cons b bs)
  show ?case using Cons [of "a + ucast b"] Cons [of "ucast b"] by simp
qed simp

lemma Checksum_simps [simp]:
  "Checksum [] = 0" "Checksum (b # bs) = ucast b + Checksum bs"
  by (simp add: Checksum_def, simp add: Checksum_def, subst foldl_add_start, simp)

lemma Checksum_append: "Checksum (xs @ ys) = Checksum xs + Checksum ys"
  by (induction xs) simp_all

lemma ucast_byte_inject: "(ucast (b :: byte) :: u32) = ucast b' \<longleftrightarrow> b = b'"
  by transfer simp

lemma Checksum_update:
  assumes "i < length d" and "d ! i \<noteq> b"
  shows "Checksum (d[i := b]) \<noteq> Checksum d"
proof -
  have "Checksum d = Checksum (take i d @ d ! i # drop (Suc i) d)"
    using assms(1) by (simp add: id_take_nth_drop [symmetric])
  then show ?thesis
    using assms by (simp add: upd_conv_take_nth_drop Checksum_append ucast_byte_inject)
qed

section \<open>Counters\<close>

definition counter_ok :: "rolling_counter \<Rightarrow> bool" where
  "counter_ok rc \<longleftrightarrow> rc_min rc = 1 \<and> 1 \<le> rc_max rc \<and> 1 \<le> now rc \<and> now rc \<le> rc_max rc"

fun rc_values :: "nat \<Rightarrow> rolling_counter \<Rightarrow> u32 list" where
  "rc_values 0 rc = []"
| "rc_values (Suc n) rc = (case rc_Next rc of (v, rc') \<Rightarrow> v # rc_values n rc')"

lemma rc_Next_ok:
  assumes "counter_ok rc"
  shows "counter_ok (snd (rc_Next rc))" and "fst (rc_Next rc) = now (snd (rc_Next rc))"
    and "rc_max (snd (rc_Next rc)) = rc_max rc"
    and "unat (now (snd (rc_Next rc))) = unat (now rc) mod unat (rc_max rc) + 1"
proof -
  have bound: "unat (rc_max rc) < 2 ^ 32"
    using unsigned_less [of "rc_max rc", where ?'a = nat] by simp
  have inc: "unat (now rc + 1) = unat (now rc) + 1" if "unat (now rc) < unat (rc_max rc)"
    using that bound by (simp add: unat_word_ariths(1))
  show "counter_ok (snd (rc_Next rc))" "fst (rc_Next rc) = now (snd (rc_Next rc))"
      "rc_max (snd (rc_Next rc)) = rc_max rc"
      "unat (now (snd (rc_Next rc))) = unat (now rc) mod unat (rc_max rc) + 1"
    using assms inc
    by (auto simp: rc_Next_def Let_def counter_ok_def not_le word_less_nat_alt word_le_nat_alt)
qed

lemma NewRollingCounter_ok: "0 < mx \<Longrightarrow> counter_ok (NewRollingCounter mx)"
  by (simp add: counter_ok_def NewRollingCounter_def word_le_nat_alt word_less_nat_alt)

lemma nth_rc_values:
  "counter_ok rc \<Longrightarrow> k < n \<Longrightarrow>
   unat (rc_values n rc ! k) = (unat (now rc) + k) mod unat (rc_max rc) + 1"
proof (induction n arbitrary: rc k)
  case (Suc n)
  note next_ok = rc_Next_ok [OF Suc.prems(1)]
  show ?case
  proof (cases k)
    case 0
    with next_ok show ?thesis by (simp add: case_prod_beta)
  next
    case (Suc j)
    have "unat (rc_values n (snd (rc_Next rc)) ! j) =
        (unat (now (snd (rc_Next rc))) + j) mod unat (rc_max rc) + 1"
      using Suc.IH [OF next_ok(1), of j] Suc.prems Suc next_ok(3) by simp
    moreover have "(unat (now rc) mod m + 1 + j) mod m = (unat (now rc) + k) mod m" for m
      unfolding Suc by (metis add.assoc mod_add_left_eq plus_1_eq_Suc)
    ultimately show ?thesis using Suc next_ok(4) by (simp add: case_prod_beta)
  qed
qed simp

lemma length_rc_values [simp]: "length (rc_values n rc) = n"
  by (induction n arbitrary: rc) (simp_all add: case_prod_beta)

lemma mod_shift_inject:
  assumes "j < m" and "k < m" and "(a + j) mod m = (a + k) mod (m :: nat)"
  shows "j = k"
proof -
  have le: "x = y" if "x \<le> y" "y < m" "(a + x) mod m = (a + y) mod m" for x y
  proof -
    have "m dvd (a + y) - (a + x)"
      using that mod_eq_dvd_iff_nat [of "a + x" "a + y" m] by simp
    then have "m dvd y - x" by simp
    with that show ?thesis by (auto dest: dvd_imp_le)
  qed
  show ?thesis
  proof (cases "j \<le> k")
    case True
    with le assms show ?thesis by blast
  next
    case False
    with le [of k j] assms show ?thesis by simp
  qed
qed

lemma distinct_rc_values:
  assumes "counter_ok rc" and "n \<le> unat (rc_max rc)"
  shows "distinct (rc_values n rc)"
proof -
  let ?m = "unat (rc_max rc)" and ?v = "rc_values n rc"
  have "j = k" if "j < n" "k < n" "?v ! j = ?v ! k" for j k
    using that assms(2) mod_shift_inject [of j ?m k "unat (now rc)"]
      nth_rc_values [OF assms(1) that(1)] nth_rc_values [OF assms(1) that(2)] by simp
  then show ?thesis by (auto simp: distinct_conv_nth)
qed

lemma Magic_Magic: "Magic (Magic c) = c"
  by (simp add: Magic_def xor.assoc)

lemma packet_spec_header:
  assumes "length d < 2 ^ 32 - 24"
  shows "take 24 (Assemble c a b d) = put32 c @ put32 a @ put32 b @ put32 (of_nat (length d)) @
      put32 (Checksum d) @ put32 (Magic c)"
    and "drop 4 (Assemble c a b d) = put32 a @ put32 b @ put32 (of_nat (length d)) @
      put32 (Checksum d) @ put32 (Magic c) @ d"
  by (simp_all add: Assemble_layout [OF assms])

lemma packet_spec_bad_data:
  assumes "length d < 2 ^ 32 - 24" and "i < length d" and "d ! i \<noteq> b"
  shows "fst (packet_spec e (take 24 (Assemble c arg0 arg1 d) @ d[i := b] @ rest)) =
     Err (Errorf ''checksum mismatch'')"
proof -
  have un: "unat (of_nat (length d) :: u32) = length d"
    using assms(1) by (intro unat_of_length) simp
  then have "(of_nat (length d) :: u32) \<noteq> 0" using assms(2) by (metis unsigned_eq_0_iff not_less0)
  then show ?thesis
    unfolding packet_spec_def packet_spec_header(1) [OF assms(1)] append_assoc parse_header_put32 Let_def
    using Checksum_update [OF assms(2,3)]
    by (simp add: VerifyMagic_def body_spec_def un VerifyChecksum_def Let_def)
qed

lemma packet_spec_bad_command:
  assumes "length d < 2 ^ 32 - 24" and "c' \<noteq> c"
  shows "fst (packet_spec e (put32 c' @ drop 4 (Assemble c arg0 arg1 d) @ rest)) =
     Err (Errorf ''magic value mismatch'')"
proof -
  have "Magic c \<noteq> Magic c'" using assms(2) by (metis Magic_Magic)
  then show ?thesis
    unfolding packet_spec_def packet_spec_header(2) [OF assms(1)] append_assoc parse_header_put32 Let_def
    by (simp add: VerifyMagic_def)
qed

section \<open>Properties\<close>

text \<open>C6: for every connection that is open, every segmentation of the incoming bytes and every
  reader state between two packets, \<^verbatim>\<open>ReadPacket\<close> returns what the reference reader takes off
  the front of the unread bytes: the packet, the checksum or magic error, or the error with
  which the stream ends inside a packet. After a packet the unread bytes are those behind it,
  the reader is again between packets and the connection's other fields are untouched.\<close>

theorem ReadPacket_refines_packet_spec:
  assumes "between_packets s"
  shows "fst (ReadPacket s) = fst (packet_spec (in_end (fst s)) (unread s)) \<and>
     (\<forall>p. fst (ReadPacket s) = Ok p \<longrightarrow>
        unread (snd (ReadPacket s)) = snd (packet_spec (in_end (fst s)) (unread s)) \<and>
        between_packets (snd (ReadPacket s)) \<and> same_conn (fst s) (fst (snd (ReadPacket s))))"
  using ReadPacket_reader_spec [of s] assms by (auto simp: reader_spec_def between_packets_def)

theorem ReadPacket_refines_packet_spec_witness:
  "fst (ReadPacket (new_conn [[1, 2], [3]] (NetErr ''reset''), NewPacketReader)) = Err (NetErr ''reset'')"
  using ReadPacket_refines_packet_spec [of "(new_conn [[1, 2], [3]] (NetErr ''reset''), NewPacketReader)"]
  by (simp add: between_packets_def new_conn_def NewPacketReader_def unread_def pending_def packet_spec_def)

text \<open>C13: packets that \<^verbatim>\<open>Assemble\<close> wrote one after the other are read back by \<^verbatim>\<open>ReadPacket\<close>,
  field by field and in order, however the network cut the bytes up, and what follows them
  stays unread.\<close>

theorem packet_stream_roundtrip:
  assumes "list_all sendable ps" and "between_packets s"
    and "unread s = concat (map (\<lambda>p. Assemble (Command p) (Arg0 p) (Arg1 p) (Data p)) ps) @ rest"
  shows "\<exists>s'. read_frames ReadPacket (length ps) s = (Ok ps, s') \<and> between_packets s' \<and>
    unread s' = rest"
  using packets.read_frames_encode [of ps s rest] assms by (simp add: encode_packet_def [abs_def])

theorem packet_stream_roundtrip_witness:
  "\<exists>s'. read_frames ReadPacket (Suc (Suc 0))
     (new_conn (chunks 5 (Assemble A_OPEN 1 0 [104, 105] @ Assemble A_CLSE 1 2 [])) EOF,
      NewPacketReader) = (Ok [packet_of A_OPEN 1 0 [104, 105], packet_of A_CLSE 1 2 []], s') \<and>
     between_packets s' \<and> unread s' = []"
  using packet_stream_roundtrip [of "[packet_of A_OPEN 1 0 [104, 105], packet_of A_CLSE 1 2 []]"
      "(new_conn (chunks 5 (Assemble A_OPEN 1 0 [104, 105] @ Assemble A_CLSE 1 2 [])) EOF,
        NewPacketReader)" "[]"]
  by (simp add: between_packets_def new_conn_def NewPacketReader_def unread_def pending_def concat_chunks)

text \<open>C14: a packet with one byte of its data altered is refused with a checksum error, and one
  whose command word was altered is refused with a magic error, in every segmentation.\<close>

theorem ReadPacket_detects_corruption:
  assumes "length d < 2 ^ 32 - 24" and "between_packets s"
  shows "(i < length d \<and> d ! i \<noteq> b \<and>
       unread s = take 24 (Assemble c arg0 arg1 d) @ d[i := b] @ rest \<longrightarrow>
       fst (ReadPacket s) = Err (Errorf ''checksum mismatch'')) \<and>
     (c' \<noteq> c \<and> unread s = put32 c' @ drop 4 (Assemble c arg0 arg1 d) @ rest \<longrightarrow>
       fst (ReadPacket s) = Err (Errorf ''magic value mismatch''))"
proof -
  have spec: "fst (ReadPacket s) = fst (packet_spec (in_end (fst s)) (unread s))"
    using ReadPacket_reader_spec [of s] assms(2) by (simp add: reader_spec_def between_packets_def)
  show ?thesis
    unfolding spec using packet_spec_bad_data [OF assms(1)] packet_spec_bad_command [OF assms(1)] by auto
qed

theorem ReadPacket_detects_corruption_witness:
  "fst (ReadPacket (new_conn [take 24 (Assemble A_WRTE 1 2 [7, 8, 9]) @ [7, 0, 9]] EOF,
     NewPacketReader)) = Err (Errorf ''checksum mismatch'') \<and>
   fst (ReadPacket (new_conn [put32 A_CLSE @ drop 4 (Assemble A_WRTE 1 2 [7, 8, 9])] EOF,
     NewPacketReader)) = Err (Errorf ''magic value mismatch'')"
  using ReadPacket_detects_corruption [of "[7, 8, 9]"
      "(new_conn [take 24 (Assemble A_WRTE 1 2 [7, 8, 9]) @ [7, 0, 9]] EOF, NewPacketReader)"
      1 0 A_WRTE 1 2 "[]"]
    ReadPacket_detects_corruption [of "[7, 8, 9]"
      "(new_conn [put32 A_CLSE @ drop 4 (Assemble A_WRTE 1 2 [7, 8, 9])] EOF, NewPacketReader)"
      0 0 A_WRTE 1 2 "[]" A_CLSE]
  by (simp add: between_packets_def new_conn_def NewPacketReader_def unread_def pending_def command_defs)

text \<open>C29: the stream and channel identifiers a counter hands out lie between 1 and its maximum,
  so none is 0, the \<open>k\<close>-th is the closed form below (the first call answers 2), and as many
  consecutive ones as the maximum are pairwise different.\<close>

theorem rolling_counter_ids:
  assumes "0 < mx"
  shows "(\<forall>k < n. unat (rc_values n (NewRollingCounter mx) ! k) = (k + 1) mod unat mx + 1) \<and>
     (\<forall>v \<in> set (rc_values n (NewRollingCounter mx)). 1 \<le> v \<and> v \<le> mx) \<and>
     (n \<le> unat mx \<longrightarrow> distinct (rc_values n (NewRollingCounter mx)))"
proof -
  let ?rc = "NewRollingCounter mx" and ?v = "rc_values n (NewRollingCounter mx)"
  have ok: "counter_ok ?rc" using assms by (rule NewRollingCounter_ok)
  have nth: "unat (?v ! k) = (k + 1) mod unat mx + 1" if "k < n" for k
    using nth_rc_values [OF ok that] by (simp add: NewRollingCounter_def)
  have "1 \<le> ?v ! k \<and> ?v ! k \<le> mx" if "k < n" for k
    using nth [OF that] assms mod_less_divisor [of "unat mx" "k + 1"]
    by (simp add: word_le_nat_alt word_less_nat_alt Suc_le_eq)
  then have "\<forall>v \<in> set ?v. 1 \<le> v \<and> v \<le> mx" by (simp add: all_set_conv_all_nth)
  with nth distinct_rc_values [OF ok, of n] show ?thesis by (simp add: NewRollingCounter_def)
qed

theorem rolling_counter_ids_witness:
  "distinct (rc_values 3 (NewRollingCounter 3)) \<and> unat (rc_values 3 (NewRollingCounter 3) ! 2) = 1"
  using rolling_counter_ids [of 3 3] by auto

end
