(* ===== verification/ServiceMap.thy ===== *)
theory ServiceMap
  imports Prelude
begin

text \<open>
  \<^verbatim>\<open>tcpusb/service_map.go\<close>: the table of a socket's active services. Every method but
  \<^verbatim>\<open>End\<close> runs wholly under the table's mutex, so it is one function on the table; \<^verbatim>\<open>End\<close> also
  ends the services it holds and is defined with them in \<open>Bridge\<close>. The table maps a
  local identifier to a reference, an index into the services that were ever created. The
  contract is the locale \<open>id_table\<close>: what a lookup answers after each operation, and that the
  counter is the number of entries.
\<close>

type_synonym service_ref = nat

record service_map =
  services :: "u32 \<rightharpoonup> service_ref"
  count :: int

definition NewServiceMap :: service_map where
  "NewServiceMap = \<lparr>services = Map.empty, count = 0\<rparr>"

definition sm_Insert :: "u32 \<Rightarrow> service_ref \<Rightarrow> (service_map, unit) prog" where
  "sm_Insert localID service sm =
     (if services sm localID \<noteq> None then (Err ErrServiceExists, sm)
      else (Ok (), sm\<lparr>services := (services sm)(localID \<mapsto> service), count := count sm + 1\<rparr>))"

definition sm_Get :: "u32 \<Rightarrow> service_map \<Rightarrow> service_ref option" where
  "sm_Get localID sm = services sm localID"

definition sm_Remove :: "u32 \<Rightarrow> service_map \<Rightarrow> service_ref option \<times> service_map" where
  "sm_Remove localID sm =
     (let service = services sm localID in
      if service \<noteq> None
      then (service, sm\<lparr>services := (services sm)(localID := None), count := count sm - 1\<rparr>)
      else (service, sm))"

definition sm_Count :: "service_map \<Rightarrow> int" where
  "sm_Count sm = count sm"

section \<open>The contract of the table\<close>

locale id_table =
  fixes empty :: 't
    and insert_id :: "'k \<Rightarrow> 'v \<Rightarrow> ('t, unit) prog"
    and lookup :: "'k \<Rightarrow> 't \<Rightarrow> 'v option"
    and remove :: "'k \<Rightarrow> 't \<Rightarrow> 'v option \<times> 't"
    and size_of :: "'t \<Rightarrow> int"
    and ok :: "'t \<Rightarrow> bool"
  assumes ok_empty: "ok empty" and lookup_empty: "lookup k empty = None"
    and insert_free: "ok t \<Longrightarrow> lookup k t = None \<Longrightarrow>
      \<exists>t'. insert_id k v t = (Ok (), t') \<and> ok t' \<and>
        (\<forall>j. lookup j t' = (if j = k then Some v else lookup j t))"
    and insert_taken: "lookup k t \<noteq> None \<Longrightarrow> insert_id k v t = (Err ErrServiceExists, t)"
    and remove_fst: "fst (remove k t) = lookup k t"
    and remove_ok: "ok t \<Longrightarrow> ok (snd (remove k t))"
    and remove_lookup: "lookup j (snd (remove k t)) = (if j = k then None else lookup j t)"
    and size_card: "ok t \<Longrightarrow> size_of t = int (card {k. lookup k t \<noteq> None})"
    and finite_ids: "ok t \<Longrightarrow> finite {k. lookup k t \<noteq> None}"
begin

lemma insert_Ok:
  assumes "ok t" and "insert_id k v t = (Ok u, t')"
  shows "lookup k t = None" and "ok t'" and "lookup j t' = (if j = k then Some v else lookup j t)"
proof -
  show free: "lookup k t = None" using insert_taken [of k t v] assms(2) by (cases "lookup k t") auto
  from insert_free [OF assms(1) free, of v] assms(2)
  show "ok t'" "lookup j t' = (if j = k then Some v else lookup j t)" by auto
qed

lemma insert_not_Ok: "ok t \<Longrightarrow> insert_id k v t = (Err e, t') \<Longrightarrow> t' = t \<and> lookup k t \<noteq> None"
  using insert_free [of t k v] insert_taken [of k t v] by (cases "lookup k t") auto

lemma insert_no_Panic: "ok t \<Longrightarrow> insert_id k v t \<noteq> (Panic p, t')"
  using insert_free [of t k v] insert_taken [of k t v] by (cases "lookup k t") auto

lemma insert_remove:
  assumes "ok t" and "insert_id k v t = (Ok u, t')"
  shows "fst (remove k t') = Some v \<and> lookup j (snd (remove k t')) = lookup j t \<and>
    size_of (snd (remove k t')) = size_of t"
proof -
  note ins = insert_Ok [OF assms]
  have same: "lookup j (snd (remove k t')) = lookup j t" for j
    using ins by (simp add: remove_lookup)
  then show ?thesis
    using ins remove_ok [OF ins(2), of k] size_card assms(1) by (simp add: remove_fst)
qed

lemma size_zero: "ok t \<Longrightarrow> size_of t = 0 \<longleftrightarrow> (\<forall>k. lookup k t = None)"
  using size_card [of t] finite_ids [of t] by auto

end

definition sm_ok :: "service_map \<Rightarrow> bool" where
  "sm_ok sm \<longleftrightarrow> finite (dom (services sm)) \<and> count sm = int (card (dom (services sm)))"

lemma card_dom_insert:
  "(m :: u32 \<rightharpoonup> 'v) k = None \<Longrightarrow> int (card (insert k (dom m))) = int (card (dom m)) + 1"
  by (simp add: domIff card_insert_if)

lemma card_dom_delete:
  "(m :: u32 \<rightharpoonup> 'v) k = Some v \<Longrightarrow> int (card (dom m - {k})) = int (card (dom m)) - 1"
  using card_gt_0_iff [of "dom m"] by (auto simp: domIff of_nat_diff Suc_le_eq)

interpretation sm: id_table NewServiceMap sm_Insert sm_Get sm_Remove sm_Count sm_ok
proof unfold_locales
  show "sm_ok t \<Longrightarrow> sm_Count t = int (card {k. sm_Get k t \<noteq> None})" for t
    by (simp add: sm_ok_def sm_Count_def sm_Get_def dom_def)
qed (auto simp: NewServiceMap_def sm_Insert_def sm_Get_def sm_Remove_def sm_ok_def Let_def
    card_dom_insert card_dom_delete)

end
