(* ===== verification/Transition.thy ===== *)
theory Transition
  imports Main
begin

text \<open>
  Labelled transition systems: the runs of a step relation as the list of their transitions,
  and the two ways the bridge and the server argue about them, an invariant of the states and
  a potential that bounds how often one kind of transition happens compared with another.
\<close>

type_synonym ('s, 'a) transition = "'s \<times> 'a \<times> 's"

inductive run :: "('s \<Rightarrow> 'a \<Rightarrow> 's \<Rightarrow> bool) \<Rightarrow> 's \<Rightarrow> ('s, 'a) transition list \<Rightarrow> 's \<Rightarrow> bool"
  for step where
  run_Nil: "run step s [] s"
| run_snoc: "run step s tr s1 \<Longrightarrow> step s1 a s2 \<Longrightarrow> run step s (tr @ [(s1, a, s2)]) s2"

lemma run_transition: "run step s tr s' \<Longrightarrow> (s1, a, s2) \<in> set tr \<Longrightarrow> step s1 a s2"
  by (induction rule: run.induct) auto

lemma run_prefix: "run step s tr s' \<Longrightarrow> (s1, a, s2) \<in> set tr \<Longrightarrow> \<exists>tr'. run step s tr' s1"
  by (induction rule: run.induct) auto

lemma run_append: "run step s1 tr2 s2 \<Longrightarrow> run step s tr1 s1 \<Longrightarrow> run step s (tr1 @ tr2) s2"
proof (induction rule: run.induct)
  case (run_snoc s1 tr2 s2 a s3)
  then show ?case using run.run_snoc [of step s "tr1 @ tr2" s2 a s3] by simp
qed simp

definition happens :: "(('s, 'a) transition \<Rightarrow> bool) \<Rightarrow> ('s, 'a) transition list \<Rightarrow> nat" where
  "happens P tr = length (filter P tr)"

lemma happens_simps [simp]:
  "happens P [] = 0" "happens P (tr @ [x]) = happens P tr + (if P x then 1 else 0)"
  by (simp_all add: happens_def)

locale invariant =
  fixes step :: "'s \<Rightarrow> 'a \<Rightarrow> 's \<Rightarrow> bool" and inv :: "'s \<Rightarrow> bool"
  assumes preserved: "inv s \<Longrightarrow> step s a s' \<Longrightarrow> inv s'"
begin

lemma run_inv: "run step s tr s' \<Longrightarrow> inv s \<Longrightarrow> inv s'"
  by (induction rule: run.induct) (auto intro: preserved)

lemma transition_inv: "run step s tr s' \<Longrightarrow> inv s \<Longrightarrow> (s1, a, s2) \<in> set tr \<Longrightarrow> inv s1 \<and> inv s2"
  using run_prefix run_inv run_transition preserved by metis

text \<open>
  A flag that every \<open>P\<close>-transition finds lowered and raises, and that only a \<open>Q\<close>-transition
  lowers: \<open>P\<close> happens at most once more often than \<open>Q\<close>.
\<close>

lemma alternation:
  assumes raise: "\<And>s a s'. inv s \<Longrightarrow> step s a s' \<Longrightarrow> P (s, a, s') \<Longrightarrow> \<not> flag s \<and> flag s'"
    and lower: "\<And>s a s'. inv s \<Longrightarrow> step s a s' \<Longrightarrow> flag s \<Longrightarrow> \<not> flag s' \<Longrightarrow> Q (s, a, s')"
    and disjoint: "\<And>t. P t \<Longrightarrow> \<not> Q t"
    and "run step s tr s'" and "inv s"
  shows "happens P tr + (if flag s \<and> \<not> flag s' then 1 else 0) \<le>
    happens Q tr + (if \<not> flag s \<and> flag s' then 1 else 0)"
  using assms(4,5)
proof (induction rule: run.induct)
  case (run_snoc s tr s1 a s2)
  have inv1: "inv s1" using run_snoc.hyps(1) run_snoc.prems by (rule run_inv)
  note IH = run_snoc.IH [OF run_snoc.prems] and up = raise [OF inv1 run_snoc.hyps(2)]
    and down = lower [OF inv1 run_snoc.hyps(2)] and disj = disjoint [of "(s1, a, s2)"]
  show ?case
    using IH up down disj
    by (cases "P (s1, a, s2)"; cases "Q (s1, a, s2)"; cases "flag s"; cases "flag s1"; cases "flag s2")
      simp_all
qed simp

end

end
