(* ===== verification/Bridge.thy ===== *)
theory Bridge
  imports Device Packet ServiceMap Transition
begin

text \<open>
  One client connection of the bridge: \<^verbatim>\<open>tcpusb/socket.go\<close>, \<^verbatim>\<open>tcpusb/service.go\<close> and the
  method \<^verbatim>\<open>End\<close> of \<^verbatim>\<open>tcpusb/service_map.go\<close>. The state \<open>bridge\<close> holds the socket's fields, the
  services it ever created (a \<^verbatim>\<open>*Service\<close> is an index into \<open>heap\<close>) and the device side's
  connections. Three kinds of goroutine work on it:

  \<^item> the socket's \<^verbatim>\<open>Start\<close> loop, which reads packets and handles all of them (\<open>main_step\<close>);
  \<^item> per service, the goroutine \<^verbatim>\<open>handleOpenPacket\<close> of the socket starts (\<open>open_step\<close>);
  \<^item> per opened service, \<^verbatim>\<open>forwardFromDevice\<close> (\<open>fwd_step\<close>).

  A step of a goroutine is one critical section under the service's mutex, or one operation
  outside it: every point where another goroutine can change what the code sees next is a
  boundary between two steps. The methods \<^verbatim>\<open>handleOkayPacket\<close>, \<^verbatim>\<open>handleWritePacket\<close> and
  \<^verbatim>\<open>End\<close> hold the mutex from start to end and are single functions. The goroutine's program
  counter is part of the state; \<open>crashed\<close> records a run-time panic, which ends the process.
\<close>

section \<open>State\<close>

record service =
  localID :: u32
  remoteID :: u32
  transport :: "nat option"
  opened :: bool
  ended :: bool
  needAck :: bool
  endCh :: bool
  doneCh :: bool

text \<open>
  Where the goroutine of an \<^verbatim>\<open>OPEN\<close> packet stands: before \<^verbatim>\<open>device.Transport()\<close>, before the
  check under the mutex, before writing the service name, before reading the reply, before
  acknowledging, before starting the forwarder, in \<^verbatim>\<open>Wait\<close>, before reading a failure's length,
  and before the two actions of its deferred function.
\<close>

datatype open_pc = OpenDial bytes | OpenInstall bytes nat | OpenWrite bytes | OpenRead
  | OpenOkay | OpenForward | OpenWait | OpenFail | OpenRemove | OpenEnd | OpenDone

text \<open>
  Where \<^verbatim>\<open>forwardFromDevice\<close> stands: not started, at the top of its loop, in the \<^verbatim>\<open>select\<close>,
  before \<^verbatim>\<open>transport.Read\<close> with the transport and size it fixed under the mutex, before
  sending what it read, and before the two actions of its deferred function.
\<close>

datatype fwd_pc = FwdIdle | FwdTop | FwdSleep | FwdRead nat nat | FwdSend bytes
  | FwdEnd | FwdSignal | FwdDone

record proc = service +
  open_pc :: open_pc
  fwd_pc :: fwd_pc

datatype main_pc = MainRead | MainCheck packet | MainDispatch packet | MainEnd go_error | MainDone go_error

record bridge =
  net :: world
  sock_conn :: conn
  reader :: packet_reader
  version :: u32
  maxPayload :: u32
  authorized :: bool
  syncToken :: rolling_counter
  remoteIDs :: rolling_counter
  service_table :: service_map
  token :: bytes
  signature :: bytes
  sock_ended :: bool
  heap :: "proc list"
  main_pc :: main_pc
  closing :: bool
  crashed :: "go_panic option"

text \<open>What the socket is made with, and what its environment answers in one step.\<close>

record config =
  cfg_device :: device
  authHandler :: "bytes \<Rightarrow> go_error option"

record choice =
  rand_Read :: "go_error + bytes"
  serial_late :: "go_error option"

abbreviation (input) UINT32_MAX :: u32 where "UINT32_MAX \<equiv> 0xFFFFFFFF"
abbreviation (input) UINT16_MAX :: u32 where "UINT16_MAX \<equiv> 0xFFFF"
abbreviation (input) AUTH_TOKEN :: u32 where "AUTH_TOKEN \<equiv> 1"
abbreviation (input) AUTH_SIGNATURE :: u32 where "AUTH_SIGNATURE \<equiv> 2"
abbreviation (input) AUTH_RSAPUBLICKEY :: u32 where "AUTH_RSAPUBLICKEY \<equiv> 3"
abbreviation (input) TOKEN_LENGTH :: nat where "TOKEN_LENGTH \<equiv> 20"

definition NewSocket :: "world \<Rightarrow> conn \<Rightarrow> bridge" where
  "NewSocket w c =
     \<lparr>net = w, sock_conn = c, reader = NewPacketReader, version = 1, maxPayload = 4096,
      authorized = False, syncToken = NewRollingCounter UINT32_MAX,
      remoteIDs = NewRollingCounter UINT32_MAX, service_table = NewServiceMap, token = [],
      signature = [], sock_ended = False, heap = [], main_pc = MainRead, closing = False,
      crashed = None\<rparr>"

text \<open>A nil handler accepts every key, as does \<^verbatim>\<open>DefaultConfig\<close>'s.\<close>

definition socket_auth :: "(bytes \<Rightarrow> go_error option) option \<Rightarrow> bytes \<Rightarrow> go_error option" where
  "socket_auth h = (case h of None \<Rightarrow> (\<lambda>publicKey. None) | Some f \<Rightarrow> f)"

section \<open>Socket output\<close>

definition on_net :: "(world, 'a) prog \<Rightarrow> (bridge, 'a) prog" where
  "on_net m b = (case m (net b) of (r, w) \<Rightarrow> (r, b\<lparr>net := w\<rparr>))"

definition socket_Write :: "bytes \<Rightarrow> (bridge, unit) prog" where
  "socket_Write data b =
     (if sock_ended b then (Err (Errorf ''socket ended''), b)
      else case conn_Write data (sock_conn b) of
        (Ok _, c) \<Rightarrow> (Ok (), b\<lparr>sock_conn := c\<rparr>)
      | (Err e, c) \<Rightarrow> (Err e, b\<lparr>sock_conn := c\<rparr>)
      | (Panic p, c) \<Rightarrow> (Panic p, b\<lparr>sock_conn := c\<rparr>))"

text \<open>The calls that drop the error of \<^verbatim>\<open>Write\<close>.\<close>

definition send :: "bytes \<Rightarrow> bridge \<Rightarrow> bridge" where
  "send data b = snd (socket_Write data b)"

definition MaxPayload :: "bridge \<Rightarrow> u32" where
  "MaxPayload b = maxPayload b"

section \<open>Services\<close>

definition NewService :: "u32 \<Rightarrow> u32 \<Rightarrow> service" where
  "NewService l r = \<lparr>localID = l, remoteID = r, transport = None, opened = False, ended = False,
     needAck = False, endCh = False, doneCh = False\<rparr>"

definition upd :: "service_ref \<Rightarrow> (proc \<Rightarrow> proc) \<Rightarrow> bridge \<Rightarrow> bridge" where
  "upd i f b = b\<lparr>heap := (heap b)[i := f (heap b ! i)]\<rparr>"

definition Wait_returns :: "service_ref \<Rightarrow> bridge \<Rightarrow> bool" where
  "Wait_returns i b \<longleftrightarrow> doneCh (heap b ! i)"

definition close_transport :: "nat option \<Rightarrow> bridge \<Rightarrow> bridge" where
  "close_transport t b = (case t of
       None \<Rightarrow> b | Some h \<Rightarrow> b\<lparr>net := snd (close_conn h (net b))\<rparr>)"

definition service_End :: "service_ref \<Rightarrow> bridge \<Rightarrow> bridge" where
  "service_End i b =
     (let s = heap b ! i in
      if ended s then b
      else let b = close_transport (transport s) b;
               l = (if opened s then localID s else 0);
               b = send (Assemble A_CLSE l (remoteID s) []) b
           in upd i (\<lambda>s. s\<lparr>transport := None, ended := True, endCh := True\<rparr>) b)"

definition handleOkayPacket :: "service_ref \<Rightarrow> packet \<Rightarrow> (bridge, unit) prog" where
  "handleOkayPacket i p b =
     (let s = heap b ! i in
      if ended s then (Ok (), b)
      else if transport s = None then (Err ErrPrematurePacket, b)
      else (Ok (), upd i (\<lambda>s. s\<lparr>needAck := False\<rparr>) b))"

definition handleWritePacket :: "service_ref \<Rightarrow> packet \<Rightarrow> (bridge, unit) prog" where
  "handleWritePacket i p b =
     (let s = heap b ! i in
      if ended s then (Ok (), b)
      else case transport s of
        None \<Rightarrow> (Err ErrPrematurePacket, b)
      | Some t \<Rightarrow>
          andThen (if Data p \<noteq> [] then andThen (on_net (on_conn t (conn_Write (Data p)))) (\<lambda>_. ret ())
                   else ret ())
            (\<lambda>_ b. (Ok (), send (Assemble A_OKAY (localID s) (remoteID s) []) b)) b)"

definition handleClosePacket :: "service_ref \<Rightarrow> packet \<Rightarrow> (bridge, unit) prog" where
  "handleClosePacket i p b =
     (if transport (heap b ! i) = None then (Err ErrPrematurePacket, b)
      else (Ok (), service_End i b))"

text \<open>
  \<^verbatim>\<open>Handle\<close> as the socket's loop calls it, for packets of an existing service. Its branch for
  \<^verbatim>\<open>A_OPEN\<close> is taken only by the goroutine that \<open>open_step\<close> models.
\<close>

definition service_Handle :: "service_ref \<Rightarrow> packet \<Rightarrow> (bridge, unit) prog" where
  "service_Handle i p =
     (if Command p = A_OKAY then handleOkayPacket i p
      else if Command p = A_WRTE then handleWritePacket i p
      else if Command p = A_CLSE then handleClosePacket i p
      else fail (Errorf (''unexpected packet: '' @ packet_String p)))"

text \<open>
  \<^verbatim>\<open>encodeData\<close> copies the length, printed with at least four digits, into a buffer of four
  bytes: a fifth digit is cut off.
\<close>

definition encodeData :: "bytes \<Rightarrow> bytes" where
  "encodeData d = take 4 (bytes_of (hex4 (length d))) @ d"

section \<open>The goroutine of an OPEN packet\<close>

definition goto :: "service_ref \<Rightarrow> open_pc \<Rightarrow> bridge \<Rightarrow> bridge" where
  "goto i pc = upd i (\<lambda>s. s\<lparr>open_pc := pc\<rparr>)"

definition crash :: "go_panic \<Rightarrow> bridge \<Rightarrow> bridge" where
  "crash p b = b\<lparr>crashed := Some p\<rparr>"

text \<open>
  The rest of a step after an operation \<open>m\<close>: on success the program goes on with \<open>k\<close>, on an
  error the handler returns, which takes the goroutine to its deferred function.
\<close>

definition proceed :: "service_ref \<Rightarrow> (bridge, 'a) prog \<Rightarrow> ('a \<Rightarrow> open_pc) \<Rightarrow> bridge \<Rightarrow> bridge" where
  "proceed i m k b = (case m b of
       (Ok x, b') \<Rightarrow> goto i (k x) b'
     | (Err e, b') \<Rightarrow> goto i OpenRemove b'
     | (Panic p, b') \<Rightarrow> crash p b')"

text \<open>
  An operation on the field \<^verbatim>\<open>s.transport\<close>, read without the mutex: calling a method of the
  nil interface panics.
\<close>

definition on_transport :: "service_ref \<Rightarrow> (conn, 'a) prog \<Rightarrow> (bridge, 'a) prog" where
  "on_transport i m b = (case transport (heap b ! i) of
       None \<Rightarrow> (Panic NilDereference, b)
     | Some t \<Rightarrow> on_net (on_conn t m) b)"

definition open_step :: "config \<Rightarrow> service_ref \<Rightarrow> bridge \<Rightarrow> bridge option" where
  "open_step cfg i b =
     (let s = heap b ! i in
      case open_pc s of
        OpenDial d \<Rightarrow> Some (proceed i (on_net (Transport (cfg_device cfg))) (OpenInstall d) b)
      | OpenInstall d t \<Rightarrow>
          if ended s then Some (goto i OpenRemove (close_transport (Some t) b))
          else Some (goto i (OpenWrite d) (upd i (\<lambda>s. s\<lparr>transport := Some t\<rparr>) b))
      | OpenWrite d \<Rightarrow>
          Some (proceed i (on_transport i (conn_Write (encodeData (take (length d - 1) d))))
            (\<lambda>_. OpenRead) b)
      | OpenRead \<Rightarrow>
          Some (proceed i (on_transport i (ReadFull 4))
            (\<lambda>reply. if string_of reply = ''OKAY'' then OpenOkay
                     else if string_of reply = ''FAIL'' then OpenFail
                     else OpenRemove) b)
      | OpenOkay \<Rightarrow>
          Some (goto i OpenForward (send (Assemble A_OKAY (localID s) (remoteID s) []) b))
      | OpenForward \<Rightarrow>
          Some (goto i OpenWait (upd i (\<lambda>s. s\<lparr>opened := True, fwd_pc := FwdTop\<rparr>) b))
      | OpenWait \<Rightarrow> if Wait_returns i b then Some (goto i OpenRemove b) else None
      | OpenFail \<Rightarrow> Some (proceed i (on_transport i (ReadFull 4)) (\<lambda>_. OpenRemove) b)
      | OpenRemove \<Rightarrow>
          Some (goto i OpenEnd (b\<lparr>service_table := snd (sm_Remove (localID s) (service_table b))\<rparr>))
      | OpenEnd \<Rightarrow> Some (goto i OpenDone (service_End i b))
      | OpenDone \<Rightarrow> None)"

section \<open>The forwarder\<close>

definition fwd_goto :: "service_ref \<Rightarrow> fwd_pc \<Rightarrow> bridge \<Rightarrow> bridge" where
  "fwd_goto i pc = upd i (\<lambda>s. s\<lparr>fwd_pc := pc\<rparr>)"

definition payload_size :: "bridge \<Rightarrow> nat" where
  "payload_size b = (let m = MaxPayload b in if m > 65536 then 65536 else unat m)"

definition fwd_step :: "bool \<Rightarrow> service_ref \<Rightarrow> bridge \<Rightarrow> bridge option" where
  "fwd_step tick i b =
     (let s = heap b ! i in
      case fwd_pc s of
        FwdIdle \<Rightarrow> None
      | FwdTop \<Rightarrow>
          (if ended s then Some (fwd_goto i FwdEnd b)
           else case transport s of
             None \<Rightarrow> Some (fwd_goto i FwdEnd b)
           | Some t \<Rightarrow>
               if needAck s then Some (fwd_goto i FwdSleep b)
               else Some (fwd_goto i (FwdRead t (payload_size b)) b))
      | FwdSleep \<Rightarrow>
          if endCh s \<and> \<not> tick then Some (fwd_goto i FwdEnd b) else Some (fwd_goto i FwdTop b)
      | FwdRead t n \<Rightarrow>
          (case on_net (on_conn t (conn_Read n)) b of
             (Ok d, b') \<Rightarrow> Some (fwd_goto i (if d \<noteq> [] then FwdSend d else FwdTop) b')
           | (Err e, b') \<Rightarrow> Some (fwd_goto i FwdEnd b')
           | (Panic p, b') \<Rightarrow> Some (crash p b'))
      | FwdSend d \<Rightarrow>
          if ended s then Some (fwd_goto i FwdTop b)
          else Some (fwd_goto i FwdTop (upd i (\<lambda>s. s\<lparr>needAck := True\<rparr>)
            (send (Assemble A_WRTE (localID s) (remoteID s) d) b)))
      | FwdEnd \<Rightarrow> Some (fwd_goto i FwdSignal (service_End i b))
      | FwdSignal \<Rightarrow> Some (fwd_goto i FwdDone (upd i (\<lambda>s. s\<lparr>doneCh := True\<rparr>) b))
      | FwdDone \<Rightarrow> None)"

text \<open>
  \<^verbatim>\<open>tryPush\<close>, which nothing calls: it runs with the service's mutex held.
\<close>

definition tryPush :: "service_ref \<Rightarrow> bridge \<Rightarrow> bridge" where
  "tryPush i b =
     (let s = heap b ! i in
      if needAck s \<or> ended s then b
      else case transport s of
        None \<Rightarrow> b
      | Some t \<Rightarrow>
          (case on_net (on_conn t (conn_Read (unat (MaxPayload b)))) b of
             (Ok d, b') \<Rightarrow>
               if d = [] then b'
               else upd i (\<lambda>s. s\<lparr>needAck := True\<rparr>)
                      (send (Assemble A_WRTE (localID s) (remoteID s) d) b')
           | (_, b') \<Rightarrow> b'))"

section \<open>Packets of the socket\<close>

definition handleSyncPacket :: "packet \<Rightarrow> (bridge, unit) prog" where
  "handleSyncPacket p b =
     (case rc_Next (syncToken b) of (n, rc) \<Rightarrow>
        socket_Write (Assemble A_SYNC 1 n []) (b\<lparr>syncToken := rc\<rparr>))"

definition handleConnectionPacket :: "choice \<Rightarrow> packet \<Rightarrow> (bridge, unit) prog" where
  "handleConnectionPacket ch p b =
     (let b = b\<lparr>maxPayload := (if Arg1 p < UINT16_MAX then Arg1 p else UINT16_MAX)\<rparr> in
      case rand_Read ch of
        Inl err \<Rightarrow> (Err err, b)
      | Inr t \<Rightarrow> socket_Write (Assemble A_AUTH AUTH_TOKEN 0 t) (b\<lparr>token := t\<rparr>))"

definition getDeviceID :: "config \<Rightarrow> choice \<Rightarrow> (bridge, bytes) prog" where
  "getDeviceID cfg ch =
     attempt (on_net (device_Serial (cfg_device cfg) (serial_late ch))) (\<lambda>r.
       let serial = (case r of Inl _ \<Rightarrow> ''unknown'' | Inr s \<Rightarrow> s) in
       ret (bytes_of (''device::ro.product.name=adb-bridge;ro.product.model='' @ serial @
         '';ro.product.device='' @ serial @ '';'' @ [CHR 0x00])))"

definition sendCNXN :: "config \<Rightarrow> choice \<Rightarrow> (bridge, unit) prog" where
  "sendCNXN cfg ch b =
     andThen (getDeviceID cfg ch) (\<lambda>deviceID.
       socket_Write (Assemble A_CNXN (Swap32 (version b)) (maxPayload b) deviceID)) b"

definition handleAuthPacket :: "config \<Rightarrow> choice \<Rightarrow> packet \<Rightarrow> (bridge, unit) prog" where
  "handleAuthPacket cfg ch p b =
     (if Arg0 p = AUTH_SIGNATURE
      then let b = (if signature b = [] then b\<lparr>signature := Data p\<rparr> else b) in
           socket_Write (Assemble A_AUTH AUTH_TOKEN 0 (token b)) b
      else if Arg0 p = AUTH_RSAPUBLICKEY
      then if signature b = [] then (Err ErrAuthFailed, b)
           else if length (Data p) < 2 then (Err ErrAuthFailed, b)
           else (case authHandler cfg (Data p) of
                   Some err \<Rightarrow> (Err ErrAuthFailed, b)
                 | None \<Rightarrow> sendCNXN cfg ch (b\<lparr>authorized := True\<rparr>))
      else (Err (Errorf (''unknown authentication method: '' @ dec (unat (Arg0 p)))), b))"

text \<open>A new service with its goroutine at the start of \<^verbatim>\<open>Handle\<close>.\<close>

definition new_proc :: "u32 \<Rightarrow> u32 \<Rightarrow> bytes \<Rightarrow> proc" where
  "new_proc l r d = service.extend (NewService l r) (proc.fields (OpenDial d) FwdIdle)"

definition handleOpenPacket :: "packet \<Rightarrow> (bridge, unit) prog" where
  "handleOpenPacket p b =
     (if \<not> authorized b then (Err ErrUnauthorized, b)
      else case rc_Next (remoteIDs b) of (l, rc) \<Rightarrow>
        let b = b\<lparr>remoteIDs := rc\<rparr> in
        if length (Data p) < 2 then (Err (Errorf ''empty service name''), b)
        else case sm_Insert l (length (heap b)) (service_table b) of
            (Ok _, t) \<Rightarrow>
              (Ok (), b\<lparr>service_table := t,
                 heap := heap b @ [new_proc l (Arg0 p) (Data p)]\<rparr>)
          | (Err e, t) \<Rightarrow> (Err e, b\<lparr>service_table := t\<rparr>)
          | (Panic q, t) \<Rightarrow> (Panic q, b))"

lemma new_proc_fields [simp]:
  "localID (new_proc l r d) = l" "remoteID (new_proc l r d) = r" "transport (new_proc l r d) = None"
  "opened (new_proc l r d) = False" "ended (new_proc l r d) = False" "needAck (new_proc l r d) = False"
  "endCh (new_proc l r d) = False" "doneCh (new_proc l r d) = False"
  "open_pc (new_proc l r d) = OpenDial d" "fwd_pc (new_proc l r d) = FwdIdle"
  by (simp_all add: new_proc_def NewService_def service.defs proc.defs)

definition forwardServicePacket :: "packet \<Rightarrow> (bridge, unit) prog" where
  "forwardServicePacket p b =
     (if \<not> authorized b then (Err ErrUnauthorized, b)
      else case sm_Get (Arg1 p) (service_table b) of
        Some i \<Rightarrow> service_Handle i p b
      | None \<Rightarrow> (Ok (), b))"

text \<open>The dispatch of \<^verbatim>\<open>handle\<close>, after its check of \<^verbatim>\<open>s.ended\<close>.\<close>

definition socket_handle :: "config \<Rightarrow> choice \<Rightarrow> packet \<Rightarrow> (bridge, unit) prog" where
  "socket_handle cfg ch p =
     (if Command p = A_SYNC then handleSyncPacket p
      else if Command p = A_CNXN then handleConnectionPacket ch p
      else if Command p = A_OPEN then handleOpenPacket p
      else if Command p = A_OKAY \<or> Command p = A_WRTE \<or> Command p = A_CLSE
      then forwardServicePacket p
      else if Command p = A_AUTH then handleAuthPacket cfg ch p
      else fail (Errorf (''unknown command: 0x'' @ hex8 (unat (Command p)))))"

text \<open>
  \<^verbatim>\<open>Socket.End\<close> in two parts: the flag is set under the mutex, then the services are ended,
  in the order in which the map is iterated, and the connection is closed.
\<close>

definition socket_End :: "bridge \<Rightarrow> bridge" where
  "socket_End b = (if sock_ended b then b else b\<lparr>sock_ended := True, closing := True\<rparr>)"

definition sm_End :: "service_ref list \<Rightarrow> bridge \<Rightarrow> bridge" where
  "sm_End order b = (fold service_End order b)\<lparr>service_table := NewServiceMap\<rparr>"

definition closing_step :: "service_ref list \<Rightarrow> bridge \<Rightarrow> bridge" where
  "closing_step order b =
     (let b = sm_End order b in b\<lparr>sock_conn := snd (conn_Close (sock_conn b)), closing := False\<rparr>)"

definition main_step :: "config \<Rightarrow> choice \<Rightarrow> bridge \<Rightarrow> bridge option" where
  "main_step cfg ch b = (case main_pc b of
       MainRead \<Rightarrow>
         (case ReadPacket (sock_conn b, reader b) of (r, (c, rd)) \<Rightarrow>
            let b = b\<lparr>sock_conn := c, reader := rd\<rparr> in
            (case r of
               Ok p \<Rightarrow> Some (b\<lparr>main_pc := MainCheck p\<rparr>)
             | Err e \<Rightarrow> Some (b\<lparr>main_pc := MainEnd e\<rparr>)
             | Panic q \<Rightarrow> Some (crash q b)))
     | MainCheck p \<Rightarrow>
         Some (b\<lparr>main_pc := (if sock_ended b then MainRead else MainDispatch p)\<rparr>)
     | MainDispatch p \<Rightarrow>
         (case socket_handle cfg ch p b of
            (Ok _, b') \<Rightarrow> Some (b'\<lparr>main_pc := MainRead\<rparr>)
          | (Err e, b') \<Rightarrow> Some (b'\<lparr>main_pc := MainEnd e\<rparr>)
          | (Panic q, b') \<Rightarrow> Some (crash q b'))
     | MainEnd e \<Rightarrow> Some ((socket_End b)\<lparr>main_pc := MainDone e\<rparr>)
     | MainDone e \<Rightarrow> None)"

section \<open>Interleaving\<close>

text \<open>
  Any goroutine that is not blocked may take the next step. \<open>Shutdown\<close> is a call of
  \<^verbatim>\<open>Socket.End\<close> from outside, by \<^verbatim>\<open>Server.Close\<close>; \<open>Closer\<close> is the second part of whichever
  call of \<^verbatim>\<open>Socket.End\<close> set the flag. The random source fills the whole token when it
  succeeds, as \<^verbatim>\<open>crypto/rand\<close> documents.
\<close>

datatype actor = Main | Opener service_ref | Forwarder service_ref | Closer | Shutdown

inductive bstep :: "config \<Rightarrow> bridge \<Rightarrow> actor \<Rightarrow> bridge \<Rightarrow> bool" for cfg where
  step_main: "crashed b = None \<Longrightarrow> main_step cfg ch b = Some b' \<Longrightarrow>
    (\<forall>t. rand_Read ch = Inr t \<longrightarrow> length t = TOKEN_LENGTH) \<Longrightarrow> bstep cfg b Main b'"
| step_open: "crashed b = None \<Longrightarrow> i < length (heap b) \<Longrightarrow> open_step cfg i b = Some b' \<Longrightarrow>
    bstep cfg b (Opener i) b'"
| step_fwd: "crashed b = None \<Longrightarrow> i < length (heap b) \<Longrightarrow> fwd_step tick i b = Some b' \<Longrightarrow>
    bstep cfg b (Forwarder i) b'"
| step_shutdown: "crashed b = None \<Longrightarrow> bstep cfg b Shutdown (socket_End b)"
| step_close: "crashed b = None \<Longrightarrow> closing b \<Longrightarrow> distinct order \<Longrightarrow>
    set order = ran (services (service_table b)) \<Longrightarrow> bstep cfg b Closer (closing_step order b)"

inductive_cases bstep_MainE: "bstep cfg b Main b'"
inductive_cases bstep_OpenerE: "bstep cfg b (Opener i) b'"
inductive_cases bstep_ForwarderE: "bstep cfg b (Forwarder i) b'"
inductive_cases bstep_CloserE: "bstep cfg b Closer b'"
inductive_cases bstep_ShutdownE: "bstep cfg b Shutdown b'"

section \<open>Running a schedule\<close>

text \<open>
  A schedule fixes which goroutine moves next; \<open>exec\<close> computes the state it leads to. It is
  used to evaluate concrete runs.
\<close>

datatype move = MainMove choice | OpenMove service_ref | FwdMove bool service_ref | ShutdownMove

definition exec_move :: "config \<Rightarrow> move \<Rightarrow> bridge \<Rightarrow> bridge option" where
  "exec_move cfg m b =
     (if crashed b \<noteq> None then None
      else case m of
        MainMove ch \<Rightarrow>
          if (case rand_Read ch of Inl _ \<Rightarrow> True | Inr t \<Rightarrow> length t = TOKEN_LENGTH)
          then main_step cfg ch b else None
      | OpenMove i \<Rightarrow> if i < length (heap b) then open_step cfg i b else None
      | FwdMove tick i \<Rightarrow> if i < length (heap b) then fwd_step tick i b else None
      | ShutdownMove \<Rightarrow> Some (socket_End b))"

fun exec :: "config \<Rightarrow> move list \<Rightarrow> bridge \<Rightarrow> bridge option" where
  "exec cfg [] b = Some b"
| "exec cfg (m # ms) b = (case exec_move cfg m b of None \<Rightarrow> None | Some b' \<Rightarrow> exec cfg ms b')"

lemma exec_move_step:
  assumes "exec_move cfg m b = Some b'"
  shows "\<exists>a. bstep cfg b a b'"
proof -
  from assms have c: "crashed b = None" by (auto simp: exec_move_def split: if_splits)
  show ?thesis
  proof (cases m)
    case (MainMove ch)
    with assms c have "bstep cfg b Main b'"
      by (intro step_main [of b cfg ch]) (auto simp: exec_move_def split: if_splits sum.splits)
    then show ?thesis by blast
  next
    case (OpenMove i)
    with assms c have "bstep cfg b (Opener i) b'"
      by (intro step_open) (auto simp: exec_move_def split: if_splits)
    then show ?thesis by blast
  next
    case (FwdMove tick i)
    with assms c have "bstep cfg b (Forwarder i) b'"
      by (intro step_fwd [of b i tick]) (auto simp: exec_move_def split: if_splits)
    then show ?thesis by blast
  next
    case ShutdownMove
    with assms c step_shutdown [OF c] show ?thesis by (auto simp: exec_move_def)
  qed
qed

lemma exec_run: "exec cfg ms b = Some b' \<Longrightarrow> \<exists>tr. run (bstep cfg) b tr b'"
proof (induction ms arbitrary: b)
  case Nil
  then show ?case by (auto intro: run_Nil)
next
  case (Cons m ms)
  then obtain b1 where b1: "exec_move cfg m b = Some b1" "exec cfg ms b1 = Some b'"
    by (auto split: option.splits)
  with exec_move_step Cons.IH obtain a tr where "bstep cfg b a b1" "run (bstep cfg) b1 tr b'" by blast
  then have "run (bstep cfg) b ([(b, a, b1)] @ tr) b'"
    using run_append [OF _ run_snoc [OF run_Nil]] by fastforce
  then show ?case by blast
qed

end
