(* ===== verification/BridgeRuns.thy ===== *)
theory BridgeRuns
  imports Bridge
begin

text \<open>
  Concrete runs of the bridge, for one client that logs in, opens a service and closes it.
  The packets stay symbolic: a segment that is one packet is read in three moves of the
  socket's loop (\<open>exec_packet\<close>), so a run is evaluated packet by packet. The runs are the
  witnesses of the theorems in \<open>BridgeProofs\<close>, and two of them show how the bridge fails.
\<close>

definition demo_cfg :: config where
  "demo_cfg = \<lparr>cfg_device = client_Device (NewClientWithConnector (connectorImpl_Connection ''127.0.0.1'' 5037))
     (DeviceWithSerial ''emu''), authHandler = (\<lambda>_. None)\<rparr>"

definition demo_choice :: choice where
  "demo_choice = \<lparr>rand_Read = Inr (replicate 20 7), serial_late = None\<rparr>"

text \<open>Three moves of the loop take the next packet off the connection and handle it.\<close>

definition received :: "packet \<Rightarrow> bytes list \<Rightarrow> bridge \<Rightarrow> bridge" where
  "received p segs b = b\<lparr>sock_conn := (sock_conn b)\<lparr>incoming := segs\<rparr>,
      reader := \<lparr>buffer = [], inBody = False, rd_packet = p\<rparr>, main_pc := MainDispatch p\<rparr>"

lemma exec_packet:
  assumes "crashed b = None" and "main_pc b = MainRead" and "\<not> sock_ended b"
    and "incoming (sock_conn b) = encode_packet p # segs" and "\<not> isclosed (sock_conn b)"
    and "sendable p" and "length (Data p) \<le> 4072" and "buffer (reader b) = []" and "\<not> inBody (reader b)"
    and "\<forall>t. rand_Read ch = Inr t \<longrightarrow> length t = TOKEN_LENGTH"
    and "fst (socket_handle cfg ch p (received p segs b)) = Ok ()"
  shows "exec cfg (replicate 3 (MainMove ch) @ ms) b =
    exec cfg ms ((snd (socket_handle cfg ch p (received p segs b)))\<lparr>main_pc := MainRead\<rparr>)"
proof -
  let ?b = "b\<lparr>sock_conn := (sock_conn b)\<lparr>incoming := segs\<rparr>,
      reader := \<lparr>buffer = [], inBody = False, rd_packet = p\<rparr>\<rparr>"
  have rnd: "case rand_Read ch of Inl _ \<Rightarrow> True | Inr t \<Rightarrow> length t = TOKEN_LENGTH"
    using assms(10) by (simp split: sum.split)
  have "main_step cfg ch b = Some (?b\<lparr>main_pc := MainCheck p\<rparr>)"
    using assms ReadPacket_segment [OF assms(6,7,5,4,8,9)] by (simp add: main_step_def)
  moreover have "main_step cfg ch (?b\<lparr>main_pc := MainCheck p\<rparr>) = Some (received p segs b)"
    using assms(3) by (simp add: main_step_def received_def)
  moreover have "main_step cfg ch (received p segs b) =
      Some ((snd (socket_handle cfg ch p (received p segs b)))\<lparr>main_pc := MainRead\<rparr>)"
    using assms(11) by (cases "socket_handle cfg ch p (received p segs b)")
      (simp add: main_step_def received_def)
  moreover have "crashed (received p segs b) = None" using assms(1) by (simp add: received_def)
  ultimately show ?thesis
    using assms(1) rnd by (simp add: exec_move_def numeral_3_eq_3)
qed

definition demo_login :: "packet list" where
  "demo_login = [packet_of A_CNXN 0x01000000 4096 [], packet_of A_AUTH AUTH_SIGNATURE 0 [1],
     packet_of A_AUTH AUTH_RSAPUBLICKEY 0 [1, 2]]"

definition demo_client :: "packet list \<Rightarrow> conn" where
  "demo_client ps = new_conn (map encode_packet (demo_login @ ps)) EOF"

definition demo_world :: "conn \<Rightarrow> world" where
  "demo_world c = new_world [Inl err_refused, Inr c]"

definition demo_addr :: string where "demo_addr = connector_addr ''127.0.0.1'' 5037"

definition demo_ready :: "conn \<Rightarrow> packet list \<Rightarrow> bytes \<Rightarrow> bridge" where
  "demo_ready c ps out = (NewSocket \<lparr>conns = [], dials = [Inr c], dialled = [demo_addr], spawned = []\<rparr>
     ((new_conn (map encode_packet ps) EOF)\<lparr>outgoing := out\<rparr>))
     \<lparr>token := replicate 20 7, signature := [1], authorized := True,
      reader := \<lparr>buffer = [], inBody = False, rd_packet = packet_of A_AUTH AUTH_RSAPUBLICKEY 0 [1, 2]\<rparr>\<rparr>"

lemma demo_serial:
  "device_Serial (cfg_device demo_cfg) None (demo_world c) =
     (Err err_refused, (demo_world c)\<lparr>dials := [Inr c], dialled := [demo_addr]\<rparr>)"
  by (simp add: demo_world_def new_world_def device_Serial_def getAttribute_def getHostPrefix_def
      demo_cfg_def SendHostCommand_def SendHostCommandContext_def Connection_def client_Device_def
      NewClientWithConnector_def connectorImpl_Connection_def net_Dial_def DeviceWithSerial_def
      andThen_def ret_def demo_addr_def)

definition demo_banner :: bytes where
  "demo_banner = bytes_of (''device::ro.product.name=adb-bridge;ro.product.model=unknown'' @
     '';ro.product.device=unknown;'' @ [CHR 0x00])"

definition demo_sent :: bytes where
  "demo_sent = (let t = Assemble A_AUTH AUTH_TOKEN 0 (replicate 20 7) in
     t @ t @ Assemble A_CNXN (Swap32 1) 4096 demo_banner)"

lemma demo_reaches_ready:
  "exec demo_cfg (replicate 3 (MainMove demo_choice) @ replicate 3 (MainMove demo_choice) @
      replicate 3 (MainMove demo_choice) @ ms) (NewSocket (demo_world c) (demo_client ps)) =
    exec demo_cfg ms (demo_ready c ps demo_sent)"
proof -
  let ?p = "\<lambda>i. demo_login ! i" and ?m = "replicate 3 (MainMove demo_choice)"
  let ?t = "replicate 20 7 :: bytes"
  let ?st = "\<lambda>i t sg out. (NewSocket (demo_world c)
     ((new_conn (map encode_packet (drop i demo_login @ ps)) EOF)\<lparr>outgoing := out\<rparr>))
     \<lparr>token := t, signature := sg,
      reader := (if i = 0 then NewPacketReader else \<lparr>buffer = [], inBody = False, rd_packet = ?p (i - 1)\<rparr>)\<rparr>"
  note simps = received_def NewSocket_def new_conn_def demo_login_def demo_choice_def NewPacketReader_def
    socket_handle_def command_defs handleConnectionPacket_def handleAuthPacket_def socket_Write_def
    conn_Write_def
  note packet_rule = exec_packet [where cfg = demo_cfg and ch = demo_choice]
  have 1: "exec demo_cfg (?m @ ms') (?st 0 [] [] []) =
      exec demo_cfg ms' (?st 1 ?t [] (Assemble A_AUTH AUTH_TOKEN 0 ?t))" for ms'
    by (subst exec_packet [where p = "?p 0" and segs = "map encode_packet (drop 1 demo_login @ ps)"])
      (simp_all add: simps)
  have 2: "exec demo_cfg (?m @ ms') (?st 1 ?t [] out) =
      exec demo_cfg ms' (?st 2 ?t [1] (out @ Assemble A_AUTH AUTH_TOKEN 0 ?t))" for ms' out
    by (subst exec_packet [where p = "?p 1" and segs = "map encode_packet (drop 2 demo_login @ ps)"])
      (simp_all add: simps)
  have 3: "exec demo_cfg (?m @ ms) (?st 2 ?t [1] out) =
      exec demo_cfg ms (demo_ready c ps (out @ Assemble A_CNXN (Swap32 1) 4096 demo_banner))" for out
    by (subst exec_packet [where p = "?p 2" and segs = "map encode_packet ps"])
      (simp_all add: simps sendCNXN_def getDeviceID_def on_net_def andThen_def attempt_def ret_def
        demo_serial demo_cfg_def [THEN arg_cong [where f = authHandler]] demo_ready_def demo_banner_def,
       simp_all add: demo_world_def new_world_def)
  have "NewSocket (demo_world c) (demo_client ps) = ?st 0 [] [] []"
    by (simp add: NewSocket_def demo_client_def new_conn_def NewPacketReader_def)
  with 1 2 3 show ?thesis by (simp add: demo_sent_def Let_def)
qed

definition demo_device :: "bytes list \<Rightarrow> conn" where
  "demo_device segs = new_conn (bytes_of ''OKAY'' # segs) EOF"

lemma demo_transport:
  assumes "w = \<lparr>conns = [], dials = [Inr (demo_device segs)], dialled = a, spawned = sp\<rparr>"
  shows "Transport (cfg_device demo_cfg) w =
    (Ok 0, \<lparr>conns = [(new_conn segs EOF)\<lparr>outgoing := frame ''host:transport:emu''\<rparr>], dials = [],
       dialled = a @ [demo_addr], spawned = sp\<rparr>)"
proof -
  have "answers (demo_device segs) StatusOkay (concat segs)"
    by (auto simp: answers_def demo_device_def new_conn_def pending_def StatusOkay_def)
  from sendADBCommand_word [OF this] show ?thesis
    by (simp add: assms demo_device_def Transport_def demo_cfg_def Connection_def client_Device_def
        NewClientWithConnector_def connectorImpl_Connection_def net_Dial_def DeviceWithSerial_def
        andThen_def ret_def demo_addr_def getTransportDescriptor_def on_conn_def attempt_def
        new_conn_def advance_def)
qed

definition demo_open :: packet where "demo_open = packet_of A_OPEN 5 0 [115, 0]"
definition demo_close :: packet where "demo_close = packet_of A_CLSE 5 2 []"

definition demo_opening :: "bytes list \<Rightarrow> packet list \<Rightarrow> bridge" where
  "demo_opening segs ps = (demo_ready (demo_device segs) ps demo_sent)
     \<lparr>net := \<lparr>conns = [(new_conn segs EOF)\<lparr>outgoing := frame ''host:transport:emu''\<rparr>], dials = [],
        dialled = [demo_addr, demo_addr], spawned = []\<rparr>,
      reader := \<lparr>buffer = [], inBody = False, rd_packet = demo_open\<rparr>,
      remoteIDs := \<lparr>rc_max = 0xFFFFFFFF, rc_min = 1, now = 2\<rparr>,
      service_table := \<lparr>services = [2 \<mapsto> 0], count = 1\<rparr>,
      heap := [(new_proc 2 5 [115, 0])\<lparr>transport := Some 0, open_pc := OpenWrite [115, 0]\<rparr>]\<rparr>"

lemma first_id:
  "rc_Next (NewRollingCounter UINT32_MAX) = (2, \<lparr>rc_max = 0xFFFFFFFF, rc_min = 1, now = 2\<rparr>)"
  by (simp add: rc_Next_def NewRollingCounter_def word_le_nat_alt)

text \<open>The login, an \<^verbatim>\<open>OPEN\<close>, and the first two steps of its goroutine.\<close>

definition demo_moves :: "move list" where
  "demo_moves = replicate 12 (MainMove demo_choice) @ [OpenMove 0, OpenMove 0]"

lemma demo_reaches_opening:
  "exec demo_cfg (demo_moves @ ms) (NewSocket (demo_world (demo_device segs)) (demo_client (demo_open # ps))) =
   exec demo_cfg ms (demo_opening segs ps)"
proof -
  let ?m = "replicate 3 (MainMove demo_choice)"
  have moves: "demo_moves @ ms = ?m @ ?m @ ?m @ ?m @ [OpenMove 0, OpenMove 0] @ ms"
    by (simp add: demo_moves_def numeral_eq_Suc)
  have "exec demo_cfg (?m @ [OpenMove 0, OpenMove 0] @ ms)
      (demo_ready (demo_device segs) (demo_open # ps) demo_sent) =
    exec demo_cfg ms (demo_opening segs ps)"
    apply (subst exec_packet [where p = demo_open and segs = "map encode_packet ps"])
    apply (simp_all add: demo_ready_def NewSocket_def new_conn_def demo_open_def demo_choice_def
        received_def socket_handle_def command_defs handleOpenPacket_def first_id
        sm_Insert_def NewServiceMap_def)
    apply (simp add: exec_move_def open_step_def proceed_def on_net_def demo_transport [OF refl] Let_def
        goto_def upd_def demo_opening_def demo_ready_def NewSocket_def
        new_conn_def demo_open_def command_defs)
    done
  then show ?thesis unfolding moves demo_reaches_ready by simp
qed

lemma service_Handle_close: "Command p = A_CLSE \<Longrightarrow> service_Handle i p = handleClosePacket i p"
  by (simp add: service_Handle_def command_defs fun_eq_iff)

definition demo_closed :: "bytes list \<Rightarrow> packet list \<Rightarrow> bridge" where
  "demo_closed segs ps = (service_End 0 (demo_opening segs ps))
     \<lparr>reader := \<lparr>buffer = [], inBody = False, rd_packet = demo_close\<rparr>\<rparr>"

lemma demo_reaches_closed:
  "exec demo_cfg (replicate 3 (MainMove demo_choice) @ ms) (demo_opening segs (demo_close # ps)) =
   exec demo_cfg ms (demo_closed segs ps)"
  apply (subst exec_packet [where p = demo_close and segs = "map encode_packet ps"])
  apply (simp_all add: demo_opening_def demo_ready_def NewSocket_def new_conn_def demo_close_def demo_choice_def
      received_def socket_handle_def command_defs forwardServicePacket_def sm_Get_def
      service_Handle_def handleClosePacket_def demo_closed_def
      service_End_def Let_def close_transport_def send_def socket_Write_def conn_Write_def upd_def)
  done

lemma demo_crashes:
  "\<exists>b. exec demo_cfg [OpenMove 0] (demo_closed segs ps) = Some b \<and> crashed b = Some NilDereference"
  apply (simp add: demo_closed_def demo_opening_def demo_ready_def NewSocket_def new_conn_def
    service_End_def Let_def close_transport_def send_def socket_Write_def conn_Write_def upd_def
    exec_move_def open_step_def proceed_def on_transport_def crash_def)
  done

text \<open>The same when the handler reports an error: the loop ends and with it the socket.\<close>

lemma exec_packet_Err:
  assumes "crashed b = None" and "main_pc b = MainRead" and "\<not> sock_ended b"
    and "incoming (sock_conn b) = encode_packet p # segs" and "\<not> isclosed (sock_conn b)"
    and "sendable p" and "length (Data p) \<le> 4072" and "buffer (reader b) = []" and "\<not> inBody (reader b)"
    and "\<forall>t. rand_Read ch = Inr t \<longrightarrow> length t = TOKEN_LENGTH"
    and "socket_handle cfg ch p (received p segs b) = (Err e, b')" and "crashed b' = None"
  shows "exec cfg (replicate 4 (MainMove ch) @ ms) b =
    exec cfg ms ((socket_End b')\<lparr>main_pc := MainDone e\<rparr>)"
proof -
  let ?b = "b\<lparr>sock_conn := (sock_conn b)\<lparr>incoming := segs\<rparr>,
      reader := \<lparr>buffer = [], inBody = False, rd_packet = p\<rparr>\<rparr>"
  have rnd: "case rand_Read ch of Inl _ \<Rightarrow> True | Inr t \<Rightarrow> length t = TOKEN_LENGTH"
    using assms(10) by (simp split: sum.split)
  have "main_step cfg ch b = Some (?b\<lparr>main_pc := MainCheck p\<rparr>)"
    using assms ReadPacket_segment [OF assms(6,7,5,4,8,9)] by (simp add: main_step_def)
  moreover have "main_step cfg ch (?b\<lparr>main_pc := MainCheck p\<rparr>) = Some (received p segs b)"
    using assms(3) by (simp add: main_step_def received_def)
  moreover have "main_step cfg ch (received p segs b) = Some (b'\<lparr>main_pc := MainEnd e\<rparr>)"
    using assms(11) by (simp add: main_step_def received_def)
  moreover have "main_step cfg ch (b'\<lparr>main_pc := MainEnd e\<rparr>) = Some ((socket_End b')\<lparr>main_pc := MainDone e\<rparr>)"
    by (simp add: main_step_def socket_End_def)
  moreover have "crashed (received p segs b) = None" using assms(1) by (simp add: received_def)
  ultimately show ?thesis
    using assms(1,12) rnd by (simp add: exec_move_def numeral_eq_Suc)
qed

lemma demo_second_close:
  "\<exists>b. exec demo_cfg (replicate 4 (MainMove demo_choice)) (demo_closed segs (demo_close # ps)) = Some b \<and>
     main_pc b = MainDone ErrPrematurePacket \<and> sock_ended b"
proof -
  let ?b = "received demo_close (map encode_packet ps) (demo_closed segs (demo_close # ps))"
  note simps = demo_opening_def demo_ready_def NewSocket_def new_conn_def demo_close_def demo_choice_def
      received_def demo_closed_def
      service_End_def Let_def close_transport_def send_def socket_Write_def conn_Write_def upd_def
  have h: "socket_handle demo_cfg demo_choice demo_close ?b = (Err ErrPrematurePacket, ?b)"
    by (simp add: simps socket_handle_def command_defs forwardServicePacket_def sm_Get_def
      service_Handle_def handleClosePacket_def)
  have "exec demo_cfg (replicate 4 (MainMove demo_choice) @ []) (demo_closed segs (demo_close # ps)) =
      exec demo_cfg [] ((socket_End ?b)\<lparr>main_pc := MainDone ErrPrematurePacket\<rparr>)"
    by (rule exec_packet_Err [OF _ _ _ _ _ _ _ _ _ _ h]) (simp_all add: simps command_defs)
  then show ?thesis by (simp add: socket_End_def)
qed

definition demo_forwarding :: "packet list \<Rightarrow> bridge" where
  "demo_forwarding ps = (let b = demo_opening [] ps in
     b\<lparr>net := (net b)\<lparr>conns := [(new_conn [[1, 2, 3]] EOF)
           \<lparr>outgoing := frame ''host:transport:emu'' @ encodeData [115]\<rparr>]\<rparr>,
       sock_conn := (sock_conn b)\<lparr>outgoing := demo_sent @ Assemble A_OKAY 2 5 []\<rparr>,
       heap := [(new_proc 2 5 [115, 0])\<lparr>transport := Some 0, opened := True, fwd_pc := FwdTop,
          open_pc := OpenWait\<rparr>]\<rparr>)"

definition demo_data :: "packet list \<Rightarrow> bridge" where
  "demo_data ps = (let b = demo_opening [] ps in
     b\<lparr>net := (net b)\<lparr>conns := [(new_conn [] EOF)
           \<lparr>outgoing := frame ''host:transport:emu'' @ encodeData [115]\<rparr>]\<rparr>,
       sock_conn := (sock_conn b)\<lparr>outgoing := demo_sent @ Assemble A_OKAY 2 5 [] @ Assemble A_WRTE 2 5 [1, 2, 3]\<rparr>,
       heap := [(new_proc 2 5 [115, 0])\<lparr>transport := Some 0, opened := True, open_pc := OpenWait,
          needAck := True, fwd_pc := FwdTop\<rparr>]\<rparr>)"

lemma demo_opens:
  "exec demo_cfg (replicate 4 (OpenMove 0) @ ms) (demo_opening [bytes_of ''OKAY'', [1, 2, 3]] ps) =
   exec demo_cfg ms (demo_forwarding ps)"
proof -
  let ?c = "\<lparr>incoming = [[79, 75, 65, 89], [1, 2, 3]], in_end = EOF,
    outgoing = frame ''host:transport:emu'' @ encodeData [115], room = None, isclosed = False\<rparr>"
  have word: "string_of [79, 75, 65, 89] = ''OKAY''"
    using string_of_bytes_of [of "''OKAY''"] by simp
  have rd: "ReadFull 4 ?c = (Ok [79, 75, 65, 89], ?c\<lparr>incoming := [[1, 2, 3]]\<rparr>)"
    by (simp add: ReadFull_Ok pending_def advance_def)
  have moves: "replicate 4 (OpenMove 0) @ ms = OpenMove 0 # OpenMove 0 # OpenMove 0 # OpenMove 0 # ms"
    by (simp add: numeral_eq_Suc)
  show ?thesis
    unfolding moves
    by (simp add: demo_opening_def demo_ready_def NewSocket_def new_conn_def exec_move_def
        open_step_def Let_def proceed_def on_transport_def on_net_def on_conn_def conn_Write_def
        goto_def upd_def send_def socket_Write_def demo_forwarding_def rd word del: ReadFull_Ok)
qed

lemma demo_forwards:
  "exec demo_cfg (replicate 3 (FwdMove True 0) @ ms) (demo_forwarding ps) = exec demo_cfg ms (demo_data ps)"
proof -
  have moves: "replicate 3 (FwdMove True 0) @ ms = FwdMove True 0 # FwdMove True 0 # FwdMove True 0 # ms"
    by (simp add: numeral_eq_Suc)
  show ?thesis
    unfolding moves
    by (simp add: demo_forwarding_def demo_opening_def demo_ready_def NewSocket_def new_conn_def
        exec_move_def fwd_step_def Let_def on_net_def on_conn_def conn_Write_def upd_def send_def
        socket_Write_def fwd_goto_def payload_size_def MaxPayload_def word_less_nat_alt conn_Read_def
        demo_data_def)
qed

text \<open>C32: the bridge can crash. A client that logs in, opens a service and sends a \<^verbatim>\<open>CLSE\<close> for it
  before the goroutine has written the service name makes that goroutine call a method of a
  nil transport, which ends the process with all its clients.\<close>

theorem close_while_opening_crashes:
  "\<exists>tr b. run (bstep demo_cfg)
     (NewSocket (demo_world (demo_device segs)) (demo_client [demo_open, demo_close])) tr b \<and>
     crashed b = Some NilDereference"
proof -
  let ?moves = "demo_moves @ replicate 3 (MainMove demo_choice) @ [OpenMove 0]"
  from demo_crashes [of segs "[]"] obtain b where
    b: "exec demo_cfg [OpenMove 0] (demo_closed segs []) = Some b" "crashed b = Some NilDereference"
    by blast
  have "exec demo_cfg ?moves
      (NewSocket (demo_world (demo_device segs)) (demo_client [demo_open, demo_close])) = Some b"
    by (simp only: demo_reaches_opening demo_reaches_closed b(1))
  with b(2) exec_run show ?thesis by blast
qed

text \<open>C33: a second \<^verbatim>\<open>CLSE\<close> for a service that has just been closed, while its goroutine has not
  removed it from the table yet, is answered with \<open>ErrPrematurePacket\<close>, and that ends the
  socket with all other services of the client.\<close>

theorem second_close_ends_socket:
  "\<exists>tr b. run (bstep demo_cfg)
     (NewSocket (demo_world (demo_device segs)) (demo_client [demo_open, demo_close, demo_close])) tr b \<and>
     main_pc b = MainDone ErrPrematurePacket \<and> sock_ended b"
proof -
  let ?moves = "demo_moves @ replicate 3 (MainMove demo_choice) @ replicate 4 (MainMove demo_choice)"
  from demo_second_close [of segs "[]"] obtain b where
    b: "exec demo_cfg (replicate 4 (MainMove demo_choice)) (demo_closed segs [demo_close]) = Some b"
      "main_pc b = MainDone ErrPrematurePacket \<and> sock_ended b" by blast
  have "exec demo_cfg ?moves (NewSocket (demo_world (demo_device segs))
      (demo_client [demo_open, demo_close, demo_close])) = Some b"
    by (simp only: demo_reaches_opening demo_reaches_closed b(1))
  with b(2) exec_run show ?thesis by blast
qed

text \<open>The run in which three bytes of the device reach the client.\<close>

abbreviation demo_start :: bridge where
  "demo_start \<equiv> NewSocket (demo_world (demo_device [bytes_of ''OKAY'', [1, 2, 3]])) (demo_client [demo_open])"

lemma demo_opening_run: "\<exists>tr. run (bstep demo_cfg) demo_start tr (demo_forwarding [])"
proof -
  have "exec demo_cfg (demo_moves @ replicate 4 (OpenMove 0) @ []) demo_start = Some (demo_forwarding [])"
    by (simp only: demo_reaches_opening demo_opens exec.simps)
  then show ?thesis by (rule exec_run)
qed

lemma demo_forwarding_run: "\<exists>tr. run (bstep demo_cfg) (demo_forwarding []) tr (demo_data [])"
proof -
  have "exec demo_cfg (replicate 3 (FwdMove True 0) @ []) (demo_forwarding []) = Some (demo_data [])"
    by (simp only: demo_forwards exec.simps)
  then show ?thesis by (rule exec_run)
qed

lemma demo_run: "\<exists>tr. run (bstep demo_cfg) demo_start tr (demo_data [])"
proof -
  obtain tr1 tr2 where "run (bstep demo_cfg) demo_start tr1 (demo_forwarding [])"
    "run (bstep demo_cfg) (demo_forwarding []) tr2 (demo_data [])"
    using demo_opening_run demo_forwarding_run by blast
  then have "run (bstep demo_cfg) demo_start (tr1 @ tr2) (demo_data [])"
    by (intro run_append) assumption+
  then show ?thesis by blast
qed

end
