(* ===== verification/BridgeProofs.thy ===== *)
theory BridgeProofs
  imports BridgeRuns
begin

text \<open>
  Properties of the bridge under every interleaving of its goroutines.
\<close>

section \<open>What the building blocks leave alone\<close>

named_theorems bridge_frame \<open>fields a building block does not change\<close>

lemma send_frame [bridge_frame]:
  "net (send d b) = net b" "reader (send d b) = reader b" "version (send d b) = version b"
  "maxPayload (send d b) = maxPayload b" "authorized (send d b) = authorized b"
  "remoteIDs (send d b) = remoteIDs b" "syncToken (send d b) = syncToken b"
  "service_table (send d b) = service_table b" "token (send d b) = token b"
  "signature (send d b) = signature b" "sock_ended (send d b) = sock_ended b"
  "heap (send d b) = heap b" "main_pc (send d b) = main_pc b" "closing (send d b) = closing b"
  "crashed (send d b) = crashed b"
  by (auto simp: send_def socket_Write_def split: prod.split result.split)

lemma upd_frame [bridge_frame]:
  "net (upd i f b) = net b" "reader (upd i f b) = reader b" "version (upd i f b) = version b"
  "maxPayload (upd i f b) = maxPayload b" "authorized (upd i f b) = authorized b"
  "remoteIDs (upd i f b) = remoteIDs b" "syncToken (upd i f b) = syncToken b"
  "service_table (upd i f b) = service_table b" "token (upd i f b) = token b"
  "signature (upd i f b) = signature b" "sock_ended (upd i f b) = sock_ended b"
  "sock_conn (upd i f b) = sock_conn b" "main_pc (upd i f b) = main_pc b"
  "closing (upd i f b) = closing b" "crashed (upd i f b) = crashed b"
  "heap (upd i f b) = (heap b)[i := f (heap b ! i)]"
  by (simp_all add: upd_def)

lemma close_transport_frame [bridge_frame]:
  "reader (close_transport t b) = reader b" "version (close_transport t b) = version b"
  "maxPayload (close_transport t b) = maxPayload b" "authorized (close_transport t b) = authorized b"
  "remoteIDs (close_transport t b) = remoteIDs b" "syncToken (close_transport t b) = syncToken b"
  "service_table (close_transport t b) = service_table b" "token (close_transport t b) = token b"
  "signature (close_transport t b) = signature b" "sock_ended (close_transport t b) = sock_ended b"
  "sock_conn (close_transport t b) = sock_conn b" "main_pc (close_transport t b) = main_pc b"
  "closing (close_transport t b) = closing b" "crashed (close_transport t b) = crashed b"
  "heap (close_transport t b) = heap b"
  by (simp_all add: close_transport_def split: option.split)

lemma service_End_frame [bridge_frame]:
  "reader (service_End i b) = reader b" "version (service_End i b) = version b"
  "maxPayload (service_End i b) = maxPayload b" "authorized (service_End i b) = authorized b"
  "remoteIDs (service_End i b) = remoteIDs b" "syncToken (service_End i b) = syncToken b"
  "service_table (service_End i b) = service_table b" "token (service_End i b) = token b"
  "signature (service_End i b) = signature b" "sock_ended (service_End i b) = sock_ended b"
  "main_pc (service_End i b) = main_pc b" "closing (service_End i b) = closing b"
  "crashed (service_End i b) = crashed b"
  "heap (service_End i b) = (if ended (heap b ! i) then heap b
     else (heap b)[i := (heap b ! i)\<lparr>transport := None, ended := True, endCh := True\<rparr>])"
  by (auto simp: service_End_def Let_def bridge_frame)
lemma bridge_self [simp]: "\<exists>c. b = b\<lparr>sock_conn := c\<rparr>" "\<exists>w. b = b\<lparr>net := w\<rparr>"
proof -
  show "\<exists>c. b = b\<lparr>sock_conn := c\<rparr>" by (rule exI [of _ "sock_conn b"]) simp
  show "\<exists>w. b = b\<lparr>net := w\<rparr>" by (rule exI [of _ "net b"]) simp
qed

lemma socket_Write_frame:
  "socket_Write d b = (r, b') \<Longrightarrow> \<exists>c. b' = b\<lparr>sock_conn := c\<rparr>"
  by (auto simp: socket_Write_def split: if_splits prod.splits result.splits)

lemma fold_service_End_frame [bridge_frame]:
  "reader (fold service_End is b) = reader b" "version (fold service_End is b) = version b"
  "maxPayload (fold service_End is b) = maxPayload b"
  "authorized (fold service_End is b) = authorized b"
  "remoteIDs (fold service_End is b) = remoteIDs b" "syncToken (fold service_End is b) = syncToken b"
  "service_table (fold service_End is b) = service_table b" "token (fold service_End is b) = token b"
  "signature (fold service_End is b) = signature b" "sock_ended (fold service_End is b) = sock_ended b"
  "main_pc (fold service_End is b) = main_pc b" "closing (fold service_End is b) = closing b"
  "crashed (fold service_End is b) = crashed b"
  "length (heap (fold service_End is b)) = length (heap b)"
  by (induction "is" arbitrary: b) (simp_all add: bridge_frame)

lemma on_net_frame: "on_net m b = (r, b') \<Longrightarrow> \<exists>w. b' = b\<lparr>net := w\<rparr> \<and> m (net b) = (r, w)"
  by (auto simp: on_net_def split: prod.splits)

lemma on_transport_frame:
  "on_transport i m b = (r, b') \<Longrightarrow> \<exists>w. b' = b\<lparr>net := w\<rparr>"
  by (auto simp: on_transport_def dest: on_net_frame split: option.splits)

section \<open>Who may talk to the device\<close>

text \<open>
  The accepted key, at the transition that authorizes the socket.
\<close>

definition accepts_key :: "config \<Rightarrow> (bridge, actor) transition \<Rightarrow> bool" where
  "accepts_key cfg t = (case t of (b, a, b') \<Rightarrow> a = Main \<and> (case main_pc b of
       MainDispatch p \<Rightarrow> Command p = A_AUTH \<and> Arg0 p = AUTH_RSAPUBLICKEY \<and> signature b \<noteq> [] \<and>
         2 \<le> length (Data p) \<and> authHandler cfg (Data p) = None
     | _ \<Rightarrow> False))"

definition locked :: "world \<Rightarrow> bridge \<Rightarrow> bool" where
  "locked w b \<longleftrightarrow> \<not> authorized b \<longrightarrow>
     net b = w \<and> heap b = [] \<and> services (service_table b) = Map.empty"

section \<open>What one dispatch does\<close>

definition quiet :: "bridge \<Rightarrow> bridge \<Rightarrow> bool" where
  "quiet b b' \<longleftrightarrow> net b' = net b \<and> heap b' = heap b \<and> service_table b' = service_table b \<and>
     authorized b' = authorized b \<and> sock_ended b' = sock_ended b \<and> closing b' = closing b \<and>
     crashed b' = crashed b \<and>
     (maxPayload b' = maxPayload b \<or> maxPayload b' \<le> UINT16_MAX)"

lemma sendCNXN_frame:
  "sendCNXN cfg ch b = (r, b') \<Longrightarrow>
   \<exists>w c r'. b' = b\<lparr>net := w, sock_conn := c\<rparr> \<and>
     device_Serial (cfg_device cfg) (serial_late ch) (net b) = (r', w) \<and>
     (\<forall>q. r' = Panic q \<longrightarrow> r = Panic q)"
proof -
  assume "sendCNXN cfg ch b = (r, b')"
  moreover obtain r' w where w: "device_Serial (cfg_device cfg) (serial_late ch) (net b) = (r', w)"
    by (cases "device_Serial (cfg_device cfg) (serial_late ch) (net b)")
  moreover have "\<exists>c. b\<lparr>net := w\<rparr> = b\<lparr>net := w, sock_conn := c\<rparr>"
    by (rule exI [of _ "sock_conn b"]) simp
  ultimately show ?thesis
    by (cases r') (auto simp: sendCNXN_def getDeviceID_def on_net_def andThen_def attempt_def ret_def
        Let_def dest!: socket_Write_frame)
qed

lemma handleAuthPacket_cases:
  assumes "handleAuthPacket cfg ch p b = (r, b')" and "\<not> quiet b b'"
  obtains w c r' where "b' = b\<lparr>authorized := True, net := w, sock_conn := c\<rparr>"
      "Arg0 p = AUTH_RSAPUBLICKEY" "signature b \<noteq> []" "2 \<le> length (Data p)"
      "authHandler cfg (Data p) = None"
      "device_Serial (cfg_device cfg) (serial_late ch) (net b) = (r', w)" "\<forall>q. r' = Panic q \<longrightarrow> r = Panic q"
proof -
  have "Arg0 p \<noteq> AUTH_SIGNATURE"
    using assms by (auto simp: handleAuthPacket_def Let_def quiet_def split: if_splits dest!: socket_Write_frame)
  with assms have k: "Arg0 p = AUTH_RSAPUBLICKEY" "signature b \<noteq> []" "2 \<le> length (Data p)"
    "authHandler cfg (Data p) = None" "sendCNXN cfg ch (b\<lparr>authorized := True\<rparr>) = (r, b')"
    by (auto simp: handleAuthPacket_def quiet_def split: if_splits option.splits)
  from sendCNXN_frame [OF k(5)] k that show thesis by auto
qed

lemma greeting_quiet:
  assumes "socket_handle cfg ch p b = (r, b')" and "Command p = A_SYNC \<or> Command p = A_CNXN"
  shows "quiet b b'"
  using assms by (auto simp: socket_handle_def command_defs handleSyncPacket_def handleConnectionPacket_def
      Let_def quiet_def split: prod.splits sum.splits if_splits dest!: socket_Write_frame)

lemma socket_handle_cases:
  assumes "socket_handle cfg ch p b = (r, b')"
  obtains (quiet) "quiet b b'"
  | (auth) w c r' where "b' = b\<lparr>authorized := True, net := w, sock_conn := c\<rparr>"
      "Command p = A_AUTH" "Arg0 p = AUTH_RSAPUBLICKEY" "signature b \<noteq> []" "2 \<le> length (Data p)"
      "authHandler cfg (Data p) = None"
      "device_Serial (cfg_device cfg) (serial_late ch) (net b) = (r', w)" "\<forall>q. r' = Panic q \<longrightarrow> r = Panic q"
  | (open_service) l rc t u where "authorized b" "rc_Next (remoteIDs b) = (l, rc)"
      "sm_Insert l (length (heap b)) (service_table b) = (Ok u, t)" "2 \<le> length (Data p)"
      "b' = b\<lparr>remoteIDs := rc, service_table := t,
         heap := heap b @ [new_proc l (Arg0 p) (Data p)]\<rparr>"
  | (service) i where "authorized b" "sm_Get (Arg1 p) (service_table b) = Some i"
      "service_Handle i p b = (r, b')"
proof (cases "quiet b b'")
  case False
  have "Command p \<noteq> A_SYNC" "Command p \<noteq> A_CNXN" using greeting_quiet [OF assms] False by auto
  moreover from this False have "Command p \<in> {A_OPEN, A_OKAY, A_WRTE, A_CLSE, A_AUTH}"
    using assms by (auto simp: socket_handle_def fail_def quiet_def split: if_splits)
  ultimately consider "handleOpenPacket p b = (r, b')" | "forwardServicePacket p b = (r, b')"
    | "Command p = A_AUTH" "handleAuthPacket cfg ch p b = (r, b')"
    using assms by (auto simp: socket_handle_def command_defs)
  then show thesis
  proof cases
    case 1
    with False open_service show thesis
      by (fastforce simp: handleOpenPacket_def Let_def quiet_def sm_Insert_def split: if_splits prod.splits)
  next
    case 2
    then show thesis
      using quiet service by (auto simp: forwardServicePacket_def quiet_def split: if_splits option.splits)
  next
    case 3
    from 3(2) False show thesis by (rule handleAuthPacket_cases) (use 3(1) auth in blast)
  qed
qed (rule quiet)

section \<open>What the service goroutines do to the socket\<close>

definition core :: "bridge \<Rightarrow> bool \<times> u32 \<times> bytes \<times> bool \<times> bool \<times> main_pc \<times> rolling_counter \<times> packet_reader" where
  "core b = (authorized b, maxPayload b, signature b, sock_ended b, closing b, main_pc b,
     remoteIDs b, reader b)"

lemma core_simps [simp]:
  "core (b\<lparr>net := w\<rparr>) = core b" "core (upd i f b) = core b" "core (send d b) = core b"
  "core (service_End i b) = core b" "core (close_transport t b) = core b"
  "core (crash q b) = core b" "core (goto i pc b) = core b" "core (fwd_goto i fp b) = core b"
  "core (b\<lparr>service_table := sm\<rparr>) = core b" "core (fold service_End is b) = core b"
  by (simp_all add: core_def bridge_frame crash_def goto_def fwd_goto_def)

lemma proceed_cases:
  obtains x b1 where "m b = (Ok x, b1)" "proceed i m k b = goto i (k x) b1"
  | e b1 where "m b = (Err e, b1)" "proceed i m k b = goto i OpenRemove b1"
  | q b1 where "m b = (Panic q, b1)" "proceed i m k b = crash q b1"
  by (cases "m b"; cases "fst (m b)") (auto simp: proceed_def)

lemma core_proceed:
  "(\<And>r b1. m b = (r, b1) \<Longrightarrow> core b1 = core b) \<Longrightarrow> core (proceed i m k b) = core b"
  by (rule proceed_cases [of m b i k]) auto

lemma core_on_net: "on_net m b = (r, b') \<Longrightarrow> core b' = core b"
  by (auto dest: on_net_frame)

lemma core_on_transport: "on_transport i m b = (r, b') \<Longrightarrow> core b' = core b"
  by (auto dest: on_transport_frame)

lemma core_open_step: "open_step cfg i b = Some b' \<Longrightarrow> core b' = core b"
  by (auto simp: open_step_def Let_def core_on_net core_on_transport
      intro!: core_proceed split: open_pc.splits if_splits)

lemma core_fwd_step: "fwd_step tick i b = Some b' \<Longrightarrow> core b' = core b"
  by (auto simp: fwd_step_def Let_def dest: core_on_net
      split: fwd_pc.splits if_splits option.splits prod.splits result.splits)

lemma core_service_Handle: "service_Handle i p b = (r, b') \<Longrightarrow> core b' = core b"
  by (auto simp: service_Handle_def handleOkayPacket_def handleWritePacket_def handleClosePacket_def
      Let_def fail_def ret_def andThen_def dest: core_on_net
      split: if_splits option.splits prod.splits result.splits)

section \<open>Authorization\<close>

lemma read_packet_step_no_panic: "read_packet_step s \<noteq> (Panic q, s')"
  by (auto simp: read_packet_step_def Let_def andThen_def appendChunk_cases conn_Read_def ret_def
      split: prod.splits if_splits list.splits)

lemma ReadPacket_no_panic: "ReadPacket s \<noteq> (Panic q, s')"
proof (induction s rule: ReadPacket.induct)
  case (1 s)
  show ?case
    using "1.IH" read_packet_step_no_panic [of s]
    by (subst ReadPacket.simps) (auto split: prod.splits result.splits option.splits)
qed

lemma main_step_cases:
  assumes "main_step cfg ch b = Some b'"
  obtains (read) r c rd pc where "main_pc b = MainRead" "ReadPacket (sock_conn b, reader b) = (r, (c, rd))"
      "b' = b\<lparr>sock_conn := c, reader := rd, main_pc := pc\<rparr>"
  | (check) p where "main_pc b = MainCheck p"
      "b' = b\<lparr>main_pc := (if sock_ended b then MainRead else MainDispatch p)\<rparr>"
  | (dispatch) p r b1 pc where "main_pc b = MainDispatch p" "socket_handle cfg ch p b = (r, b1)"
      "b' = b1\<lparr>main_pc := pc\<rparr> \<or> (\<exists>q. r = Panic q \<and> b' = crash q b1)"
  | (finish) e where "main_pc b = MainEnd e" "b' = (socket_End b)\<lparr>main_pc := MainDone e\<rparr>"
  using assms ReadPacket_no_panic
  by (auto simp: main_step_def Let_def split: main_pc.splits prod.splits result.splits)

text \<open>Steps that neither open a service nor authorize leave the authorization as it is.\<close>

lemma bstep_authorized:
  assumes "bstep cfg b a b'"
  shows "authorized b' = authorized b \<or> (\<not> authorized b \<and> authorized b' \<and> accepts_key cfg (b, a, b'))"
  using assms
proof cases
  case (step_main ch)
  from step_main(3) show ?thesis
  proof (cases rule: main_step_cases)
    case (dispatch p r b1 pc)
    from dispatch(2) have "authorized b1 = authorized b \<or>
        (\<not> authorized b \<and> authorized b1 \<and> accepts_key cfg (b, a, b'))"
    proof (cases rule: socket_handle_cases)
      case auth
      then show ?thesis using dispatch(1) step_main(1) by (auto simp: accepts_key_def)
    qed (auto simp: quiet_def dest!: core_service_Handle simp: core_def)
    with dispatch(3) show ?thesis by (auto simp: crash_def)
  qed (auto simp: socket_End_def)
next
  case (step_open i)
  then show ?thesis using core_open_step by (auto simp: core_def)
next
  case (step_fwd i tick)
  then show ?thesis using core_fwd_step by (auto simp: core_def)
qed (auto simp: socket_End_def closing_step_def sm_End_def Let_def bridge_frame)

lemma bstep_locked:
  assumes "locked w b" and "bstep cfg b a b'"
  shows "locked w b'"
proof (cases "authorized b'")
  case False
  with bstep_authorized [OF assms(2)] have na: "\<not> authorized b" by auto
  with assms(1) have b: "net b = w" "heap b = []" "services (service_table b) = Map.empty"
    by (auto simp: locked_def)
  from assms(2) show ?thesis
  proof cases
    case (step_main ch)
    from step_main(3) show ?thesis
    proof (cases rule: main_step_cases)
      case (dispatch p r b1 pc)
      from dispatch(2) show ?thesis
      proof (cases rule: socket_handle_cases)
        case quiet
        then show ?thesis using b dispatch(3) by (auto simp: quiet_def locked_def crash_def)
      qed (use na False dispatch(3) in \<open>auto simp: crash_def\<close>)
    qed (use b in \<open>auto simp: locked_def socket_End_def\<close>)
  next
    case (step_close order)
    then show ?thesis using b by (auto simp: locked_def closing_step_def sm_End_def NewServiceMap_def)
  qed (use b in \<open>auto simp: locked_def socket_End_def\<close>)
qed (simp add: locked_def)

interpretation locked_inv: invariant "bstep cfg" "locked w" for cfg w
  by unfold_locales (rule bstep_locked)

lemma run_authorized:
  assumes "run (bstep cfg) b0 tr b" and "\<not> authorized b0" and "authorized b"
  shows "\<exists>t \<in> set tr. accepts_key cfg t"
  using assms
proof (induction rule: run.induct)
  case (run_snoc s tr s1 a s2)
  then show ?case using bstep_authorized [OF run_snoc.hyps(2)] by auto
qed simp

text \<open>C1: whatever the client sends and however the goroutines interleave, as long as the socket
  is not authorized no connection to the adb server has been dialled, no byte has gone to a
  device and no service exists; and a socket is only ever authorized by an \<^verbatim>\<open>AUTH\<close> packet with
  a public key of at least two bytes that the handler accepts, received after a signature.\<close>

theorem unauthorized_client_is_locked_out:
  assumes "run (bstep cfg) (NewSocket w c) tr b"
  shows "(\<not> authorized b \<longrightarrow> net b = w \<and> heap b = [] \<and> (\<forall>k. sm_Get k (service_table b) = None)) \<and>
     (authorized b \<longrightarrow> (\<exists>t \<in> set tr. accepts_key cfg t))"
proof -
  have "locked w (NewSocket w c)" by (simp add: locked_def NewSocket_def NewServiceMap_def)
  with assms have "locked w b" by (rule locked_inv.run_inv)
  with run_authorized [OF assms] show ?thesis by (auto simp: locked_def sm_Get_def NewSocket_def)
qed

theorem unauthorized_client_is_locked_out_witness:
  "\<exists>tr. run (bstep demo_cfg) demo_start tr (demo_data []) \<and> (\<exists>t \<in> set tr. accepts_key demo_cfg t)"
proof -
  obtain tr where tr: "run (bstep demo_cfg) demo_start tr (demo_data [])" using demo_run by blast
  from unauthorized_client_is_locked_out [OF tr] tr show ?thesis
    by (auto simp: demo_data_def demo_opening_def demo_ready_def Let_def)
qed

section \<open>Well-formed services\<close>

text \<open>
  How the fields of a service and the program counters of its two goroutines fit together.
  The last line is what flow control rests on: while the forwarder is reading or about to
  send, nothing is waiting for an acknowledgement.
\<close>

fun opener_left :: "open_pc \<Rightarrow> bool" where
  "opener_left OpenWait = True"
| "opener_left OpenRemove = True"
| "opener_left OpenEnd = True"
| "opener_left OpenDone = True"
| "opener_left _ = False"

fun fwd_pc_ok :: "proc \<Rightarrow> fwd_pc \<Rightarrow> bool" where
  "fwd_pc_ok s FwdIdle = (\<not> opened s \<and> \<not> doneCh s \<and> open_pc s \<noteq> OpenWait)"
| "fwd_pc_ok s (FwdRead t n) =
     (opened s \<and> \<not> doneCh s \<and> open_pc s = OpenWait \<and> \<not> needAck s \<and> n \<le> 65535)"
| "fwd_pc_ok s (FwdSend d) =
     (opened s \<and> \<not> doneCh s \<and> open_pc s = OpenWait \<and> \<not> needAck s \<and> d \<noteq> [] \<and> length d \<le> 65535)"
| "fwd_pc_ok s FwdSignal = (opened s \<and> \<not> doneCh s \<and> open_pc s = OpenWait \<and> ended s)"
| "fwd_pc_ok s FwdDone = (opened s \<and> doneCh s \<and> opener_left (open_pc s) \<and> ended s)"
| "fwd_pc_ok s _ = (opened s \<and> \<not> doneCh s \<and> open_pc s = OpenWait)"

fun open_pc_ok :: "proc \<Rightarrow> open_pc \<Rightarrow> bool" where
  "open_pc_ok s (OpenDial d) = (transport s = None \<and> 2 \<le> length d)"
| "open_pc_ok s (OpenInstall d t) = (transport s = None \<and> 2 \<le> length d)"
| "open_pc_ok s (OpenWrite d) = (2 \<le> length d)"
| "open_pc_ok s OpenDone = ended s"
| "open_pc_ok s _ = True"

definition proc_ok :: "proc \<Rightarrow> bool" where
  "proc_ok s \<longleftrightarrow> (endCh s \<longleftrightarrow> ended s) \<and> (ended s \<longrightarrow> transport s = None) \<and>
     open_pc_ok s (open_pc s) \<and> fwd_pc_ok s (fwd_pc s)"

lemma new_proc_ok [simp]: "2 \<le> length d \<Longrightarrow> proc_ok (new_proc l r d)"
  by (simp add: proc_ok_def)

definition ended_proc :: "proc \<Rightarrow> proc" where
  "ended_proc s = (if ended s then s else s\<lparr>transport := None, ended := True, endCh := True\<rparr>)"

lemma ended_proc_fields [simp]:
  "localID (ended_proc s) = localID s" "remoteID (ended_proc s) = remoteID s"
  "needAck (ended_proc s) = needAck s" "open_pc (ended_proc s) = open_pc s"
  "fwd_pc (ended_proc s) = fwd_pc s" "opened (ended_proc s) = opened s"
  "doneCh (ended_proc s) = doneCh s" "ended (ended_proc s)"
  by (simp_all add: ended_proc_def)

lemma fwd_pc_ok_ended:
  "fwd_pc_ok s pc \<Longrightarrow> fwd_pc_ok (ended_proc s) pc"
  by (cases pc) (simp_all add: ended_proc_def)

lemma open_pc_ok_ended:
  "open_pc_ok s pc \<Longrightarrow> open_pc_ok (ended_proc s) pc"
  by (cases pc) (simp_all add: ended_proc_def)

lemma proc_ok_ended [simp]: "proc_ok s \<Longrightarrow> proc_ok (ended_proc s)"
  using fwd_pc_ok_ended open_pc_ok_ended by (auto simp: proc_ok_def) (simp_all add: ended_proc_def)

lemma heap_service_End: "heap (service_End i b) = (heap b)[i := ended_proc (heap b ! i)]"
  by (simp add: bridge_frame ended_proc_def)

lemma nth_heap_fold_End:
  "j < length (heap b) \<Longrightarrow> heap (fold service_End is b) ! j =
     (if j \<in> set is then ended_proc (heap b ! j) else heap b ! j)"
proof (induction "is" arbitrary: b)
  case (Cons i "is")
  have idem: "ended_proc (ended_proc s) = ended_proc s" for s by (simp add: ended_proc_def)
  show ?case using Cons by (cases "i = j") (simp_all add: heap_service_End idem)
qed simp

section \<open>One step, one service\<close>

text \<open>
  \<open>only_changes i b b'\<close>: the heap of \<open>b'\<close> is that of \<open>b\<close> but for service \<open>i\<close>, which keeps its
  identifiers and stays well-formed.
\<close>

definition only_changes :: "service_ref \<Rightarrow> bridge \<Rightarrow> bridge \<Rightarrow> bool" where
  "only_changes i b b' \<longleftrightarrow>
     (\<exists>s. heap b' = (heap b)[i := s] \<and> localID s = localID (heap b ! i) \<and>
        remoteID s = remoteID (heap b ! i) \<and> (ended (heap b ! i) \<longrightarrow> ended s) \<and>
        (opened (heap b ! i) \<longrightarrow> opened s) \<and> (proc_ok (heap b ! i) \<longrightarrow> proc_ok s))"

lemma only_changes_same [simp]: "heap b' = heap b \<Longrightarrow> only_changes i b b'"
  by (auto simp: only_changes_def intro!: exI [of _ "heap b ! i"])

lemma only_changesI:
  "heap b' = (heap b)[i := s] \<Longrightarrow> localID s = localID (heap b ! i) \<Longrightarrow>
   remoteID s = remoteID (heap b ! i) \<Longrightarrow> (ended (heap b ! i) \<Longrightarrow> ended s) \<Longrightarrow>
   (opened (heap b ! i) \<Longrightarrow> opened s) \<Longrightarrow> (proc_ok (heap b ! i) \<Longrightarrow> proc_ok s) \<Longrightarrow> only_changes i b b'"
  by (auto simp: only_changes_def)

lemma only_changes_End: "only_changes i b (service_End i b)"
  by (auto simp: only_changes_def heap_service_End intro!: exI [of _ "ended_proc (heap b ! i)"])

lemma heap_goto [simp]:
  "heap (goto i pc b) = (heap b)[i := (heap b ! i)\<lparr>open_pc := pc\<rparr>]"
  "heap (fwd_goto i fp b) = (heap b)[i := (heap b ! i)\<lparr>fwd_pc := fp\<rparr>]"
  "heap (crash q b) = heap b"
  by (simp_all add: goto_def fwd_goto_def crash_def bridge_frame)

lemma heap_on_net: "on_net m b = (r, b') \<Longrightarrow> heap b' = heap b"
  by (auto dest: on_net_frame)

lemma heap_on_transport: "on_transport i m b = (r, b') \<Longrightarrow> heap b' = heap b"
  by (auto dest: on_transport_frame)

lemma only_changes_goto:
  assumes "heap b1 = heap b"
    and "proc_ok (heap b ! i) \<Longrightarrow> proc_ok ((heap b ! i)\<lparr>open_pc := pc\<rparr>)"
  shows "only_changes i b (goto i pc b1)"
  using assms by (auto simp: only_changes_def intro!: exI [of _ "(heap b ! i)\<lparr>open_pc := pc\<rparr>"])

lemma only_changes_proceed:
  assumes "\<And>r b1. m b = (r, b1) \<Longrightarrow> heap b1 = heap b"
    and "\<And>x. proc_ok (heap b ! i) \<Longrightarrow> proc_ok ((heap b ! i)\<lparr>open_pc := k x\<rparr>)"
    and "proc_ok (heap b ! i) \<Longrightarrow> proc_ok ((heap b ! i)\<lparr>open_pc := OpenRemove\<rparr>)"
  shows "only_changes i b (proceed i m k b)"
  using assms by (rule_tac proceed_cases [of m b i k]) (auto intro!: only_changes_goto)

lemma fwd_pc_ok_open_pc:
  "fwd_pc_ok s pc \<Longrightarrow> open_pc s \<noteq> OpenWait \<Longrightarrow> \<not> opener_left (open_pc s) \<Longrightarrow> pc' \<noteq> OpenWait \<Longrightarrow>
   fwd_pc_ok (s\<lparr>open_pc := pc'\<rparr>) pc"
  by (cases pc) simp_all

lemma open_pc_ok_pc [simp]:
  "open_pc_ok (s\<lparr>open_pc := x\<rparr>) pc = open_pc_ok s pc" "open_pc_ok (s\<lparr>fwd_pc := y\<rparr>) pc = open_pc_ok s pc"
  by (cases pc; simp)+

lemma fwd_pc_ok_pc [simp]: "fwd_pc_ok (s\<lparr>fwd_pc := y\<rparr>) fp = fwd_pc_ok s fp"
  by (cases fp) simp_all

lemma proc_ok_open_pc:
  assumes "proc_ok s" and "\<not> opener_left (open_pc s)" and "pc \<noteq> OpenWait" and "open_pc_ok s pc"
  shows "proc_ok (s\<lparr>open_pc := pc\<rparr>)"
proof -
  have "open_pc s \<noteq> OpenWait" using assms(2) by auto
  with assms show ?thesis by (simp add: proc_ok_def fwd_pc_ok_open_pc)
qed

lemma proc_ok_leave:
  assumes "proc_ok s" and "opener_left (open_pc s)" and "open_pc s = OpenWait \<longrightarrow> doneCh s"
    and "opener_left pc" and "pc \<noteq> OpenWait" and "open_pc_ok s pc"
  shows "proc_ok (s\<lparr>open_pc := pc\<rparr>)"
  using assms by (cases "fwd_pc s") (auto simp: proc_ok_def)

lemma only_changes_open_step:
  assumes step: "open_step cfg i b = Some b'" and i: "i < length (heap b)"
  shows "only_changes i b b'"
proof (cases "open_pc (heap b ! i)")
  case (OpenInstall d t)
  let ?s = "(heap b ! i)\<lparr>transport := Some t, open_pc := OpenWrite d\<rparr>"
  have "proc_ok (heap b ! i) \<Longrightarrow> \<not> ended (heap b ! i) \<Longrightarrow> proc_ok ?s"
    using OpenInstall by (cases "fwd_pc (heap b ! i)") (auto simp: proc_ok_def)
  with OpenInstall step i have "\<not> ended (heap b ! i) \<Longrightarrow> only_changes i b b'"
    by (auto simp: open_step_def bridge_frame intro!: only_changesI [of _ _ _ ?s])
  moreover have "ended (heap b ! i) \<Longrightarrow> only_changes i b b'"
    using OpenInstall step
    by (auto simp: open_step_def bridge_frame intro!: only_changes_goto proc_ok_open_pc)
  ultimately show ?thesis by blast
next
  case OpenForward
  let ?s = "(heap b ! i)\<lparr>opened := True, fwd_pc := FwdTop, open_pc := OpenWait\<rparr>"
  have "proc_ok (heap b ! i) \<Longrightarrow> proc_ok ?s"
    using OpenForward by (cases "fwd_pc (heap b ! i)") (auto simp: proc_ok_def)
  with OpenForward step i show ?thesis
    by (auto simp: open_step_def bridge_frame intro!: only_changesI [of _ _ _ ?s])
next
  case OpenEnd
  with step i show ?thesis
    by (auto simp: open_step_def heap_service_End intro!: proc_ok_leave
        only_changesI [of _ _ _ "(ended_proc (heap b ! i))\<lparr>open_pc := OpenDone\<rparr>"])
next
  case (OpenDial d)
  with step show ?thesis
    by (auto simp: open_step_def proc_ok_def dest: heap_on_net intro!: only_changes_proceed proc_ok_open_pc)
next
  case OpenWait
  with step show ?thesis
    by (auto simp: open_step_def Wait_returns_def intro!: only_changes_goto proc_ok_leave split: if_splits)
next
  case OpenRemove
  with step show ?thesis by (auto simp: open_step_def Let_def intro!: only_changes_goto proc_ok_leave)
qed (use step in \<open>auto simp: open_step_def Let_def bridge_frame intro!: only_changes_proceed only_changes_goto
  proc_ok_open_pc dest: heap_on_transport split: if_splits\<close>)

lemma conn_Read_length: "conn_Read n c = (Ok d, c') \<Longrightarrow> length d \<le> n"
  by (auto simp: conn_Read_def split: if_splits list.splits)

lemma on_net_conn_Read_length:
  "on_net (on_conn t (conn_Read n)) b = (Ok d, b') \<Longrightarrow> length d \<le> n"
  by (auto simp: on_net_def on_conn_def dest: conn_Read_length split: prod.splits if_splits)

lemma payload_size_le: "maxPayload b \<le> UINT16_MAX \<Longrightarrow> payload_size b \<le> 65535"
  by (auto simp: payload_size_def MaxPayload_def Let_def word_le_nat_alt word_less_nat_alt)

lemma only_changes_fwd_goto:
  assumes "heap b1 = heap b"
    and "proc_ok (heap b ! i) \<Longrightarrow> proc_ok ((heap b ! i)\<lparr>fwd_pc := pc\<rparr>)"
  shows "only_changes i b (fwd_goto i pc b1)"
  using assms by (auto simp: only_changes_def intro!: exI [of _ "(heap b ! i)\<lparr>fwd_pc := pc\<rparr>"])

lemma only_changes_fwd_read:
  assumes step: "fwd_step tick i b = Some b'" and pc: "fwd_pc (heap b ! i) = FwdRead t n"
  shows "only_changes i b b'"
proof -
  obtain r b1 where r: "on_net (on_conn t (conn_Read n)) b = (r, b1)"
    by (cases "on_net (on_conn t (conn_Read n)) b")
  then have "length d \<le> n" if "r = Ok d" for d using that by (auto dest: on_net_conn_Read_length)
  with step r pc heap_on_net [OF r] show ?thesis
    by (cases r) (auto simp: fwd_step_def proc_ok_def intro!: only_changes_fwd_goto)
qed

lemma only_changes_fwd_step:
  assumes step: "fwd_step tick i b = Some b'" and i: "i < length (heap b)"
    and size: "maxPayload b \<le> UINT16_MAX"
  shows "only_changes i b b'"
proof (cases "fwd_pc (heap b ! i)")
  case FwdTop
  with step payload_size_le [OF size] show ?thesis
    by (auto simp: fwd_step_def Let_def proc_ok_def intro!: only_changes_fwd_goto
        split: if_splits option.splits)
next
  case (FwdRead t n)
  with step show ?thesis by (rule only_changes_fwd_read)
next
  case (FwdSend d)
  let ?s = "(heap b ! i)\<lparr>needAck := True, fwd_pc := FwdTop\<rparr>"
  from FwdSend have "proc_ok (heap b ! i) \<Longrightarrow> proc_ok ?s"
    by (cases "open_pc (heap b ! i)") (auto simp: proc_ok_def)
  moreover have "heap b' = (heap b)[i := ?s]" if "\<not> ended (heap b ! i)"
    using that FwdSend step i by (auto simp: fwd_step_def Let_def bridge_frame)
  moreover have "only_changes i b b'" if "ended (heap b ! i)"
    using that FwdSend step
    by (auto simp: fwd_step_def proc_ok_def intro!: only_changes_fwd_goto)
  ultimately show ?thesis by (cases "ended (heap b ! i)") (auto intro: only_changesI [of _ _ _ ?s])
next
  case FwdEnd
  with step i proc_ok_ended [of "heap b ! i"] show ?thesis
    by (auto simp: fwd_step_def heap_service_End proc_ok_def
        intro!: only_changesI [of _ _ _ "(ended_proc (heap b ! i))\<lparr>fwd_pc := FwdSignal\<rparr>"])
next
  case FwdSignal
  with step i show ?thesis
    by (auto simp: fwd_step_def bridge_frame proc_ok_def
        intro!: only_changesI [of _ _ _ "(heap b ! i)\<lparr>doneCh := True, fwd_pc := FwdDone\<rparr>"])
qed (use step in \<open>auto simp: fwd_step_def Let_def proc_ok_def intro!: only_changes_fwd_goto split: if_splits\<close>)

lemma service_Handle_heap:
  assumes "service_Handle i p b = (r, b')"
  shows "heap b' = heap b \<or>
     (Command p = A_OKAY \<and> \<not> ended (heap b ! i) \<and> heap b' = (heap b)[i := (heap b ! i)\<lparr>needAck := False\<rparr>]) \<or>
     (Command p = A_CLSE \<and> b' = service_End i b)"
  using assms
  by (auto simp: service_Handle_def handleOkayPacket_def handleWritePacket_def handleClosePacket_def
      Let_def fail_def ret_def andThen_def bridge_frame dest: heap_on_net
      split: if_splits option.splits prod.splits result.splits)

lemma only_changes_service_Handle:
  assumes "service_Handle i p b = (r, b')"
  shows "only_changes i b b'"
proof -
  let ?s = "(heap b ! i)\<lparr>needAck := False\<rparr>"
  have "proc_ok (heap b ! i) \<Longrightarrow> proc_ok ?s"
    by (cases "fwd_pc (heap b ! i)"; cases "open_pc (heap b ! i)") (auto simp: proc_ok_def)
  then show ?thesis
    using service_Handle_heap [OF assms] only_changes_End
    by (auto intro: only_changesI [of _ _ _ ?s])
qed

section \<open>The table and the live services\<close>

text \<open>
  \<open>slots b\<close>: of each service ever created, its identifier and whether its goroutine has
  already taken it out of the table.
\<close>

fun removed :: "open_pc \<Rightarrow> bool" where
  "removed OpenEnd = True"
| "removed OpenDone = True"
| "removed _ = False"

definition slots :: "bridge \<Rightarrow> (u32 \<times> bool) list" where
  "slots b = map (\<lambda>s. (localID s, removed (open_pc s))) (heap b)"

definition table_ok :: "bool \<Rightarrow> service_map \<Rightarrow> (u32 \<times> bool) list \<Rightarrow> bool" where
  "table_ok cleaned sm sl \<longleftrightarrow> sm_ok sm \<and>
     (\<forall>k i. sm_Get k sm = Some i \<longrightarrow> i < length sl \<and> sl ! i = (k, False)) \<and>
     (\<not> cleaned \<longrightarrow> (\<forall>i k. i < length sl \<longrightarrow> sl ! i = (k, False) \<longrightarrow> sm_Get k sm = Some i))"

lemma table_ok_entry:
  "table_ok cl sm sl \<Longrightarrow> sm_Get k sm = Some i \<Longrightarrow> i < length sl \<and> sl ! i = (k, False)"
  by (simp add: table_ok_def)

lemma table_ok_live:
  "table_ok cl sm sl \<Longrightarrow> \<not> cl \<Longrightarrow> i < length sl \<Longrightarrow> sl ! i = (k, False) \<Longrightarrow> sm_Get k sm = Some i"
  unfolding table_ok_def by blast

lemma table_ok_insert:
  assumes "table_ok cl sm sl" and "sm_Insert l (length sl) sm = (Ok u, sm')"
  shows "table_ok cl sm' (sl @ [(l, False)])"
proof -
  note ins = sm.insert_Ok [OF _ assms(2)]
  from assms(1) have ok: "sm_ok sm" by (simp add: table_ok_def)
  note ins = ins [OF this]
  show ?thesis unfolding table_ok_def
  proof (intro conjI allI impI)
    fix k i assume "sm_Get k sm' = Some i"
    with ins(3) [of k] table_ok_entry [OF assms(1), of k i]
    show "i < length (sl @ [(l, False)])" "(sl @ [(l, False)]) ! i = (k, False)"
      by (auto simp: nth_append split: if_splits)
  next
    fix i k assume "\<not> cl" "i < length (sl @ [(l, False)])" "(sl @ [(l, False)]) ! i = (k, False)"
    with ins(1) ins(3) [of k] table_ok_live [OF assms(1), of i k] show "sm_Get k sm' = Some i"
      by (auto simp: nth_append split: if_splits)
  qed (rule ins(2))
qed

lemma table_ok_remove:
  assumes "table_ok cl sm sl" and "i < length sl" and "sl ! i = (l, False)"
  shows "table_ok cl (snd (sm_Remove l sm)) (sl[i := (l, True)])"
  unfolding table_ok_def
proof (intro conjI allI impI)
  from assms(1) show "sm_ok (snd (sm_Remove l sm))" by (simp add: table_ok_def sm.remove_ok)
next
  fix k j assume j: "sm_Get k (snd (sm_Remove l sm)) = Some j"
  then have "k \<noteq> l" "sm_Get k sm = Some j" by (auto simp: sm.remove_lookup split: if_splits)
  with table_ok_entry [OF assms(1)] have "j < length sl" "sl ! j = (k, False)" by auto
  with \<open>k \<noteq> l\<close> assms(3) show "j < length (sl[i := (l, True)])" "sl[i := (l, True)] ! j = (k, False)"
    by (auto simp: nth_upd)
next
  fix j k assume "\<not> cl" "j < length (sl[i := (l, True)])" "sl[i := (l, True)] ! j = (k, False)"
  then have j: "j \<noteq> i" "j < length sl" "sl ! j = (k, False)"
    by (auto simp: nth_upd split: if_splits)
  then have "sm_Get k sm = Some j" using table_ok_live [OF assms(1) \<open>\<not> cl\<close>] by blast
  moreover have "sm_Get l sm = Some i" using table_ok_live [OF assms(1) \<open>\<not> cl\<close>] assms(2,3) by blast
  ultimately show "sm_Get k (snd (sm_Remove l sm)) = Some j"
    using j(1) by (auto simp: sm.remove_lookup)
qed

lemma table_ok_weaken: "table_ok cl sm sl \<Longrightarrow> (cl \<longrightarrow> cl') \<Longrightarrow> table_ok cl' sm sl"
  by (auto simp: table_ok_def)

lemma slots_update:
  "heap b' = (heap b)[i := s] \<Longrightarrow> localID s = localID (heap b ! i) \<Longrightarrow>
   removed (open_pc s) = removed (open_pc (heap b ! i)) \<Longrightarrow> slots b' = slots b"
  by (simp add: slots_def map_upd_same)

lemma slots_service_End [simp]: "slots (service_End i b) = slots b"
  by (rule slots_update [of _ _ i "ended_proc (heap b ! i)"]) (simp_all add: heap_service_End)

lemma slots_fold_End [simp]: "slots (fold service_End is b) = slots b"
  by (induction "is" arbitrary: b) simp_all

lemma slots_simps [simp]:
  "slots (b\<lparr>net := w\<rparr>) = slots b" "slots (send d b) = slots b" "slots (crash q b) = slots b"
  "slots (b\<lparr>main_pc := pc\<rparr>) = slots b" "slots (b\<lparr>service_table := t\<rparr>) = slots b"
  "slots (close_transport t' b) = slots b" "slots (fwd_goto i fp b) = slots b"
  by (simp_all add: slots_def bridge_frame crash_def map_upd_same)

lemma slots_goto: "slots (goto i pc b) = (slots b)[i := (localID (heap b ! i), removed pc)]"
  by (simp add: slots_def map_update)

lemma slots_goto_same:
  "removed pc = removed (open_pc (heap b ! i)) \<Longrightarrow> slots (goto i pc b) = slots b"
  by (rule slots_update [of _ _ i "(heap b ! i)\<lparr>open_pc := pc\<rparr>"]) simp_all

lemma table_simps [simp]:
  "service_table (goto i pc b) = service_table b" "service_table (fwd_goto i fp b) = service_table b"
  "service_table (crash q b) = service_table b" "service_table (send d b) = service_table b"
  "service_table (service_End i b) = service_table b"
  "service_table (close_transport t b) = service_table b" "service_table (upd i f b) = service_table b"
  by (simp_all add: goto_def fwd_goto_def crash_def bridge_frame)

definition listing :: "bridge \<Rightarrow> service_map \<times> (u32 \<times> bool) list" where
  "listing b = (service_table b, slots b)"

lemma listing_on_net: "on_net m b = (r, b') \<Longrightarrow> listing b' = listing b"
  by (auto simp: listing_def dest: on_net_frame)

lemma listing_on_transport: "on_transport i m b = (r, b') \<Longrightarrow> listing b' = listing b"
  by (auto simp: listing_def dest: on_transport_frame)

lemma listing_proceed:
  assumes "\<And>r b1. m b = (r, b1) \<Longrightarrow> listing b1 = listing b \<and> heap b1 = heap b"
    and "\<not> removed (open_pc (heap b ! i))" and "\<And>x. \<not> removed (k x)"
  shows "listing (proceed i m k b) = listing b"
  using assms by (rule_tac proceed_cases [of m b i k]) (auto simp: listing_def slots_goto_same)

lemma open_step_listing:
  assumes "open_step cfg i b = Some b'" and i: "i < length (heap b)"
  shows "listing b' = listing b \<or>
    (open_pc (heap b ! i) = OpenRemove \<and>
     service_table b' = snd (sm_Remove (localID (heap b ! i)) (service_table b)) \<and>
     slots b' = (slots b)[i := (localID (heap b ! i), True)])"
proof (cases "open_pc (heap b ! i) = OpenRemove")
  case True
  with assms(1) show ?thesis by (auto simp: open_step_def Let_def slots_goto)
next
  case False
  have same: "slots (upd i f b) = slots b"
    if "\<And>s. localID (f s) = localID s" "\<And>s. open_pc (f s) = open_pc s" for f
    by (rule slots_update [of _ _ i "f (heap b ! i)"]) (simp_all add: that bridge_frame)
  from False assms(1) i have "listing b' = listing b"
    by (cases "open_pc (heap b ! i)")
      (auto simp: open_step_def Let_def listing_on_net listing_on_transport heap_on_net
        heap_on_transport intro!: listing_proceed split: if_splits,
       (auto simp: listing_def bridge_frame slots_goto_same same nth_upd)+)
  then show ?thesis by simp
qed

lemma fwd_step_listing: "fwd_step tick i b = Some b' \<Longrightarrow> listing b' = listing b"
proof -
  assume step: "fwd_step tick i b = Some b'"
  have same: "slots (upd i f b1) = slots b1"
    if "\<And>s. localID (f s) = localID s" "\<And>s. open_pc (f s) = open_pc s" for f b1
    by (rule slots_update [of _ _ i "f (heap b1 ! i)"]) (simp_all add: that bridge_frame)
  from step show ?thesis
    by (auto simp: fwd_step_def Let_def listing_def same dest!: listing_on_net
        split: fwd_pc.splits if_splits option.splits prod.splits result.splits)
qed

lemma service_Handle_listing:
  assumes "service_Handle i p b = (r, b')"
  shows "listing b' = listing b"
proof -
  have "slots b' = slots b"
    using service_Handle_heap [OF assms]
    by (auto simp: slots_def map_upd_same slots_service_End [unfolded slots_def])
  moreover have "service_table b' = service_table b"
    using assms
    by (auto simp: service_Handle_def handleOkayPacket_def handleWritePacket_def handleClosePacket_def
        Let_def fail_def ret_def andThen_def dest: on_net_frame
        split: if_splits option.splits prod.splits result.splits)
  ultimately show ?thesis by (simp add: listing_def)
qed

section \<open>The invariant of the bridge\<close>

definition cleaned :: "bridge \<Rightarrow> bool" where
  "cleaned b \<longleftrightarrow> sock_ended b \<and> \<not> closing b"

definition bridge_ok :: "bridge \<Rightarrow> bool" where
  "bridge_ok b \<longleftrightarrow> list_all proc_ok (heap b) \<and> maxPayload b \<le> UINT16_MAX \<and>
     (closing b \<longrightarrow> sock_ended b) \<and> table_ok (cleaned b) (service_table b) (slots b)"

lemma bridge_ok_NewSocket: "bridge_ok (NewSocket w c)"
  by (simp add: bridge_ok_def NewSocket_def cleaned_def table_ok_def slots_def NewServiceMap_def
      sm_ok_def sm_Get_def)

lemma list_all_update: "list_all P xs \<Longrightarrow> P x \<Longrightarrow> list_all P (xs[i := x])"
  by (auto simp: list_all_iff dest!: subsetD [OF set_update_subset_insert])

lemma only_changes_ok:
  assumes "only_changes i b b'" and "list_all proc_ok (heap b)" and "i < length (heap b)"
  shows "list_all proc_ok (heap b')"
proof -
  from assms(2,3) have "proc_ok (heap b ! i)" by (simp add: list_all_length)
  with assms show ?thesis by (auto simp: only_changes_def intro: list_all_update)
qed

lemma bridge_ok_only:
  assumes "bridge_ok b" and "only_changes i b b'" and "i < length (heap b)" and "core b' = core b"
    and "listing b' = listing b"
  shows "bridge_ok b'"
  using assms only_changes_ok [OF assms(2)]
  by (auto simp: bridge_ok_def core_def listing_def cleaned_def)

lemma dispatch_ok:
  assumes "bridge_ok b" and "socket_handle cfg ch p b = (r, b')"
  shows "bridge_ok b'"
  using assms(2)
proof (cases rule: socket_handle_cases)
  case quiet
  with assms(1) show ?thesis by (auto simp: bridge_ok_def quiet_def cleaned_def slots_def)
next
  case auth
  with assms(1) show ?thesis by (simp add: bridge_ok_def cleaned_def slots_def)
next
  case (open_service l rc t u)
  from assms(1) have "table_ok (cleaned b) (service_table b) (slots b)" by (simp add: bridge_ok_def)
  moreover have "length (slots b) = length (heap b)" by (simp add: slots_def)
  ultimately have "table_ok (cleaned b) t (slots b @ [(l, False)])"
    using open_service(3) by (simp add: table_ok_insert)
  with open_service assms(1) show ?thesis by (simp add: bridge_ok_def cleaned_def slots_def)
next
  case (service i)
  from assms(1) service(2) have "i < length (heap b)"
    by (auto simp: bridge_ok_def slots_def dest: table_ok_entry)
  with assms(1) service(3) show ?thesis
    using only_changes_service_Handle core_service_Handle service_Handle_listing
    by (blast intro: bridge_ok_only)
qed

lemma bridge_ok_simps [simp]:
  "bridge_ok (b\<lparr>main_pc := pc\<rparr>) = bridge_ok b" "bridge_ok (crash q b) = bridge_ok b"
  "bridge_ok (b\<lparr>sock_conn := c, reader := rd\<rparr>) = bridge_ok b"
  "bridge_ok (b\<lparr>sock_conn := c, reader := rd, main_pc := pc\<rparr>) = bridge_ok b"
  by (simp_all add: bridge_ok_def cleaned_def slots_def crash_def)

lemma socket_End_ok: "bridge_ok b \<Longrightarrow> bridge_ok (socket_End b)"
  by (auto simp: bridge_ok_def socket_End_def cleaned_def slots_def intro: table_ok_weaken)

lemma closing_step_ok:
  assumes "bridge_ok b" and "closing b"
  shows "bridge_ok (closing_step order b)"
proof -
  have "list_all proc_ok (heap (fold service_End order b))"
    using assms(1) by (auto simp: bridge_ok_def list_all_length nth_heap_fold_End bridge_frame)
  moreover have "table_ok True NewServiceMap sl" for sl
    by (simp add: table_ok_def NewServiceMap_def sm_ok_def sm_Get_def)
  moreover have "cleaned (closing_step order b) = sock_ended b"
    by (simp add: cleaned_def closing_step_def sm_End_def Let_def bridge_frame)
  moreover have "sock_ended b" using assms by (simp add: bridge_ok_def)
  ultimately show ?thesis
    using assms(1) by (simp add: bridge_ok_def closing_step_def sm_End_def Let_def bridge_frame)
qed

lemma bstep_ok:
  assumes "bridge_ok b" and "bstep cfg b a b'"
  shows "bridge_ok b'"
  using assms(2)
proof cases
  case (step_main ch)
  from step_main(3) show ?thesis
  proof (cases rule: main_step_cases)
    case (dispatch p r b1 pc)
    then show ?thesis using dispatch_ok [OF assms(1) dispatch(2)] by auto
  next
    case (check p)
    then show ?thesis using assms(1) by simp
  qed (use assms(1) socket_End_ok in simp_all)
next
  case (step_open i)
  note changes = only_changes_open_step [OF step_open(4,3)]
  from open_step_listing [OF step_open(4,3)] show ?thesis
  proof
    assume "listing b' = listing b"
    with bridge_ok_only [OF assms(1) changes step_open(3) core_open_step [OF step_open(4)]]
    show ?thesis .
  next
    assume rm: "open_pc (heap b ! i) = OpenRemove \<and>
      service_table b' = snd (sm_Remove (localID (heap b ! i)) (service_table b)) \<and>
      slots b' = (slots b)[i := (localID (heap b ! i), True)]"
    then have "table_ok (cleaned b) (service_table b') (slots b')"
      using assms(1) step_open(3) by (auto simp: bridge_ok_def slots_def intro!: table_ok_remove)
    with assms(1) only_changes_ok [OF changes] step_open(3) core_open_step [OF step_open(4)]
    show ?thesis by (auto simp: bridge_ok_def core_def cleaned_def)
  qed
next
  case (step_fwd i tick)
  have "maxPayload b \<le> UINT16_MAX" using assms(1) by (simp add: bridge_ok_def)
  with bridge_ok_only [OF assms(1) only_changes_fwd_step [OF step_fwd(4,3)] step_fwd(3)
      core_fwd_step [OF step_fwd(4)] fwd_step_listing [OF step_fwd(4)]]
  show ?thesis by blast
qed (use assms(1) socket_End_ok closing_step_ok in auto)

interpretation bridge_inv: invariant "bstep cfg" bridge_ok for cfg
  by unfold_locales (rule bstep_ok)

lemmas reachable_ok = bridge_inv.run_inv [OF _ bridge_ok_NewSocket]

section \<open>Flow control\<close>

lemma sock_conn_simps [simp]:
  "sock_conn (goto i pc b) = sock_conn b" "sock_conn (fwd_goto i fp b) = sock_conn b"
  "sock_conn (crash q b) = sock_conn b" "sock_conn (upd i f b) = sock_conn b"
  "sock_conn (close_transport t b) = sock_conn b"
  by (simp_all add: goto_def fwd_goto_def crash_def bridge_frame)

lemma sock_conn_on_net: "on_net m b = (r, b') \<Longrightarrow> sock_conn b' = sock_conn b"
  by (auto dest: on_net_frame)

lemma length_outgoing_send:
  "length (outgoing (sock_conn (send x b))) \<le> length (outgoing (sock_conn b)) + length x"
  by (auto simp: send_def socket_Write_def conn_Write_def split: option.splits)

lemma length_outgoing_End:
  "length (outgoing (sock_conn (service_End i b))) \<le> length (outgoing (sock_conn b)) + 24"
proof -
  have "length (outgoing (sock_conn (send (Assemble A_CLSE l r []) (close_transport t b)))) \<le>
      length (outgoing (sock_conn b)) + 24" for l r t
    using length_outgoing_send [of "Assemble A_CLSE l r []" "close_transport t b"]
    by (simp add: length_Assemble)
  then show ?thesis by (simp add: service_End_def Let_def)
qed

lemma acks_open_step:
  "open_step cfg i b = Some b' \<Longrightarrow> i < length (heap b) \<Longrightarrow> map needAck (heap b') = map needAck (heap b)"
proof -
  assume step: "open_step cfg i b = Some b'" and i: "i < length (heap b)"
  have go: "map needAck (heap (goto i pc b1)) = map needAck (heap b1)" for pc b1
    by (simp add: map_upd_same)
  have pr: "map needAck (heap (proceed i m k b)) = map needAck (heap b)"
    if "\<And>r b1. m b = (r, b1) \<Longrightarrow> heap b1 = heap b" for m :: "(bridge, 'x) prog" and k
    by (rule proceed_cases [of m b i k]) (use that in \<open>auto simp: map_upd_same\<close>)
  from step i show ?thesis
    by (auto simp: open_step_def Let_def go bridge_frame map_upd_same
        intro!: pr dest: heap_on_net heap_on_transport split: open_pc.splits if_splits)
qed

lemma fwd_step_ack:
  assumes step: "fwd_step tick i b = Some b'" and "j < length (heap b)" and "needAck (heap b ! j)"
  shows "needAck (heap b' ! j)"
  using assms
  by (auto simp: fwd_step_def Let_def nth_upd bridge_frame heap_service_End dest!: heap_on_net
      split: fwd_pc.splits if_splits option.splits prod.splits result.splits)

lemma fwd_step_writes:
  assumes step: "fwd_step tick i b = Some b'" and i: "i < length (heap b)"
    and grows: "length (outgoing (sock_conn b)) + 24 < length (outgoing (sock_conn b'))"
  shows "(\<exists>d. fwd_pc (heap b ! i) = FwdSend d) \<and> \<not> ended (heap b ! i) \<and> needAck (heap b' ! i)"
  using assms length_outgoing_End [of i b]
  by (auto simp: fwd_step_def Let_def bridge_frame dest!: sock_conn_on_net
      split: fwd_pc.splits if_splits option.splits prod.splits result.splits)

text \<open>
  \<open>sends_data i\<close>: a transition in which the forwarder of service \<open>i\<close> writes a data packet to
  the client. \<open>gets_ack i\<close>: a transition in which the socket handles an \<^verbatim>\<open>OKAY\<close> addressed to it.
\<close>

definition sends_data :: "service_ref \<Rightarrow> (bridge, actor) transition \<Rightarrow> bool" where
  "sends_data i t = (case t of (b, a, b') \<Rightarrow> a = Forwarder i \<and>
     (\<exists>d. d \<noteq> [] \<and> length d < 2 ^ 32 - 24 \<and> outgoing (sock_conn b') = outgoing (sock_conn b) @
        Assemble A_WRTE (localID (heap b ! i)) (remoteID (heap b ! i)) d))"

definition gets_ack :: "service_ref \<Rightarrow> (bridge, actor) transition \<Rightarrow> bool" where
  "gets_ack i t = (case t of (b, a, b') \<Rightarrow> a = Main \<and> (case main_pc b of
       MainDispatch p \<Rightarrow> Command p = A_OKAY \<and> Arg1 p = localID (heap b ! i)
     | _ \<Rightarrow> False))"

definition waits_ack :: "service_ref \<Rightarrow> bridge \<Rightarrow> bool" where
  "waits_ack i b \<longleftrightarrow> i < length (heap b) \<and> needAck (heap b ! i)"

lemma sends_data_raises:
  assumes "bridge_ok b" and "bstep cfg b a b'" and "sends_data i (b, a, b')"
  shows "\<not> waits_ack i b \<and> waits_ack i b'"
proof -
  from assms(3) obtain d where a: "a = Forwarder i" and d: "d \<noteq> []" "length d < 2 ^ 32 - 24"
    "outgoing (sock_conn b') = outgoing (sock_conn b) @
       Assemble A_WRTE (localID (heap b ! i)) (remoteID (heap b ! i)) d"
    by (auto simp: sends_data_def)
  from assms(2) a obtain tick where i: "i < length (heap b)" and step: "fwd_step tick i b = Some b'"
    by (auto elim: bstep_ForwarderE)
  have "length (outgoing (sock_conn b)) + 24 < length (outgoing (sock_conn b'))"
    using d by (simp add: length_Assemble)
  from fwd_step_writes [OF step i this] obtain d' where "fwd_pc (heap b ! i) = FwdSend d'"
    "needAck (heap b' ! i)" by auto
  moreover have "proc_ok (heap b ! i)" using assms(1) i by (simp add: bridge_ok_def list_all_length)
  moreover have "length (heap b') = length (heap b)"
    using only_changes_fwd_step [OF step i] assms(1) by (auto simp: bridge_ok_def only_changes_def)
  ultimately show ?thesis using i by (auto simp: waits_ack_def proc_ok_def)
qed

lemma dispatch_lowers:
  assumes "bridge_ok b" and "socket_handle cfg ch p b = (r, b')"
    and "waits_ack i b" and "\<not> waits_ack i b'"
  shows "Command p = A_OKAY \<and> Arg1 p = localID (heap b ! i)"
  using assms(2)
proof (cases rule: socket_handle_cases)
  case (service j)
  from assms(1) service(2) have j: "j < length (heap b)" "localID (heap b ! j) = Arg1 p"
    using table_ok_entry [of "cleaned b" "service_table b" "slots b" "Arg1 p" j]
    by (auto simp: bridge_ok_def slots_def)
  from service_Handle_heap [OF service(3)] assms(3,4) j show ?thesis
    by (auto simp: waits_ack_def nth_upd heap_service_End split: if_splits)
qed (use assms(3,4) in \<open>auto simp: waits_ack_def quiet_def nth_append\<close>)

lemma only_ack_lowers:
  assumes "bridge_ok b" and "bstep cfg b a b'" and "waits_ack i b" and "\<not> waits_ack i b'"
  shows "gets_ack i (b, a, b')"
  using assms(2)
proof cases
  case (step_main ch)
  from step_main(3) show ?thesis
  proof (cases rule: main_step_cases)
    case (dispatch p r b1 pc)
    with assms(4) have "\<not> waits_ack i b1" by (auto simp: waits_ack_def crash_def)
    with dispatch_lowers [OF assms(1) dispatch(2) assms(3)] dispatch(1) step_main(1)
    show ?thesis by (simp add: gets_ack_def)
  qed (use assms(3,4) in \<open>auto simp: waits_ack_def socket_End_def\<close>)
next
  case (step_open j)
  have "map needAck (heap b') ! i = map needAck (heap b) ! i"
      "length (map needAck (heap b')) = length (map needAck (heap b))"
    using acks_open_step [OF step_open(4,3)] by (simp_all only:)
  with assms(3,4) show ?thesis by (auto simp: waits_ack_def)
next
  case (step_fwd j tick)
  have "length (heap b') = length (heap b)"
    using only_changes_fwd_step [OF step_fwd(4,3)] assms(1) by (auto simp: bridge_ok_def only_changes_def)
  with fwd_step_ack [OF step_fwd(4)] assms(3,4) show ?thesis by (auto simp: waits_ack_def)
next
  case (step_close order)
  with assms(3,4) show ?thesis
    by (auto simp: waits_ack_def closing_step_def sm_End_def Let_def nth_heap_fold_End bridge_frame
        split: if_splits)
qed (use assms(3,4) in \<open>auto simp: waits_ack_def socket_End_def\<close>)

text \<open>C2: in every stretch of every run, the number of data packets a service sends to the client
  exceeds the number of \<^verbatim>\<open>OKAY\<close> packets handled for it in that stretch by at most one. So between
  any two data packets of a service there is an acknowledgement, whatever the client sent
  before the first of them.\<close>

theorem at_most_one_unacknowledged_packet:
  assumes "run (bstep cfg) (NewSocket w c) before b0" and "run (bstep cfg) b0 tr b"
  shows "happens (sends_data i) tr \<le> happens (gets_ack i) tr + 1"
proof -
  have "happens (sends_data i) tr + (if waits_ack i b0 \<and> \<not> waits_ack i b then 1 else 0) \<le>
      happens (gets_ack i) tr + (if \<not> waits_ack i b0 \<and> waits_ack i b then 1 else 0)"
  proof (rule bridge_inv.alternation [OF _ _ _ assms(2) reachable_ok [OF assms(1)]])
    fix t assume "sends_data i t"
    then show "\<not> gets_ack i t" by (auto simp: sends_data_def gets_ack_def)
  qed (rule sends_data_raises only_ack_lowers, assumption+)+
  then show ?thesis by (simp split: if_splits)
qed

theorem at_most_one_unacknowledged_packet_witness:
  "\<exists>tr. run (bstep demo_cfg) demo_start tr (demo_data []) \<and>
     happens (sends_data 0) tr \<le> happens (gets_ack 0) tr + 1"
  using demo_run at_most_one_unacknowledged_packet [OF run_Nil] by blast

section \<open>The table counts the live services\<close>

text \<open>C4: in every reachable state of a socket that was not torn down, the service table holds
  exactly the services whose goroutine has not yet removed them, each under its own identifier:
  a lookup of \<open>k\<close> finds service \<open>i\<close> if and only if \<open>i\<close> is such a service and its identifier is \<open>k\<close>; and
  the service counter is the number of these services.\<close>

theorem service_table_exact:
  assumes "run (bstep cfg) (NewSocket w c) tr b" and "\<not> cleaned b"
  shows "(\<forall>k i. sm_Get k (service_table b) = Some i \<longleftrightarrow>
      i < length (heap b) \<and> \<not> removed (open_pc (heap b ! i)) \<and> localID (heap b ! i) = k) \<and>
    sm_Count (service_table b) =
      int (card {i. i < length (heap b) \<and> \<not> removed (open_pc (heap b ! i))})"
proof -
  let ?live = "{i. i < length (heap b) \<and> \<not> removed (open_pc (heap b ! i))}"
  have ok: "table_ok False (service_table b) (slots b)"
    using reachable_ok [OF assms(1)] assms(2) by (simp add: bridge_ok_def)
  have entry: "sm_Get k (service_table b) = Some i \<longleftrightarrow> i \<in> ?live \<and> localID (heap b ! i) = k" for k i
    using table_ok_live [OF ok, of i k] table_ok_entry [OF ok, of k i] by (auto simp: slots_def)
  have "bij_betw (\<lambda>i. localID (heap b ! i)) ?live {k. sm_Get k (service_table b) \<noteq> None}"
  proof (rule bij_betwI')
    fix i j assume "i \<in> ?live" "j \<in> ?live"
    with entry show "(localID (heap b ! i) = localID (heap b ! j)) = (i = j)"
      by (metis option.inject)
  qed (use entry in \<open>auto simp: not_None_eq\<close>)
  then have "card ?live = card {k. sm_Get k (service_table b) \<noteq> None}" by (rule bij_betw_same_card)
  moreover have "sm_ok (service_table b)" using ok by (simp add: table_ok_def)
  ultimately show ?thesis using sm.size_card entry by simp
qed

theorem service_table_exact_witness:
  "sm_Get 2 (service_table (demo_data [])) = Some 0 \<and> sm_Count (service_table (demo_data [])) = 1"
proof -
  obtain tr where tr: "run (bstep demo_cfg) demo_start tr (demo_data [])" using demo_run by blast
  have "\<not> cleaned (demo_data [])"
    by (simp add: cleaned_def demo_data_def demo_opening_def demo_ready_def NewSocket_def Let_def)
  note table = service_table_exact [OF tr this]
  have "localID (heap (demo_data []) ! 0) = 2" "length (heap (demo_data [])) = 1"
    "\<not> removed (open_pc (heap (demo_data []) ! 0))"
    by (simp_all add: demo_data_def Let_def)
  moreover from this have
    "{i. i < length (heap (demo_data [])) \<and> \<not> removed (open_pc (heap (demo_data []) ! i))} = {0}" by auto
  ultimately show ?thesis using table by auto
qed

section \<open>What the client receives\<close>

text \<open>
  \<open>bridge_packet p\<close>: a packet as \<^verbatim>\<open>Assemble\<close> makes it, with at most 65535 bytes of data unless it
  is the \<^verbatim>\<open>CNXN\<close> packet, whose data contains the serial number the adb server reports.
\<close>

definition bridge_packet :: "packet \<Rightarrow> bool" where
  "bridge_packet p \<longleftrightarrow> p = packet_of (Command p) (Arg0 p) (Arg1 p) (Data p) \<and>
     (Command p \<noteq> A_CNXN \<longrightarrow> length (Data p) \<le> 65535)"

definition framed :: "bytes \<Rightarrow> bridge \<Rightarrow> bool" where
  "framed out b \<longleftrightarrow> length (token b) \<le> TOKEN_LENGTH \<and> room (sock_conn b) = None \<and>
     (\<exists>ps. list_all bridge_packet ps \<and> outgoing (sock_conn b) = out @ concat (map encode_packet ps))"

lemma framed_cong:
  "token b' = token b \<Longrightarrow> sock_conn b' = sock_conn b \<Longrightarrow> framed out b' = framed out b"
  by (simp add: framed_def)

lemma framed_socket_Write:
  assumes "framed out b" and "socket_Write (Assemble c a r d) b = (res, b')"
    and "c \<noteq> A_CNXN \<longrightarrow> length d \<le> 65535"
  shows "framed out b'"
proof -
  from assms(1) obtain ps where ps: "list_all bridge_packet ps"
    "outgoing (sock_conn b) = out @ concat (map encode_packet ps)" by (auto simp: framed_def)
  let ?ps = "ps @ [packet_of c a r d]"
  have "list_all bridge_packet ?ps" using ps(1) assms(3) by (simp add: bridge_packet_def)
  moreover have "outgoing (sock_conn b) @ Assemble c a r d = out @ concat (map encode_packet ?ps)"
    using ps(2) by (simp add: encode_packet_def)
  moreover have "b' = b \<or> (token b' = token b \<and> room (sock_conn b') = None \<and>
      outgoing (sock_conn b') = outgoing (sock_conn b) @ Assemble c a r d)"
    using assms(1,2) by (auto simp: framed_def socket_Write_def conn_Write_def split: if_splits)
  ultimately show ?thesis using assms(1) unfolding framed_def by metis
qed

lemma framed_send:
  "framed out b \<Longrightarrow> length d \<le> 65535 \<Longrightarrow> framed out (send (Assemble c a r d) b)"
  using framed_socket_Write [of out b c a r d] by (cases "socket_Write (Assemble c a r d) b") (simp add: send_def)

lemma framed_simps [simp]:
  "framed out (goto i pc b) = framed out b" "framed out (fwd_goto i fp b) = framed out b"
  "framed out (crash q b) = framed out b" "framed out (upd i f b) = framed out b"
  "framed out (close_transport t b) = framed out b" "framed out (b\<lparr>net := w\<rparr>) = framed out b"
  "framed out (b\<lparr>service_table := sm\<rparr>) = framed out b" "framed out (b\<lparr>main_pc := mp\<rparr>) = framed out b"
  "framed out (b\<lparr>maxPayload := mx\<rparr>) = framed out b" "framed out (b\<lparr>syncToken := rc\<rparr>) = framed out b"
  "framed out (b\<lparr>signature := sg\<rparr>) = framed out b" "framed out (b\<lparr>authorized := au\<rparr>) = framed out b"
  "framed out (b\<lparr>remoteIDs := rc\<rparr>) = framed out b" "framed out (b\<lparr>heap := h\<rparr>) = framed out b"
  by (simp_all add: goto_def fwd_goto_def crash_def framed_def bridge_frame)

lemma framed_End [simp]: "framed out b \<Longrightarrow> framed out (service_End i b)"
  by (simp add: service_End_def Let_def framed_send)

lemma framed_fold_End: "framed out b \<Longrightarrow> framed out (fold service_End is b)"
  by (induction "is" arbitrary: b) simp_all

lemma framed_on_net: "on_net m b = (r, b') \<Longrightarrow> framed out b' = framed out b"
  by (auto dest: on_net_frame)

lemma framed_on_transport: "on_transport i m b = (r, b') \<Longrightarrow> framed out b' = framed out b"
  by (auto dest: on_transport_frame)

lemma framed_proceed:
  "(\<And>r b1. m b = (r, b1) \<Longrightarrow> framed out b1 = framed out b) \<Longrightarrow>
   framed out (proceed i m k b) = framed out b"
  by (rule proceed_cases [of m b i k]) auto

lemma framed_open_step: "framed out b \<Longrightarrow> open_step cfg i b = Some b' \<Longrightarrow> framed out b'"
  by (auto simp: open_step_def Let_def framed_send framed_on_net framed_on_transport framed_proceed
      split: open_pc.splits if_splits)

lemma framed_fwd_step:
  assumes "framed out b" and "fwd_step tick i b = Some b'" and "proc_ok (heap b ! i)"
  shows "framed out b'"
  using assms
  by (auto simp: fwd_step_def Let_def framed_send proc_ok_def dest: framed_on_net
      split: fwd_pc.splits if_splits option.splits prod.splits result.splits)

lemma framed_service_Handle: "framed out b \<Longrightarrow> service_Handle i p b = (r, b') \<Longrightarrow> framed out b'"
  by (auto simp: service_Handle_def handleOkayPacket_def handleWritePacket_def handleClosePacket_def
      Let_def fail_def ret_def andThen_def framed_send dest!: framed_on_net [where out = out]
      split: if_splits option.splits prod.splits result.splits)

lemma framed_sync: "framed out b \<Longrightarrow> handleSyncPacket p b = (r, b') \<Longrightarrow> framed out b'"
  using framed_socket_Write [of out "b\<lparr>syncToken := snd (rc_Next (syncToken b))\<rparr>" A_SYNC]
  by (auto simp: handleSyncPacket_def split: prod.splits)

lemma framed_token: "framed out b \<Longrightarrow> length t = TOKEN_LENGTH \<Longrightarrow> framed out (b\<lparr>token := t\<rparr>)"
  by (simp add: framed_def)

lemma framed_connection:
  assumes "framed out b" and "handleConnectionPacket ch p b = (r, b')"
    and "\<forall>t. rand_Read ch = Inr t \<longrightarrow> length t = TOKEN_LENGTH"
  shows "framed out b'"
proof -
  define b1 where "b1 = b\<lparr>maxPayload := (if Arg1 p < UINT16_MAX then Arg1 p else UINT16_MAX)\<rparr>"
  have b1: "framed out b1" using assms(1) by (simp add: b1_def)
  show ?thesis
  proof (cases "rand_Read ch")
    case (Inl e)
    with assms(2) b1 show ?thesis by (simp add: handleConnectionPacket_def b1_def Let_def)
  next
    case (Inr t)
    with assms(2) have "socket_Write (Assemble A_AUTH AUTH_TOKEN 0 t) (b1\<lparr>token := t\<rparr>) = (r, b')"
      by (simp add: handleConnectionPacket_def b1_def Let_def)
    then show ?thesis
      using Inr assms(3) by (intro framed_socket_Write [OF framed_token [OF b1]]) auto
  qed
qed

lemma framed_cnxn: "framed out b \<Longrightarrow> sendCNXN cfg ch b = (r, b') \<Longrightarrow> framed out b'"
proof -
  assume b: "framed out b" and s: "sendCNXN cfg ch b = (r, b')"
  obtain r1 b1 where g: "on_net (device_Serial (cfg_device cfg) (serial_late ch)) b = (r1, b1)"
    by (cases "on_net (device_Serial (cfg_device cfg) (serial_late ch)) b")
  then have "framed out b1" using b framed_on_net by metis
  with s g show ?thesis
    by (cases r1) (auto simp: sendCNXN_def getDeviceID_def andThen_def attempt_def ret_def Let_def
        intro: framed_socket_Write)
qed

lemma framed_auth:
  assumes "framed out b" and "handleAuthPacket cfg ch p b = (r, b')"
  shows "framed out b'"
proof (cases "Arg0 p = AUTH_SIGNATURE")
  case True
  define b1 where "b1 = (if signature b = [] then b\<lparr>signature := Data p\<rparr> else b)"
  have "framed out b1" using assms(1) by (simp add: b1_def)
  moreover from this have "length (token b1) \<le> 65535" by (simp add: framed_def)
  moreover have "socket_Write (Assemble A_AUTH AUTH_TOKEN 0 (token b1)) b1 = (r, b')"
    using True assms(2) by (simp add: handleAuthPacket_def b1_def Let_def)
  ultimately show ?thesis using framed_socket_Write by blast
next
  case False
  with assms show ?thesis
    by (auto simp: handleAuthPacket_def dest: framed_cnxn [rotated] split: if_splits option.splits)
qed

lemma framed_open: "framed out b \<Longrightarrow> handleOpenPacket p b = (r, b') \<Longrightarrow> framed out b'"
  by (auto simp: handleOpenPacket_def Let_def split: if_splits prod.splits result.splits)

lemma framed_forward: "framed out b \<Longrightarrow> forwardServicePacket p b = (r, b') \<Longrightarrow> framed out b'"
  by (auto simp: forwardServicePacket_def dest: framed_service_Handle [rotated]
      split: if_splits option.splits)

lemma framed_handle:
  assumes "framed out b" and "socket_handle cfg ch p b = (r, b')"
    and rnd: "\<forall>t. rand_Read ch = Inr t \<longrightarrow> length t = TOKEN_LENGTH"
  shows "framed out b'"
proof -
  from assms(2) consider "handleSyncPacket p b = (r, b')" | "handleConnectionPacket ch p b = (r, b')"
    | "handleOpenPacket p b = (r, b')" | "forwardServicePacket p b = (r, b')"
    | "handleAuthPacket cfg ch p b = (r, b')" | "b' = b"
    by (simp add: socket_handle_def fail_def split: if_splits)
  then show ?thesis
  proof cases
    case 1 then show ?thesis by (rule framed_sync [OF assms(1)])
  next
    case 2 then show ?thesis by (rule framed_connection [OF assms(1) _ rnd])
  next
    case 3 then show ?thesis by (rule framed_open [OF assms(1)])
  next
    case 4 then show ?thesis by (rule framed_forward [OF assms(1)])
  next
    case 5 then show ?thesis by (rule framed_auth [OF assms(1)])
  next
    case 6 with assms(1) show ?thesis by simp
  qed
qed

lemma read_packet_step_conn:
  "read_packet_step s = (r, s') \<Longrightarrow>
   outgoing (fst s') = outgoing (fst s) \<and> room (fst s') = room (fst s)"
  by (auto simp: read_packet_step_def Let_def andThen_def appendChunk_cases conn_Read_def ret_def
      split: prod.splits if_splits list.splits)

lemma ReadPacket_conn:
  "outgoing (fst (snd (ReadPacket s))) = outgoing (fst s) \<and> room (fst (snd (ReadPacket s))) = room (fst s)"
proof (induction s rule: ReadPacket.induct)
  case (1 s)
  obtain r s' where step: "read_packet_step s = (r, s')" by (cases "read_packet_step s")
  with read_packet_step_conn [OF step] "1.IH" show ?case
    by (subst (1 2) ReadPacket.simps) (auto split: result.splits option.splits)
qed

lemma bstep_framed:
  assumes "bridge_ok b \<and> framed out b" and "bstep cfg b a b'"
  shows "bridge_ok b' \<and> framed out b'"
proof
  show "bridge_ok b'" using assms by (blast intro: bstep_ok)
  from assms have fr: "framed out b" by simp
  from assms(2) show "framed out b'"
  proof cases
    case (step_main ch)
    from step_main(3) show ?thesis
    proof (cases rule: main_step_cases)
      case (read r c rd pc)
      with fr ReadPacket_conn [of "(sock_conn b, reader b)"] show ?thesis by (simp add: framed_def)
    next
      case (dispatch p r b1 pc)
      with framed_handle [OF fr dispatch(2) step_main(4)] show ?thesis by auto
    next
      case (finish e)
      with fr show ?thesis by (simp add: socket_End_def framed_def)
    qed (use fr in simp)
  next
    case (step_open i)
    with fr framed_open_step show ?thesis by blast
  next
    case (step_fwd i tick)
    moreover have "proc_ok (heap b ! i)"
      using assms(1) step_fwd(3) by (simp add: bridge_ok_def list_all_length)
    ultimately show ?thesis using fr framed_fwd_step by blast
  next
    case (step_close order)
    with framed_fold_End [OF fr, of order] show ?thesis
      by (simp add: closing_step_def sm_End_def Let_def framed_def conn_Close_def)
  qed (use fr in \<open>simp add: socket_End_def framed_def\<close>)
qed

interpretation framed_inv: invariant "bstep cfg" "\<lambda>b. bridge_ok b \<and> framed out b" for cfg out
  by unfold_locales (rule bstep_framed)
text \<open>C3: what has been written to the client's connection is at every moment a sequence of whole
  packets, each at most 65535 bytes of data but for the device banner, and the client's own
  packet reader recovers exactly that sequence, however the network cuts the bytes up.\<close>

theorem client_receives_whole_packets:
  assumes "run (bstep cfg) (NewSocket w c) tr b" and "room c = None" and "outgoing c = []"
  shows "\<exists>ps. list_all bridge_packet ps \<and>
     outgoing (sock_conn b) = concat (map (\<lambda>p. Assemble (Command p) (Arg0 p) (Arg1 p) (Data p)) ps) \<and>
     (list_all sendable ps \<longrightarrow> (\<forall>s. between_packets s \<and> unread s = outgoing (sock_conn b) \<longrightarrow>
        (\<exists>s'. read_frames ReadPacket (length ps) s = (Ok ps, s') \<and> unread s' = [])))"
    (is "\<exists>ps. ?ok ps \<and> ?out ps \<and> (?send ps \<longrightarrow> (\<forall>s. ?at s \<longrightarrow> ?reads ps s))")
proof -
  have "framed [] (NewSocket w c)"
    using assms(2,3) by (auto simp: framed_def NewSocket_def intro!: exI [of _ "[]"])
  with framed_inv.run_inv [OF assms(1)] bridge_ok_NewSocket have "framed [] b" by blast
  then obtain ps where ps: "list_all bridge_packet ps"
      "outgoing (sock_conn b) = concat (map encode_packet ps)" by (auto simp: framed_def)
  have "?reads ps s" if "?send ps" "?at s" for s
    using packets.read_frames_encode [of ps s "[]"] that ps(2) by auto
  then show ?thesis using ps by (auto simp: encode_packet_def [abs_def])
qed

theorem client_receives_whole_packets_witness:
  "\<exists>ps. list_all bridge_packet ps \<and> outgoing (sock_conn (demo_data [])) =
     concat (map (\<lambda>p. Assemble (Command p) (Arg0 p) (Arg1 p) (Data p)) ps)"
proof -
  obtain tr where tr: "run (bstep demo_cfg) demo_start tr (demo_data [])" using demo_run by blast
  from client_receives_whole_packets [OF tr] show ?thesis
    by (auto simp: demo_client_def new_conn_def)
qed

end
