(* ===== verification/BridgeData.thy ===== *)
theory BridgeData
  imports BridgeProofs
begin

text \<open>
  The data path of the bridge: under every interleaving, what a service sends to the client is
  what the device sent on that service's transport. The argument needs that no two services
  ever read from the same connection, which holds because every connection the adb client
  hands out is new.
\<close>

section \<open>Which connections a service may read\<close>

definition reads_from :: "proc \<Rightarrow> nat set" where
  "reads_from s = {t. transport s = Some t \<or> (\<exists>d. open_pc s = OpenInstall d t) \<or>
     (\<exists>n. fwd_pc s = FwdRead t n)}"

definition net_size :: "bridge \<Rightarrow> nat" where
  "net_size b = length (conns (net b))"

definition exclusive :: "bridge \<Rightarrow> bool" where
  "exclusive b \<longleftrightarrow>
     (\<forall>i < length (heap b). \<forall>t \<in> reads_from (heap b ! i). t < net_size b \<and>
        (\<forall>j < length (heap b). j \<noteq> i \<longrightarrow> t \<notin> reads_from (heap b ! j)))"

text \<open>
  \<open>device_side R b b'\<close>: no connection disappears, and the bytes still to come on those of the
  old ones outside \<open>R\<close> are the same.
\<close>

definition device_side :: "nat set \<Rightarrow> world \<Rightarrow> world \<Rightarrow> bool" where
  "device_side R w w' \<longleftrightarrow> length (conns w) \<le> length (conns w') \<and>
     (\<forall>t < length (conns w). t \<notin> R \<longrightarrow> pending (conns w' ! t) = pending (conns w ! t))"

lemma device_side_refl [simp]: "device_side R w w"
  by (simp add: device_side_def)

lemma device_side_trans: "device_side R w1 w2 \<Longrightarrow> device_side R w2 w3 \<Longrightarrow> device_side R w1 w3"
  by (auto simp: device_side_def)

lemma device_side_mono: "device_side R w w' \<Longrightarrow> R \<subseteq> R' \<Longrightarrow> device_side R' w w'"
  by (auto simp: device_side_def)

lemma device_side_on_conn: "on_conn t m w = (r, w') \<Longrightarrow> device_side {t} w w' \<and> length (conns w') = length (conns w)"
  by (auto simp: on_conn_def device_side_def split: if_splits prod.splits)

lemma pending_write: "conn_Write p c = (r, c') \<Longrightarrow> pending c' = pending c"
  by (auto simp: conn_Write_def pending_def split: if_splits option.splits)

lemma pending_close: "pending (snd (conn_Close c)) = pending c"
  by (simp add: conn_Close_def pending_def)

lemma device_side_write: "on_conn t (conn_Write p) w = (r, w') \<Longrightarrow> device_side {} w w' \<and> length (conns w') = length (conns w)"
  by (auto simp: on_conn_def device_side_def nth_upd pending_write split: if_splits prod.splits)

lemma device_side_close: "device_side {} w (snd (close_conn t w)) \<and> length (conns (snd (close_conn t w))) = length (conns w)"
proof (cases "t < length (conns w)")
  case True
  obtain r c where c: "conn_Close (conns w ! t) = (r, c)" by (cases "conn_Close (conns w ! t)")
  with pending_close [of "conns w ! t"] have "pending c = pending (conns w ! t)" by simp
  with True c show ?thesis
    by (auto simp: close_conn_def on_conn_def device_side_def nth_upd)
qed (simp add: close_conn_def on_conn_def)

lemma all_closed_side: "all_closed (conns w) w' \<Longrightarrow> device_side {} w w'"
  by (auto simp: all_closed_def device_side_def nth_append)

lemma one_open_side: "one_open (conns w) h w' \<Longrightarrow> device_side {} w w' \<and> length (conns w) \<le> h \<and> h < length (conns w')"
  by (auto simp: one_open_def device_side_def nth_append)

definition dialing :: "config \<Rightarrow> bool" where
  "dialing cfg \<longleftrightarrow> (\<exists>host port bin. connector (dev_client (cfg_device cfg)) = autoStart_Connection host port bin) \<or>
     (\<exists>host port. connector (dev_client (cfg_device cfg)) = connectorImpl_Connection host port)"

lemma all_closed_start: "all_closed (conns w) w"
  by (auto simp: all_closed_def)

lemma dialing_Transport: "dialing cfg \<Longrightarrow> yields_conn (Transport (cfg_device cfg))"
  using impl.Transport_yields autostart.Transport_yields by (auto simp: dialing_def)

lemma dialing_Serial:
  assumes "dialing cfg"
  shows "leak_free (device_Serial (cfg_device cfg) late)"
proof -
  have "leak_free (SendHostCommand (dev_client (cfg_device cfg)) late cmd)" for cmd
    using assms impl.SendHostCommandContext_leak_free autostart.SendHostCommandContext_leak_free
    by (auto simp: dialing_def SendHostCommand_def)
  then show ?thesis unfolding device_Serial_def getAttribute_def by (auto intro!: leak_free_intros)
qed

lemma Transport_side:
  assumes "dialing cfg" and "Transport (cfg_device cfg) w = (r, w')" and "\<And>q. r \<noteq> Panic q"
  shows "device_side {} w w' \<and> (\<forall>h. r = Ok h \<longrightarrow> length (conns w) \<le> h \<and> h < length (conns w'))"
proof -
  have t: "triple (all_closed (conns w)) (Transport (cfg_device cfg)) (one_open (conns w)) (all_closed (conns w))"
    using dialing_Transport [OF assms(1)] by (simp add: yields_conn_def)
  show ?thesis
  proof (cases r)
    case (Ok h)
    with triple_Ok [OF t all_closed_start] assms(2) have "one_open (conns w) h w'" by blast
    with Ok one_open_side show ?thesis by auto
  next
    case (Err e)
    with triple_Err [OF t all_closed_start] assms(2) have "all_closed (conns w) w'" by blast
    with Err all_closed_side show ?thesis by auto
  qed (use assms(3) in auto)
qed

lemma Serial_side:
  assumes "dialing cfg" and "device_Serial (cfg_device cfg) late w = (r, w')" and "\<And>q. r \<noteq> Panic q"
  shows "device_side {} w w'"
  using leak_freeD [OF dialing_Serial [OF assms(1)] assms(2,3)]
  by (auto simp: device_side_def nth_append)

text \<open>
  \<open>moved i b b'\<close>: a step of service \<open>i\<close>. Only its own entry changes, it may from now on read
  what it could read before and connections that are new, and it has consumed bytes from
  none but its own connections.
\<close>

definition moved :: "service_ref \<Rightarrow> bridge \<Rightarrow> bridge \<Rightarrow> bool" where
  "moved i b b' \<longleftrightarrow> (\<exists>s. heap b' = (heap b)[i := s] \<and>
     (\<forall>t \<in> reads_from s. t \<in> reads_from (heap b ! i) \<or> (net_size b \<le> t \<and> t < net_size b')) \<and>
     device_side (reads_from (heap b ! i)) (net b) (net b'))"

lemma movedI:
  "heap b' = (heap b)[i := s] \<Longrightarrow>
   (\<And>t. t \<in> reads_from s \<Longrightarrow> t \<in> reads_from (heap b ! i) \<or> (net_size b \<le> t \<and> t < net_size b')) \<Longrightarrow>
   device_side (reads_from (heap b ! i)) (net b) (net b') \<Longrightarrow> moved i b b'"
  by (auto simp: moved_def)

lemma exclusive_moved:
  assumes "exclusive b" and "moved i b b'" and "i < length (heap b)"
  shows "exclusive b'"
proof -
  from assms(2) obtain s where s: "heap b' = (heap b)[i := s]"
      "\<And>t. t \<in> reads_from s \<Longrightarrow> t \<in> reads_from (heap b ! i) \<or> (net_size b \<le> t \<and> t < net_size b')"
    and size: "net_size b \<le> net_size b'"
    by (auto simp: moved_def device_side_def net_size_def)
  have old: "t < net_size b" "\<And>k. k < length (heap b) \<Longrightarrow> k \<noteq> j \<Longrightarrow> t \<notin> reads_from (heap b ! k)"
    if "j < length (heap b)" "t \<in> reads_from (heap b ! j)" for j t
    using assms(1) that unfolding exclusive_def by blast+
  show ?thesis unfolding exclusive_def
  proof (intro allI ballI impI conjI)
    fix j t assume j: "j < length (heap b')" and t: "t \<in> reads_from (heap b' ! j)"
    show "t < net_size b'"
    proof (cases "j = i")
      case True
      with j t s(1) have "t \<in> reads_from s" by (simp add: nth_upd)
      with s(2) [of t] old(1) [OF assms(3), of t] size show ?thesis by auto
    next
      case False
      with j t s(1) have "t \<in> reads_from (heap b ! j)" by (simp add: nth_upd)
      with old(1) [of j t] j s(1) size show ?thesis by auto
    qed
    fix k assume k: "k < length (heap b')" "k \<noteq> j"
    show "t \<notin> reads_from (heap b' ! k)"
    proof
      assume u: "t \<in> reads_from (heap b' ! k)"
      consider "j = i" | "k = i" | "j \<noteq> i" "k \<noteq> i" by blast
      then show False
      proof cases
        case 1
        with t u s k j have "t \<in> reads_from s" "t \<in> reads_from (heap b ! k)" by (auto simp: nth_upd)
        with s(2) [of t] old(1) [of k t] old(2) [of i t k] k 1 assms(3) s(1) show False by auto
      next
        case 2
        with t u s k j have "t \<in> reads_from s" "t \<in> reads_from (heap b ! j)" by (auto simp: nth_upd)
        with s(2) [of t] old(1) [of j t] old(2) [of i t j] k(2) j 2 assms(3) s(1) show False by auto
      next
        case 3
        with t u s k j old(2) [of j t k] show False by (auto simp: nth_upd)
      qed
    qed
  qed
qed

lemma net_simps [simp]:
  "net (goto i pc b) = net b" "net (fwd_goto i fp b) = net b" "net (crash q b) = net b"
  "net (upd i f b) = net b" "net (send d b) = net b"
  by (simp_all add: goto_def fwd_goto_def crash_def bridge_frame)

lemma reads_from_pc:
  "reads_from (s\<lparr>open_pc := pc\<rparr>) \<subseteq> reads_from s \<union> {t. \<exists>d. pc = OpenInstall d t}"
  "reads_from (s\<lparr>fwd_pc := fp\<rparr>) \<subseteq> reads_from s \<union> {t. \<exists>n. fp = FwdRead t n}"
  by (auto simp: reads_from_def)

lemma close_transport_side: "device_side {} (net b) (net (close_transport t b))"
  using device_side_close by (auto simp: close_transport_def split: option.split)

lemma service_End_side: "device_side {} (net b) (net (service_End i b))"
  using close_transport_side by (simp add: service_End_def Let_def)

lemma reads_from_ended: "reads_from (ended_proc s) \<subseteq> reads_from s"
  by (auto simp: reads_from_def ended_proc_def)

lemma on_transport_side:
  "on_transport i m b = (r, b') \<Longrightarrow> device_side (reads_from (heap b ! i)) (net b) (net b')"
  using device_side_on_conn
  by (fastforce simp: on_transport_def on_net_def reads_from_def split: option.splits prod.splits
      intro: device_side_mono)

lemma moved_goto:
  assumes "heap b1 = heap b" and "device_side (reads_from (heap b ! i)) (net b) (net b1)"
    and "\<And>d t. pc \<noteq> OpenInstall d t"
  shows "moved i b (goto i pc b1)"
  by (rule movedI [of _ _ _ "(heap b ! i)\<lparr>open_pc := pc\<rparr>"])
    (use assms reads_from_pc(1) [where s = "heap b ! i" and pc = pc] in auto)

lemma moved_proceed_transport:
  assumes "crashed (proceed i (on_transport i m) k b) = None" and "\<And>x d t. k x \<noteq> OpenInstall d t"
  shows "moved i b (proceed i (on_transport i m) k b)"
  by (rule proceed_cases [of "on_transport i m" b i k])
    (use assms in \<open>auto intro!: moved_goto dest: heap_on_transport on_transport_side simp: crash_def\<close>)

lemma moved_dial:
  assumes "dialing cfg" and step: "open_step cfg i b = Some b'" and pc: "open_pc (heap b ! i) = OpenDial d"
    and alive: "crashed b' = None"
  shows "moved i b b'"
proof -
  have b': "b' = proceed i (on_net (Transport (cfg_device cfg))) (OpenInstall d) b"
    using pc step by (simp add: open_step_def)
  obtain r w where w: "Transport (cfg_device cfg) (net b) = (r, w)"
    by (cases "Transport (cfg_device cfg) (net b)")
  note side = Transport_side [OF assms(1) w]
  show ?thesis
  proof (cases r)
    case (Ok t)
    let ?s = "(heap b ! i)\<lparr>open_pc := OpenInstall d t\<rparr>"
    from Ok w b' have "heap b' = (heap b)[i := ?s]" "net b' = w" by (auto simp: proceed_def on_net_def)
    with side Ok reads_from_pc(1) [where s = "heap b ! i" and pc = "OpenInstall d t"] show ?thesis
      by (intro movedI [of _ _ _ ?s]) (auto simp: net_size_def intro: device_side_mono)
  next
    case (Err e)
    with w b' side show ?thesis
      by (auto simp: proceed_def on_net_def intro!: moved_goto intro: device_side_mono)
  next
    case (Panic q)
    with w b' alive show ?thesis by (simp add: proceed_def on_net_def crash_def)
  qed
qed

lemma moved_install:
  assumes step: "open_step cfg i b = Some b'" and i: "i < length (heap b)"
    and pc: "open_pc (heap b ! i) = OpenInstall d t"
  shows "moved i b b'"
proof (cases "ended (heap b ! i)")
  case True
  with pc step show ?thesis
    using close_transport_side [of b "Some t"]
    by (auto simp: open_step_def bridge_frame intro!: moved_goto intro: device_side_mono)
next
  case False
  let ?s = "(heap b ! i)\<lparr>transport := Some t, open_pc := OpenWrite d\<rparr>"
  from False pc step i have "heap b' = (heap b)[i := ?s]" "net b' = net b"
    by (auto simp: open_step_def bridge_frame)
  with pc show ?thesis by (intro movedI [of _ _ _ ?s]) (auto simp: reads_from_def)
qed

text \<open>The step that leaves a goroutine through \<^verbatim>\<open>End\<close>.\<close>

lemma moved_End:
  assumes "heap b' = (heap b)[i := s]" and "net b' = net (service_End i b)"
    and "reads_from s \<subseteq> reads_from (ended_proc (heap b ! i))"
  shows "moved i b b'"
  using assms service_End_side [of b i] reads_from_ended [of "heap b ! i"]
  by (intro movedI [of _ _ _ s]) (auto intro: device_side_mono)

lemma moved_open_step:
  assumes "dialing cfg" and step: "open_step cfg i b = Some b'" and i: "i < length (heap b)"
    and alive: "crashed b' = None"
  shows "moved i b b'"
proof (cases "open_pc (heap b ! i)")
  case (OpenDial d)
  then show ?thesis using moved_dial assms by blast
next
  case (OpenInstall d t)
  then show ?thesis using moved_install assms by blast
next
  case OpenForward
  let ?s = "(heap b ! i)\<lparr>opened := True, fwd_pc := FwdTop, open_pc := OpenWait\<rparr>"
  from OpenForward step i have "heap b' = (heap b)[i := ?s]" "net b' = net b"
    by (auto simp: open_step_def bridge_frame)
  then show ?thesis by (intro movedI [of _ _ _ ?s]) (auto simp: reads_from_def)
next
  case OpenEnd
  with step i show ?thesis
    by (intro moved_End [of _ _ _ "(ended_proc (heap b ! i))\<lparr>open_pc := OpenDone\<rparr>"])
      (auto simp: open_step_def heap_service_End reads_from_def)
next
  case OpenRead
  with step alive show ?thesis by (auto simp: open_step_def intro!: moved_proceed_transport split: if_splits)
qed (use step alive in \<open>auto simp: open_step_def Let_def bridge_frame
  intro!: moved_goto moved_proceed_transport split: if_splits\<close>)

lemma moved_fwd_goto:
  assumes "heap b1 = heap b" and "device_side (reads_from (heap b ! i)) (net b) (net b1)"
    and "\<And>t n. pc = FwdRead t n \<Longrightarrow> t \<in> reads_from (heap b ! i)"
  shows "moved i b (fwd_goto i pc b1)"
  by (rule movedI [of _ _ _ "(heap b ! i)\<lparr>fwd_pc := pc\<rparr>"])
    (use assms reads_from_pc(2) [where s = "heap b ! i" and fp = pc] in auto)

lemma moved_fwd_read:
  assumes step: "fwd_step tick i b = Some b'" and pc: "fwd_pc (heap b ! i) = FwdRead t n"
  shows "moved i b b'"
proof -
  obtain r w where w: "on_conn t (conn_Read n) (net b) = (r, w)"
    by (cases "on_conn t (conn_Read n) (net b)")
  have side: "device_side (reads_from (heap b ! i)) (net b) w"
    using device_side_on_conn [OF w] pc by (auto simp: reads_from_def intro: device_side_mono)
  then have "moved i b (b\<lparr>net := w, crashed := c\<rparr>)" for c
    by (auto intro!: movedI [of _ _ _ "heap b ! i"])
  with side w step pc show ?thesis
    by (cases r) (auto simp: fwd_step_def on_net_def crash_def intro!: moved_fwd_goto split: if_splits)
qed

lemma moved_fwd_step:
  assumes step: "fwd_step tick i b = Some b'" and i: "i < length (heap b)"
  shows "moved i b b'"
proof (cases "fwd_pc (heap b ! i)")
  case FwdTop
  with step show ?thesis
    by (auto simp: fwd_step_def Let_def reads_from_def intro!: moved_fwd_goto split: if_splits option.splits)
next
  case (FwdRead t n)
  then show ?thesis using moved_fwd_read step by blast
next
  case (FwdSend d)
  let ?s = "(heap b ! i)\<lparr>needAck := True, fwd_pc := FwdTop\<rparr>"
  have "heap b' = (heap b)[i := ?s] \<and> net b' = net b" if "\<not> ended (heap b ! i)"
    using that FwdSend step i by (auto simp: fwd_step_def Let_def bridge_frame)
  then have "\<not> ended (heap b ! i) \<Longrightarrow> moved i b b'"
    by (intro movedI [of _ _ _ ?s]) (auto simp: reads_from_def)
  with FwdSend step show ?thesis
    by (cases "ended (heap b ! i)") (auto simp: fwd_step_def intro!: moved_fwd_goto)
next
  case FwdEnd
  with step i show ?thesis
    by (intro moved_End [of _ _ _ "(ended_proc (heap b ! i))\<lparr>fwd_pc := FwdSignal\<rparr>"])
      (auto simp: fwd_step_def heap_service_End reads_from_def)
next
  case FwdSignal
  let ?s = "(heap b ! i)\<lparr>doneCh := True, fwd_pc := FwdDone\<rparr>"
  from FwdSignal step i have "heap b' = (heap b)[i := ?s]" "net b' = net b"
    by (auto simp: fwd_step_def bridge_frame)
  then show ?thesis by (intro movedI [of _ _ _ ?s]) (auto simp: reads_from_def)
qed (use step in \<open>auto simp: fwd_step_def Let_def intro!: moved_fwd_goto split: if_splits\<close>)

lemma service_Handle_side:
  assumes "service_Handle i p b = (r, b')"
  shows "device_side {} (net b) (net b') \<and> length (heap b') = length (heap b) \<and>
    (\<forall>j < length (heap b). reads_from (heap b' ! j) \<subseteq> reads_from (heap b ! j))"
proof -
  have "device_side {} (net b) (net b')"
    using assms service_End_side [of b i] device_side_write
    by (fastforce simp: service_Handle_def handleOkayPacket_def handleWritePacket_def
        handleClosePacket_def Let_def fail_def ret_def andThen_def on_net_def
        split: if_splits option.splits prod.splits result.splits)
  moreover from service_Handle_heap [OF assms] have "length (heap b') = length (heap b) \<and>
      (\<forall>j < length (heap b). reads_from (heap b' ! j) \<subseteq> reads_from (heap b ! j))"
    using reads_from_ended by (auto simp: heap_service_End nth_upd reads_from_def ended_proc_def split: if_splits)
  ultimately show ?thesis by blast
qed

text \<open>
  What the socket's own loop and its shutdown can do to a service: lower the flag, or end it.
\<close>

definition nudged :: "proc \<Rightarrow> proc \<Rightarrow> bool" where
  "nudged s s' \<longleftrightarrow> fwd_pc s' = fwd_pc s \<and> open_pc s' = open_pc s \<and>
     ((transport s' = transport s \<and> ended s' = ended s) \<or> (transport s' = None \<and> ended s'))"

lemma nudged_refl [simp]: "nudged s s" by (simp add: nudged_def)

lemma nudged_ended [simp]: "proc_ok s \<Longrightarrow> nudged s (ended_proc s)"
  by (auto simp: nudged_def ended_proc_def proc_ok_def)

lemma nudged_ack: "nudged s (s\<lparr>needAck := v\<rparr>)" by (simp add: nudged_def)

lemma nudged_reads: "nudged s s' \<Longrightarrow> reads_from s' \<subseteq> reads_from s"
  by (auto simp: nudged_def reads_from_def)

definition from_outside :: "bridge \<Rightarrow> bridge \<Rightarrow> bool" where
  "from_outside b b' \<longleftrightarrow> device_side {} (net b) (net b') \<and> length (heap b) \<le> length (heap b') \<and>
     (\<forall>j < length (heap b). nudged (heap b ! j) (heap b' ! j)) \<and>
     (\<forall>j < length (heap b'). length (heap b) \<le> j \<longrightarrow> reads_from (heap b' ! j) = {})"

lemma from_outsideI:
  "net b' = net b \<Longrightarrow> heap b' = heap b \<Longrightarrow> from_outside b b'"
  by (simp add: from_outside_def)

lemma exclusive_outside:
  assumes "exclusive b" and "from_outside b b'"
  shows "exclusive b'"
proof -
  have sub: "reads_from (heap b' ! j) \<subseteq> reads_from (heap b ! j) \<and> j < length (heap b)"
    if "j < length (heap b')" "t \<in> reads_from (heap b' ! j)" for j t
    using assms(2) that nudged_reads by (cases "j < length (heap b)") (auto simp: from_outside_def)
  have size: "net_size b \<le> net_size b'"
    using assms(2) by (simp add: from_outside_def device_side_def net_size_def)
  show ?thesis unfolding exclusive_def
  proof (intro allI ballI impI conjI)
    fix j t assume j: "j < length (heap b')" "t \<in> reads_from (heap b' ! j)"
    then have old: "j < length (heap b)" "t \<in> reads_from (heap b ! j)" using sub by blast+
    with assms(1) have ex: "t < net_size b" "\<And>k. k < length (heap b) \<Longrightarrow> k \<noteq> j \<Longrightarrow> t \<notin> reads_from (heap b ! k)"
      unfolding exclusive_def by blast+
    from ex(1) size show "t < net_size b'" by simp
    fix k assume "k < length (heap b')" "k \<noteq> j"
    then show "t \<notin> reads_from (heap b' ! k)" using sub ex(2) by blast
  qed
qed

lemma outside_handle:
  assumes "dialing cfg" and "bridge_ok b" and "socket_handle cfg ch p b = (r, b')"
    and "\<And>q. r \<noteq> Panic q"
  shows "from_outside b b'"
  using assms(3)
proof (cases rule: socket_handle_cases)
  case quiet
  then show ?thesis by (simp add: quiet_def from_outsideI)
next
  case (auth w c r')
  have "\<And>q. r' \<noteq> Panic q" using auth(8) assms(4) by blast
  with Serial_side [OF assms(1) auth(7)] auth(1) show ?thesis by (simp add: from_outside_def)
next
  case (open_service l rc t u)
  then show ?thesis by (auto simp: from_outside_def nth_append reads_from_def)
next
  case (service i)
  have ok: "list_all proc_ok (heap b)" using assms(2) by (simp add: bridge_ok_def)
  from service_Handle_heap [OF service(3)] have "\<forall>j < length (heap b). nudged (heap b ! j) (heap b' ! j)"
    using ok by (auto simp: nth_upd heap_service_End list_all_length nudged_ack)
  with service_Handle_side [OF service(3)] show ?thesis by (simp add: from_outside_def)
qed

lemma closing_outside:
  assumes "bridge_ok b"
  shows "from_outside b (closing_step order b)"
proof -
  have fold: "device_side {} (net b1) (net (fold service_End is b1))" for "is" b1
  proof (induction "is" arbitrary: b1)
    case (Cons i "is")
    then show ?case using service_End_side [of b1 i] device_side_trans by fastforce
  qed simp
  have "list_all proc_ok (heap b)" using assms by (simp add: bridge_ok_def)
  with fold [of b order] show ?thesis
    by (auto simp: from_outside_def closing_step_def sm_End_def Let_def bridge_frame nth_heap_fold_End
        list_all_length)
qed

lemma bstep_outside:
  assumes "dialing cfg" and "bridge_ok b" and "bstep cfg b a b'" and "crashed b' = None"
    and "\<And>i. a \<noteq> Opener i" and "\<And>i. a \<noteq> Forwarder i"
  shows "from_outside b b'"
  using assms(3)
proof cases
  case (step_main ch)
  from step_main(3) show ?thesis
  proof (cases rule: main_step_cases)
    case (dispatch p r b1 pc)
    show ?thesis
    proof (cases "\<exists>q. r = Panic q")
      case True
      with dispatch(1,2) step_main(3) assms(4) show ?thesis by (auto simp: main_step_def crash_def)
    next
      case False
      with outside_handle [OF assms(1,2) dispatch(2)] dispatch(3) show ?thesis
        by (auto simp: from_outside_def)
    qed
  qed (auto simp: socket_End_def intro!: from_outsideI)
next
  case (step_close order)
  with closing_outside [OF assms(2)] show ?thesis by simp
qed (use assms(5,6) in \<open>auto simp: socket_End_def intro!: from_outsideI\<close>)

definition sound :: "bridge \<Rightarrow> bool" where
  "sound b \<longleftrightarrow> bridge_ok b \<and> (crashed b = None \<longrightarrow> exclusive b)"

lemma bstep_sound:
  assumes "dialing cfg" and "sound b" and "bstep cfg b a b'"
  shows "sound b'"
proof -
  have ok: "bridge_ok b" using assms(2) by (simp add: sound_def)
  have "exclusive b'" if alive: "crashed b' = None"
  proof -
    from assms(3) have "crashed b = None" by cases auto
    with assms(2) have ex: "exclusive b" by (simp add: sound_def)
    show ?thesis
    proof (cases a)
      case (Opener i)
      with assms(3) have i: "i < length (heap b)" "open_step cfg i b = Some b'" by (auto elim: bstep_OpenerE)
      with moved_open_step [OF assms(1) i(2,1) alive] ex show ?thesis by (blast intro: exclusive_moved)
    next
      case (Forwarder i)
      with assms(3) obtain tick where i: "i < length (heap b)" "fwd_step tick i b = Some b'"
        by (auto elim: bstep_ForwarderE)
      with moved_fwd_step [OF i(2,1)] ex show ?thesis by (blast intro: exclusive_moved)
    qed (use bstep_outside [OF assms(1) ok assms(3) alive] ex in \<open>auto intro: exclusive_outside\<close>)
  qed
  with bstep_ok [OF ok assms(3)] show ?thesis by (simp add: sound_def)
qed

lemma sound_NewSocket: "sound (NewSocket w c)"
  using bridge_ok_NewSocket by (simp add: sound_def exclusive_def NewSocket_def)

section \<open>From the device to the client\<close>

definition data_sent :: "service_ref \<Rightarrow> (bridge, actor) transition \<Rightarrow> bytes" where
  "data_sent i t = (case t of (b, a, b') \<Rightarrow>
     if a = Forwarder i \<and> \<not> ended (heap b ! i)
     then (case fwd_pc (heap b ! i) of FwdSend d \<Rightarrow> d | _ \<Rightarrow> []) else [])"

fun inflight :: "fwd_pc \<Rightarrow> bytes" where
  "inflight (FwdSend d) = d"
| "inflight _ = []"

definition forwarding :: "service_ref \<Rightarrow> nat \<Rightarrow> bytes \<Rightarrow> bytes \<Rightarrow> bridge \<Rightarrow> bool" where
  "forwarding i t stream out b \<longleftrightarrow> i < length (heap b) \<and> fwd_pc (heap b ! i) \<noteq> FwdIdle \<and>
     prefix out stream \<and>
     (crashed b = None \<and> \<not> ended (heap b ! i) \<longrightarrow> transport (heap b ! i) = Some t \<and>
        (\<forall>t' n. fwd_pc (heap b ! i) = FwdRead t' n \<longrightarrow> t' = t) \<and>
        out @ inflight (fwd_pc (heap b ! i)) @ pending (conns (net b) ! t) = stream)"

lemma fwd_step_forwards:
  assumes step: "fwd_step tick i b = Some b'" and "proc_ok (heap b ! i)" and "\<not> ended (heap b ! i)"
    and fw: "forwarding i t stream out b" and "crashed b = None" and t: "t < net_size b"
  shows "forwarding i t stream (out @ data_sent i (b, Forwarder i, b')) b'"
proof -
  let ?s = "heap b ! i"
  from fw assms(3,5) have i: "i < length (heap b)" and tr: "transport ?s = Some t"
      and own: "\<And>t' n. fwd_pc ?s = FwdRead t' n \<Longrightarrow> t' = t" and pre: "prefix out stream"
      and eq: "out @ inflight (fwd_pc ?s) @ pending (conns (net b) ! t) = stream"
    by (auto simp: forwarding_def)
  show ?thesis
  proof (cases "fwd_pc ?s")
    case (FwdRead t' n)
    with own have t': "t' = t" by blast
    let ?c = "conns (net b) ! t"
    obtain r c where r: "conn_Read n ?c = (r, c)" by (cases "conn_Read n ?c")
    from t r have on: "on_net (on_conn t (conn_Read n)) b = (r, b\<lparr>net := (net b)\<lparr>conns := (conns (net b))[t := c]\<rparr>\<rparr>)"
      by (simp add: on_net_def on_conn_def net_size_def)
    have pend: "pending ?c = (case r of Ok d \<Rightarrow> d | _ \<Rightarrow> []) @ pending c" and np: "\<And>q. r \<noteq> Panic q"
      using r by (auto simp: conn_Read_def pending_def split: if_splits list.splits)
    show ?thesis
      using step FwdRead t' on pend np i tr pre eq t assms(3)
      by (cases r) (auto simp: fwd_step_def forwarding_def data_sent_def net_size_def fwd_goto_def
          bridge_frame split: if_splits)
  next
    case (FwdSend d)
    with eq have "prefix (out @ d) stream" by (metis append_assoc inflight.simps(1) prefixI)
    with FwdSend step i tr eq assms(3) show ?thesis
      by (auto simp: fwd_step_def Let_def forwarding_def data_sent_def bridge_frame)
  next
    case FwdEnd
    with step i pre show ?thesis
      by (auto simp: fwd_step_def forwarding_def data_sent_def heap_service_End)
  next
    case FwdSignal
    with assms(2,3) show ?thesis by (simp add: proc_ok_def)
  qed (use step i tr pre eq assms(3) in \<open>auto simp: fwd_step_def Let_def forwarding_def data_sent_def
        fwd_goto_def bridge_frame split: if_splits option.splits\<close>)
qed

lemma started_iff: "proc_ok s \<Longrightarrow> fwd_pc s \<noteq> FwdIdle \<longleftrightarrow> opened s"
  by (cases "fwd_pc s") (auto simp: proc_ok_def)

lemma bstep_persists:
  assumes "bridge_ok b" and "bstep cfg b a b'" and i: "i < length (heap b)"
  shows "i < length (heap b') \<and> (ended (heap b ! i) \<longrightarrow> ended (heap b' ! i)) \<and>
    (opened (heap b ! i) \<longrightarrow> opened (heap b' ! i))"
proof -
  have changes: ?thesis if "only_changes j b b'" for j
    using that i by (auto simp: only_changes_def nth_upd)
  from assms(2) show ?thesis
  proof cases
    case (step_main ch)
    from step_main(3) show ?thesis
    proof (cases rule: main_step_cases)
      case (dispatch p r b1 pc)
      from dispatch(2) have "i < length (heap b1) \<and> (ended (heap b ! i) \<longrightarrow> ended (heap b1 ! i)) \<and>
          (opened (heap b ! i) \<longrightarrow> opened (heap b1 ! i))"
      proof (cases rule: socket_handle_cases)
        case (service j)
        from only_changes_service_Handle [OF service(3)] i show ?thesis
          by (auto simp: only_changes_def nth_upd)
      qed (use i in \<open>auto simp: quiet_def nth_append\<close>)
      with dispatch(3) show ?thesis by (auto simp: crash_def)
    qed (use i in \<open>auto simp: socket_End_def\<close>)
  next
    case (step_open j)
    with changes only_changes_open_step show ?thesis by blast
  next
    case (step_fwd j tick)
    moreover have "maxPayload b \<le> UINT16_MAX" using assms(1) by (simp add: bridge_ok_def)
    ultimately show ?thesis using changes only_changes_fwd_step by blast
  next
    case (step_close order)
    with i show ?thesis
      by (auto simp: closing_step_def sm_End_def Let_def bridge_frame nth_heap_fold_End ended_proc_def)
  qed (use i in \<open>auto simp: socket_End_def\<close>)
qed

lemma forwarding_persists:
  assumes "forwarding i t stream out b" and "bridge_ok b" and "bstep cfg b a b'"
  shows "i < length (heap b') \<and> fwd_pc (heap b' ! i) \<noteq> FwdIdle \<and> prefix out stream"
proof -
  have i: "i < length (heap b)" "fwd_pc (heap b ! i) \<noteq> FwdIdle" "prefix out stream"
    using assms(1) by (auto simp: forwarding_def)
  have ok: "list_all proc_ok (heap b)" "list_all proc_ok (heap b')"
    using assms(2) bstep_ok [OF assms(2,3)] by (auto simp: bridge_ok_def)
  with i bstep_persists [OF assms(2,3) i(1)] show ?thesis
    using started_iff [of "heap b ! i"] started_iff [of "heap b' ! i"] by (auto simp: list_all_length)
qed

lemma moved_forwards:
  assumes "moved j b b'" and "exclusive b" and "j \<noteq> i" and "j < length (heap b)"
    and "forwarding i t stream out b" and "crashed b = None"
  shows "forwarding i t stream out b'"
proof -
  from assms(5) have i: "i < length (heap b)" by (simp add: forwarding_def)
  from assms(1) obtain s where s: "heap b' = (heap b)[j := s]"
      "device_side (reads_from (heap b ! j)) (net b) (net b')" by (auto simp: moved_def)
  have "pending (conns (net b') ! t) = pending (conns (net b) ! t)" if "transport (heap b ! i) = Some t"
  proof -
    from that have "t \<in> reads_from (heap b ! i)" by (simp add: reads_from_def)
    with assms(2-4) i have "t < net_size b" "t \<notin> reads_from (heap b ! j)"
      unfolding exclusive_def by blast+
    with s(2) show ?thesis by (simp add: device_side_def net_size_def)
  qed
  with assms(3,5,6) s(1) i show ?thesis by (auto simp: forwarding_def nth_upd)
qed

lemma outside_forwards:
  assumes "from_outside b b'" and "exclusive b" and "forwarding i t stream out b" and "crashed b = None"
  shows "forwarding i t stream out b'"
proof -
  let ?s = "heap b ! i" and ?s' = "heap b' ! i"
  from assms(3) have i: "i < length (heap b)" by (simp add: forwarding_def)
  with assms(1) have n: "nudged ?s ?s'" and len: "i < length (heap b')"
    and side: "device_side {} (net b) (net b')" by (auto simp: from_outside_def)
  have "pending (conns (net b') ! t) = pending (conns (net b) ! t)" if "transport ?s = Some t"
  proof -
    from that have "t \<in> reads_from ?s" by (simp add: reads_from_def)
    with assms(2) i have "t < net_size b" unfolding exclusive_def by blast
    with side show ?thesis by (simp add: device_side_def net_size_def)
  qed
  with n len assms(3,4) show ?thesis by (auto simp: forwarding_def nudged_def)
qed

lemma opener_waits:
  assumes "proc_ok (heap b ! i)" and "fwd_pc (heap b ! i) \<noteq> FwdIdle" and "\<not> ended (heap b ! i)"
  shows "open_step cfg i b = None"
  using assms by (cases "fwd_pc (heap b ! i)") (auto simp: open_step_def proc_ok_def Wait_returns_def)

lemma bstep_forwards:
  assumes "dialing cfg" and "sound b" and "bstep cfg b a b'" and "forwarding i t stream out b"
  shows "forwarding i t stream (out @ data_sent i (b, a, b')) b'"
proof (cases "ended (heap b ! i)")
  case True
  with assms forwarding_persists [of i t stream out b cfg a b'] bstep_persists [of b cfg a b' i]
  show ?thesis by (auto simp: forwarding_def data_sent_def sound_def)
next
  case False
  have ok: "bridge_ok b" using assms(2) by (simp add: sound_def)
  from assms(3) have alive: "crashed b = None" by cases auto
  with assms(2) have ex: "exclusive b" by (simp add: sound_def)
  have i: "i < length (heap b)" "fwd_pc (heap b ! i) \<noteq> FwdIdle" "transport (heap b ! i) = Some t"
    using assms(4) False alive by (auto simp: forwarding_def)
  then have pok: "proc_ok (heap b ! i)" using ok by (simp add: bridge_ok_def list_all_length)
  show ?thesis
  proof (cases "a = Forwarder i")
    case True
    with assms(3) obtain tick where "fwd_step tick i b = Some b'" by (auto elim: bstep_ForwarderE)
    moreover have "t \<in> reads_from (heap b ! i)" using i(3) by (simp add: reads_from_def)
    then have "t < net_size b" using ex i(1) unfolding exclusive_def by blast
    ultimately show ?thesis using fwd_step_forwards [OF _ pok False assms(4) alive] True by blast
  next
    case other: False
    then have none: "data_sent i (b, a, b') = []" by (simp add: data_sent_def)
    have "forwarding i t stream out b'"
    proof (cases "crashed b' = None")
      case True
      show ?thesis
      proof (cases a)
        case (Opener j)
        with assms(3) have j: "j < length (heap b)" "open_step cfg j b = Some b'" by (auto elim: bstep_OpenerE)
        with opener_waits [OF pok i(2) False, of cfg] have "j \<noteq> i" by auto
        with moved_forwards [OF moved_open_step [OF assms(1) j(2,1) True] ex] j assms(4) alive
        show ?thesis by blast
      next
        case (Forwarder j)
        with other assms(3) obtain tick where j: "j < length (heap b)" "fwd_step tick j b = Some b'" "j \<noteq> i"
          by (auto elim: bstep_ForwarderE)
        with moved_forwards [OF moved_fwd_step [OF j(2,1)] ex] assms(4) alive show ?thesis by blast
      qed (use bstep_outside [OF assms(1) ok assms(3) True] outside_forwards ex assms(4) alive in auto)
    next
      case False
      with forwarding_persists [OF assms(4) ok assms(3)] show ?thesis by (auto simp: forwarding_def)
    qed
    with none show ?thesis by simp
  qed
qed
interpretation sound_inv: invariant "bstep cfg" "\<lambda>b. dialing cfg \<and> sound b" for cfg
  by unfold_locales (blast intro: bstep_sound)

definition sent_to_client :: "service_ref \<Rightarrow> (bridge, actor) transition list \<Rightarrow> bytes" where
  "sent_to_client i tr = concat (map (data_sent i) tr)"

lemma run_forwards:
  assumes "run (bstep cfg) b0 tr b" and "dialing cfg" and "sound b0" and "forwarding i t stream [] b0"
  shows "sound b \<and> forwarding i t stream (sent_to_client i tr) b"
  using assms(1,3,4)
proof (induction rule: run.induct)
  case (run_snoc b0 tr b1 a b2)
  then have "sound b1" "forwarding i t stream (sent_to_client i tr) b1" by simp_all
  with run_snoc.hyps(2) bstep_sound [OF assms(2)] bstep_forwards [OF assms(2)]
  have "sound b2" "forwarding i t stream (sent_to_client i tr @ data_sent i (b1, a, b2)) b2" by blast+
  then show ?case by (simp add: sent_to_client_def)
qed (simp add: sent_to_client_def)

text \<open>The packet in which the data of a transition goes out.\<close>

lemma data_sent_packet:
  assumes "bstep cfg b a b'" and "data_sent i (b, a, b') \<noteq> []" and "\<not> sock_ended b"
    and "\<not> isclosed (sock_conn b)" and "room (sock_conn b) = None"
  shows "outgoing (sock_conn b') = outgoing (sock_conn b) @
    Assemble A_WRTE (localID (heap b ! i)) (remoteID (heap b ! i)) (data_sent i (b, a, b'))"
proof -
  from assms(2) obtain d where d: "a = Forwarder i" "\<not> ended (heap b ! i)" "fwd_pc (heap b ! i) = FwdSend d"
      "data_sent i (b, a, b') = d"
    by (auto simp: data_sent_def split: if_splits fwd_pc.splits)
  with assms(1) obtain tick where "fwd_step tick i b = Some b'" by (auto elim: bstep_ForwarderE)
  with d(2,3) assms(3-5) have "outgoing (sock_conn b') = outgoing (sock_conn b) @
      Assemble A_WRTE (localID (heap b ! i)) (remoteID (heap b ! i)) d"
    by (auto simp: fwd_step_def Let_def send_def socket_Write_def)
  with d(4) show ?thesis by simp
qed

text \<open>C5: once a service forwards, the data of its \<^verbatim>\<open>WRTE\<close> packets, in the order in which they are
  sent, is a prefix of what the device sends on the service's transport, whatever the other
  goroutines do; as long as the service has not ended, what was sent, the chunk in hand and
  what the transport still holds together are exactly the device's stream. Each piece goes out
  as one \<^verbatim>\<open>WRTE\<close> packet with the service's identifiers.\<close>

theorem forwarded_data_is_the_device_stream:
  assumes "dialing cfg" and "run (bstep cfg) (NewSocket w c) tr0 b0" and "run (bstep cfg) b0 tr b"
    and "i < length (heap b0)" and "fwd_pc (heap b0 ! i) = FwdTop" and "transport (heap b0 ! i) = Some t"
  shows "prefix (sent_to_client i tr) (pending (conns (net b0) ! t)) \<and>
     (crashed b = None \<and> \<not> ended (heap b ! i) \<longrightarrow>
        sent_to_client i tr @ inflight (fwd_pc (heap b ! i)) @ pending (conns (net b) ! t) =
        pending (conns (net b0) ! t)) \<and>
     (\<forall>(b1, a, b2) \<in> set tr. data_sent i (b1, a, b2) \<noteq> [] \<and> \<not> sock_ended b1 \<and>
        \<not> isclosed (sock_conn b1) \<and> room (sock_conn b1) = None \<longrightarrow>
        outgoing (sock_conn b2) = outgoing (sock_conn b1) @
          Assemble A_WRTE (localID (heap b1 ! i)) (remoteID (heap b1 ! i)) (data_sent i (b1, a, b2)))"
proof -
  let ?S = "pending (conns (net b0) ! t)"
  have "sound b0"
    using sound_inv.run_inv [OF assms(2)] assms(1) sound_NewSocket by blast
  moreover from this have "proc_ok (heap b0 ! i)"
    using assms(4) by (simp add: sound_def bridge_ok_def list_all_length)
  then have "forwarding i t ?S [] b0" using assms(4-6) by (simp add: forwarding_def)
  ultimately have "forwarding i t ?S (sent_to_client i tr) b"
    using run_forwards [OF assms(3,1)] by blast
  moreover have "outgoing (sock_conn b2) = outgoing (sock_conn b1) @
      Assemble A_WRTE (localID (heap b1 ! i)) (remoteID (heap b1 ! i)) (data_sent i (b1, a, b2))"
    if "(b1, a, b2) \<in> set tr" "data_sent i (b1, a, b2) \<noteq> []" "\<not> sock_ended b1"
      "\<not> isclosed (sock_conn b1)" "room (sock_conn b1) = None" for b1 a b2
    using run_transition [OF assms(3) that(1)] that(2-5) by (rule data_sent_packet)
  ultimately show ?thesis by (auto simp: forwarding_def)
qed

theorem forwarded_data_is_the_device_stream_witness:
  "\<exists>tr. run (bstep demo_cfg) (demo_forwarding []) tr (demo_data []) \<and> sent_to_client 0 tr = [1, 2, 3]"
proof -
  obtain tr0 tr where tr: "run (bstep demo_cfg) demo_start tr0 (demo_forwarding [])"
      "run (bstep demo_cfg) (demo_forwarding []) tr (demo_data [])"
    using demo_opening_run demo_forwarding_run by blast
  have "dialing demo_cfg"
    by (auto simp: dialing_def demo_cfg_def client_Device_def NewClientWithConnector_def)
  from forwarded_data_is_the_device_stream [OF this tr, of 0 0] tr(2) show ?thesis
    by (auto simp: demo_forwarding_def demo_data_def demo_opening_def demo_ready_def NewSocket_def
        Let_def pending_def new_conn_def)
qed

end
