(* ===== verification/BridgeOwnership.thy ===== *)
theory BridgeOwnership
  imports BridgeData
begin

text \<open>
  Who has to close a connection the bridge opened to the adb server. A service holds one from
  the moment \<^verbatim>\<open>device.Transport()\<close> returned it, first in the goroutine of the \<^verbatim>\<open>OPEN\<close> packet and
  then in the field \<^verbatim>\<open>s.transport\<close>. Every step of every goroutine either keeps an open
  connection with its holder or closes it, and so the bridge never loses one: not when a
  service is ended while it is being opened, not when two goroutines end the same service,
  and not when the socket is torn down in the middle of an \<^verbatim>\<open>OPEN\<close>.
\<close>

section \<open>Open connections and their holders\<close>

definition open_conns :: "world \<Rightarrow> nat set" where
  "open_conns w = {t. t < length (conns w) \<and> \<not> isclosed (conns w ! t)}"

definition holds :: "proc \<Rightarrow> nat \<Rightarrow> bool" where
  "holds s t \<longleftrightarrow> transport s = Some t \<or> (\<exists>d. open_pc s = OpenInstall d t)"

definition stray :: "bridge \<Rightarrow> nat set" where
  "stray b = {t \<in> open_conns (net b). \<forall>s \<in> set (heap b). \<not> holds s t}"

definition keeps_open :: "(conn, 'a) prog \<Rightarrow> bool" where
  "keeps_open m \<longleftrightarrow> (\<forall>c. isclosed (snd (m c)) = isclosed c)"

lemma keeps_open_Write [simp]: "keeps_open (conn_Write p)"
  by (auto simp: keeps_open_def conn_Write_def split: option.splits)

lemma keeps_open_Read [simp]: "keeps_open (conn_Read n)"
  by (auto simp: keeps_open_def conn_Read_def split: list.splits)

lemma keeps_open_ReadFull [simp]: "keeps_open (ReadFull n)"
  unfolding keeps_open_def
proof
  show "isclosed (snd (ReadFull n c)) = isclosed c" for c
    by (cases "isclosed c"; cases n) (auto simp: ReadFull_closed ReadFull_eq)
qed

lemma open_conns_on_conn:
  assumes "on_conn t m w = (r, w')" and "keeps_open m"
  shows "open_conns w' = open_conns w"
proof -
  have "isclosed c' = isclosed c" if "m c = (r', c')" for c r' c'
    using assms(2) that by (metis keeps_open_def snd_conv)
  with assms(1) show ?thesis
    by (auto simp: on_conn_def open_conns_def nth_upd split: if_splits prod.splits)
qed

lemma open_conns_close [simp]: "open_conns (snd (close_conn h w)) = open_conns w - {h}"
  by (auto simp: close_conn_def on_conn_def conn_Close_def open_conns_def nth_upd
      split: prod.splits if_splits)

lemma open_conns_all_closed: "all_closed (conns w) w' \<Longrightarrow> open_conns w' = open_conns w"
  by (auto simp: all_closed_def open_conns_def nth_append list_all_length split: if_splits)

lemma open_conns_one_open: "one_open (conns w) h w' \<Longrightarrow> open_conns w' \<subseteq> insert h (open_conns w)"
  by (auto simp: one_open_def open_conns_def nth_append list_all_length split: if_splits)

lemma open_conns_Transport:
  assumes "dialing cfg" and "Transport (cfg_device cfg) w = (r, w')" and "\<And>q. r \<noteq> Panic q"
  shows "open_conns w' \<subseteq> open_conns w \<union> {h. r = Ok h}"
proof -
  have t: "triple (all_closed (conns w)) (Transport (cfg_device cfg)) (one_open (conns w)) (all_closed (conns w))"
    using dialing_Transport [OF assms(1)] by (simp add: yields_conn_def)
  show ?thesis
  proof (cases r)
    case (Ok h)
    with triple_Ok [OF t all_closed_start] assms(2) show ?thesis using open_conns_one_open by fastforce
  next
    case (Err e)
    with triple_Err [OF t all_closed_start] assms(2) show ?thesis using open_conns_all_closed by blast
  qed (use assms(3) in auto)
qed

lemma open_conns_Serial:
  assumes "dialing cfg" and "device_Serial (cfg_device cfg) late w = (r, w')" and "\<And>q. r \<noteq> Panic q"
  shows "open_conns w' = open_conns w"
  using leak_freeD [OF dialing_Serial [OF assms(1)] assms(2,3)] open_conns_all_closed
  by (auto simp: all_closed_def)

section \<open>No step loses a connection\<close>

lemma stray_upd:
  assumes "heap b' = (heap b)[i := s]" and "i < length (heap b)"
    and "\<And>t. t \<in> open_conns (net b') \<Longrightarrow> t \<in> open_conns (net b) \<or> holds s t"
    and "\<And>t. holds (heap b ! i) t \<Longrightarrow> holds s t \<or> t \<notin> open_conns (net b')"
  shows "stray b' \<subseteq> stray b"
proof -
  have s: "s \<in> set (heap b')" using assms(1,2) by (simp add: set_update_memI)
  have "x \<in> set (heap b') \<or> x = heap b ! i" if "x \<in> set (heap b)" for x
    using that assms(1,2) by (metis in_set_conv_nth length_list_update nth_list_update_neq)
  with s assms(3,4) show ?thesis by (fastforce simp: stray_def)
qed

lemma stray_keep:
  assumes "heap b' = heap b" and "open_conns (net b') \<subseteq> open_conns (net b)"
  shows "stray b' \<subseteq> stray b"
  using assms by (auto simp: stray_def)

lemma stray_pc:
  assumes "heap b1 = heap b" and "i < length (heap b)" and "open_conns (net b1) \<subseteq> open_conns (net b)"
    and "\<And>d t. open_pc (heap b ! i) \<noteq> OpenInstall d t"
  shows "stray (goto i pc b1) \<subseteq> stray b" "stray (fwd_goto i fp b1) \<subseteq> stray b"
  by (rule stray_upd [of _ _ i "(heap b ! i)\<lparr>open_pc := pc\<rparr>"]; use assms in \<open>auto simp: holds_def\<close>)
    (rule stray_upd [of _ _ i "(heap b ! i)\<lparr>fwd_pc := fp\<rparr>"]; use assms in \<open>auto simp: holds_def\<close>)

lemma open_conns_on_transport:
  assumes "on_transport i m b = (r, b')" and "keeps_open m"
  shows "open_conns (net b') = open_conns (net b)"
  using assms open_conns_on_conn
  by (fastforce simp: on_transport_def on_net_def split: option.splits prod.splits)

lemma stray_proceed:
  assumes "crashed (proceed i (on_transport i m) k b) = None" and "i < length (heap b)" and "keeps_open m"
    and "\<And>d t. open_pc (heap b ! i) \<noteq> OpenInstall d t"
  shows "stray (proceed i (on_transport i m) k b) \<subseteq> stray b"
proof -
  have "stray (goto i pc b1) \<subseteq> stray b" if "on_transport i m b = (r, b1)" for r b1 pc
    using heap_on_transport [OF that] open_conns_on_transport [OF that assms(3)] assms(2,4)
    by (intro stray_pc(1)) simp_all
  with assms(1) show ?thesis
    by (cases "on_transport i m b" rule: prod.exhaust) (auto simp: proceed_def crash_def split: result.splits)
qed

lemma open_conns_End:
  "open_conns (net (service_End i b)) =
     (if ended (heap b ! i) then open_conns (net b) else open_conns (net b) - {t. transport (heap b ! i) = Some t})"
  by (auto simp: service_End_def Let_def close_transport_def split: option.splits)

text \<open>Ending a service, and then moving one of its two goroutines, drops nothing.\<close>

lemma stray_End_step:
  assumes "heap b' = (heap b)[i := s]" and "net b' = net (service_End i b)" and "i < length (heap b)"
    and "transport s = transport (ended_proc (heap b ! i))"
    and "\<And>d t. open_pc (heap b ! i) = OpenInstall d t \<Longrightarrow> open_pc s = OpenInstall d t"
  shows "stray b' \<subseteq> stray b"
  using assms(1,3) by (rule stray_upd)
    (use assms(2,4,5) in \<open>auto simp: open_conns_End holds_def ended_proc_def split: if_splits\<close>)

lemma stray_End: "i < length (heap b) \<Longrightarrow> stray (service_End i b) \<subseteq> stray b"
  by (rule stray_End_step [of _ _ i "ended_proc (heap b ! i)"]) (simp_all add: heap_service_End)

lemma stray_fold_End:
  "\<forall>i \<in> set is. i < length (heap b) \<Longrightarrow> stray (fold service_End is b) \<subseteq> stray b"
proof (induction "is" arbitrary: b)
  case (Cons i "is")
  then have "stray (fold service_End is (service_End i b)) \<subseteq> stray (service_End i b)"
    by (auto simp: heap_service_End)
  with Cons.prems stray_End [of i b] show ?case by auto
qed simp

lemma stray_dial:
  assumes "dialing cfg" and "open_pc (heap b ! i) = OpenDial d" and i: "i < length (heap b)"
    and step: "open_step cfg i b = Some b'" and alive: "crashed b' = None"
  shows "stray b' \<subseteq> stray b"
proof -
  obtain r w where w: "Transport (cfg_device cfg) (net b) = (r, w)"
    by (cases "Transport (cfg_device cfg) (net b)")
  have b': "b' = proceed i (on_net (Transport (cfg_device cfg))) (OpenInstall d) b"
    using assms(2) step by (simp add: open_step_def)
  note new = open_conns_Transport [OF assms(1) w]
  show ?thesis
  proof (cases r)
    case (Ok t)
    let ?s = "(heap b ! i)\<lparr>open_pc := OpenInstall d t\<rparr>"
    from Ok w b' have "heap b' = (heap b)[i := ?s]" "net b' = w" by (auto simp: proceed_def on_net_def)
    with new Ok assms(2) i show ?thesis by (intro stray_upd [of _ _ i ?s]) (auto simp: holds_def)
  next
    case (Err e)
    with w b' have "b' = goto i OpenRemove (b\<lparr>net := w\<rparr>)" by (simp add: proceed_def on_net_def)
    moreover have "open_conns w \<subseteq> open_conns (net b)" using new Err by simp
    ultimately show ?thesis using i assms(2) by (simp add: stray_pc(1))
  qed (use w b' alive in \<open>simp add: proceed_def on_net_def crash_def\<close>)
qed

lemma stray_install:
  assumes "open_pc (heap b ! i) = OpenInstall d t" and i: "i < length (heap b)"
    and "proc_ok (heap b ! i)" and step: "open_step cfg i b = Some b'"
  shows "stray b' \<subseteq> stray b"
proof (cases "ended (heap b ! i)")
  case True
  with assms have "b' = goto i OpenRemove (close_transport (Some t) b)" by (simp add: open_step_def)
  then have "heap b' = (heap b)[i := (heap b ! i)\<lparr>open_pc := OpenRemove\<rparr>]"
      "open_conns (net b') = open_conns (net b) - {t}"
    by (simp_all add: bridge_frame close_transport_def)
  then show ?thesis by (intro stray_upd) (use assms in \<open>auto simp: holds_def proc_ok_def\<close>)
next
  case False
  with assms have "heap b' = (heap b)[i := (heap b ! i)\<lparr>transport := Some t, open_pc := OpenWrite d\<rparr>]"
      "net b' = net b" by (auto simp: open_step_def bridge_frame)
  then show ?thesis by (intro stray_upd) (use assms in \<open>auto simp: holds_def proc_ok_def\<close>)
qed

lemma stray_pcD:
  assumes "t \<in> stray (goto i pc b1)" and "heap b1 = heap b" and "i < length (heap b)"
    and "net b1 = net b" and "\<And>d t. open_pc (heap b ! i) \<noteq> OpenInstall d t"
  shows "t \<in> stray b"
  using assms stray_pc(1) [of b1 b i pc] by auto

lemma stray_open_step:
  assumes "dialing cfg" and ok: "proc_ok (heap b ! i)" and i: "i < length (heap b)"
    and step: "open_step cfg i b = Some b'" and alive: "crashed b' = None"
  shows "stray b' \<subseteq> stray b"
proof (cases "open_pc (heap b ! i)")
  case (OpenDial d)
  then show ?thesis using stray_dial assms by blast
next
  case (OpenInstall d t)
  then show ?thesis using stray_install assms by blast
next
  case (OpenWrite d)
  with step alive i show ?thesis by (auto simp: open_step_def intro: stray_proceed [THEN subsetD])
next
  case OpenRead
  with step alive i show ?thesis by (auto simp: open_step_def intro: stray_proceed [THEN subsetD])
next
  case OpenOkay
  with step i show ?thesis by (auto simp: open_step_def Let_def bridge_frame elim!: stray_pcD)
next
  case OpenForward
  with step i have "heap b' = (heap b)[i := (heap b ! i)\<lparr>opened := True, fwd_pc := FwdTop, open_pc := OpenWait\<rparr>]"
      "net b' = net b" by (auto simp: open_step_def bridge_frame)
  then show ?thesis by (intro stray_upd) (use OpenForward i in \<open>auto simp: holds_def\<close>)
next
  case OpenEnd
  with step i show ?thesis
    by (intro stray_End_step [of _ _ i "(ended_proc (heap b ! i))\<lparr>open_pc := OpenDone\<rparr>"])
      (auto simp: open_step_def heap_service_End)
next
  case OpenFail
  with step alive i show ?thesis by (auto simp: open_step_def intro: stray_proceed [THEN subsetD])
qed (use step i in \<open>auto simp: open_step_def Let_def elim!: stray_pcD split: if_splits\<close>)

lemma stray_fwd_goto:
  assumes "heap b1 = heap b" and "i < length (heap b)" and "open_conns (net b1) \<subseteq> open_conns (net b)"
  shows "stray (fwd_goto i fp b1) \<subseteq> stray b"
  by (rule stray_upd [of _ _ i "(heap b ! i)\<lparr>fwd_pc := fp\<rparr>"]) (use assms in \<open>auto simp: holds_def\<close>)

lemma stray_fwdD: "t \<in> stray (fwd_goto i fp b) \<Longrightarrow> i < length (heap b) \<Longrightarrow> t \<in> stray b"
  using stray_fwd_goto [of b b i fp] by auto

lemma stray_fwd_step:
  assumes i: "i < length (heap b)" and step: "fwd_step tick i b = Some b'" and alive: "crashed b' = None"
  shows "stray b' \<subseteq> stray b"
proof (cases "fwd_pc (heap b ! i)")
  case (FwdRead t n)
  obtain r b1 where r: "on_net (on_conn t (conn_Read n)) b = (r, b1)"
    by (cases "on_net (on_conn t (conn_Read n)) b")
  with open_conns_on_conn have "heap b1 = heap b" "open_conns (net b1) = open_conns (net b)"
    by (fastforce simp: on_net_def split: prod.splits)+
  then have "stray (fwd_goto i fp b1) \<subseteq> stray b" for fp using stray_fwd_goto i by simp
  with FwdRead step r alive show ?thesis by (cases r) (auto simp: fwd_step_def crash_def)
next
  case (FwdSend d)
  have "stray (fwd_goto i FwdTop b) \<subseteq> stray b" using stray_fwd_goto i by simp
  moreover have "stray b' \<subseteq> stray b" if "\<not> ended (heap b ! i)"
    by (rule stray_upd [of _ _ i "(heap b ! i)\<lparr>needAck := True, fwd_pc := FwdTop\<rparr>"])
      (use that FwdSend step i in \<open>auto simp: fwd_step_def Let_def bridge_frame holds_def\<close>)
  ultimately show ?thesis using FwdSend step by (cases "ended (heap b ! i)") (simp_all add: fwd_step_def)
next
  case FwdEnd
  with step i show ?thesis
    by (intro stray_End_step [of _ _ i "(ended_proc (heap b ! i))\<lparr>fwd_pc := FwdSignal\<rparr>"])
      (auto simp: fwd_step_def heap_service_End)
next
  case FwdSignal
  with step i show ?thesis
    by (intro stray_upd [of _ _ i "(heap b ! i)\<lparr>doneCh := True, fwd_pc := FwdDone\<rparr>"])
      (auto simp: fwd_step_def bridge_frame holds_def)
qed (use step i in \<open>auto simp: fwd_step_def Let_def elim!: stray_fwdD split: if_splits option.splits\<close>)

lemma stray_service_Handle:
  assumes "service_Handle i p b = (r, b')" and "i < length (heap b)"
  shows "stray b' \<subseteq> stray b"
proof -
  have "open_conns (net b1) = open_conns (net b)" if "on_net (on_conn t (conn_Write d)) b = (q, b1)" for t d q b1
    using that open_conns_on_conn by (fastforce simp: on_net_def split: prod.splits)
  then have "open_conns (net b') \<subseteq> open_conns (net b)"
    using assms open_conns_End [of i b]
    by (auto simp: service_Handle_def handleOkayPacket_def handleWritePacket_def handleClosePacket_def
        Let_def fail_def ret_def andThen_def split: if_splits option.splits prod.splits result.splits)
  with service_Handle_heap [OF assms(1)] stray_End [OF assms(2)] stray_keep [of b' b] show ?thesis
    using stray_upd [of b' b i "(heap b ! i)\<lparr>needAck := False\<rparr>"] assms(2) by (auto simp: holds_def)
qed

lemma table_service:
  assumes "bridge_ok b" and "sm_Get k (service_table b) = Some i"
  shows "i < length (heap b)"
  using assms table_ok_entry [of "cleaned b" "service_table b" "slots b"] by (auto simp: bridge_ok_def slots_def)

lemma stray_handle:
  assumes "dialing cfg" and "bridge_ok b" and "socket_handle cfg ch p b = (r, b')" and "\<And>q. r \<noteq> Panic q"
  shows "stray b' \<subseteq> stray b"
  using assms(3)
proof (cases rule: socket_handle_cases)
  case quiet
  then show ?thesis by (auto simp: quiet_def intro: stray_keep [THEN subsetD])
next
  case (auth w c r')
  have "\<And>q. r' \<noteq> Panic q" using auth(8) assms(4) by blast
  with open_conns_Serial [OF assms(1) auth(7)] auth(1) show ?thesis by (auto simp: stray_def)
next
  case (open_service l rc t u)
  then show ?thesis by (auto simp: stray_def)
next
  case (service i)
  have "i < length (heap b)" using table_service [OF assms(2) service(2)] .
  with stray_service_Handle [OF service(3)] show ?thesis .
qed

lemma stray_closing:
  assumes "bridge_ok b" and "set order = ran (services (service_table b))"
  shows "stray (closing_step order b) \<subseteq> stray b"
proof -
  have "\<forall>i \<in> set order. i < length (heap b)"
    using assms table_service by (auto simp: ran_def sm_Get_def)
  from stray_fold_End [OF this] show ?thesis
    by (simp add: closing_step_def sm_End_def Let_def stray_def)
qed

lemma bstep_stray:
  assumes "dialing cfg" and ok: "bridge_ok b" and "bstep cfg b a b'" and alive: "crashed b' = None"
  shows "stray b' \<subseteq> stray b"
  using assms(3)
proof cases
  case (step_main ch)
  from step_main(3) show ?thesis
  proof (cases rule: main_step_cases)
    case (dispatch p r b1 pc)
    show ?thesis
    proof (cases "\<exists>q. r = Panic q")
      case True
      with dispatch(1,2) step_main(3) alive show ?thesis by (auto simp: main_step_def crash_def)
    next
      case False
      with stray_handle [OF assms(1) ok dispatch(2)] dispatch(3) show ?thesis by (auto simp: stray_def)
    qed
  qed (auto simp: socket_End_def stray_def)
next
  case (step_open i)
  with ok stray_open_step [OF assms(1) _ step_open(3,4) alive] show ?thesis
    by (simp add: bridge_ok_def list_all_length)
next
  case (step_fwd i tick)
  then show ?thesis using stray_fwd_step [OF step_fwd(3,4) alive] by simp
next
  case step_shutdown
  then show ?thesis by (auto simp: socket_End_def stray_def)
next
  case (step_close order)
  with stray_closing [OF ok] show ?thesis by simp
qed

interpretation owner_inv: invariant "bstep cfg"
    "\<lambda>b. dialing cfg \<and> sound b \<and> (crashed b = None \<longrightarrow> stray b \<subseteq> S)" for cfg S
proof unfold_locales
  fix b a b' assume inv: "dialing cfg \<and> sound b \<and> (crashed b = None \<longrightarrow> stray b \<subseteq> S)" and step: "bstep cfg b a b'"
  from step have "crashed b = None" by cases auto
  with inv step bstep_sound [of cfg b a b'] bstep_stray [of cfg b a b']
  show "dialing cfg \<and> sound b' \<and> (crashed b' = None \<longrightarrow> stray b' \<subseteq> S)" by (auto simp: sound_def)
qed

text \<open>C9: the bridge does not lose device connections. In every reachable state of a socket, each
  connection that was opened for it and is still open is held by exactly one service: it is
  that service's transport, or its goroutine has just been handed it. A service whose
  goroutine has finished, and one that has ended and is past taking its connection over, holds
  none; so when the goroutines of all \<^verbatim>\<open>OPEN\<close> packets have finished, all connections the
  socket opened are closed.\<close>

theorem device_connections_are_owned:
  assumes "dialing cfg" and "run (bstep cfg) (NewSocket w c) tr b" and "crashed b = None"
  shows "(\<forall>t. t \<in> open_conns (net b) \<and> length (conns w) \<le> t \<longrightarrow>
       (\<exists>!i. i < length (heap b) \<and> holds (heap b ! i) t)) \<and>
     (\<forall>s t. s \<in> set (heap b) \<and> holds s t \<longrightarrow>
       open_pc s \<noteq> OpenDone \<and> (ended s \<longrightarrow> (\<exists>d. open_pc s = OpenInstall d t))) \<and>
     ((\<forall>s \<in> set (heap b). open_pc s = OpenDone) \<longrightarrow>
       (\<forall>t < length (conns (net b)). length (conns w) \<le> t \<longrightarrow> isclosed (conns (net b) ! t)))"
proof -
  have "stray (NewSocket w c) \<subseteq> {..< length (conns w)}"
    by (auto simp: stray_def open_conns_def NewSocket_def)
  then have inv: "sound b" "stray b \<subseteq> {..< length (conns w)}"
    using owner_inv.run_inv [OF assms(2)] assms(1,3) sound_NewSocket by blast+
  have ok: "\<And>s. s \<in> set (heap b) \<Longrightarrow> proc_ok s" and ex: "exclusive b"
    using inv(1) assms(3) by (auto simp: sound_def bridge_ok_def list_all_iff)
  have held: "\<exists>i < length (heap b). holds (heap b ! i) t"
    if "t \<in> open_conns (net b)" "length (conns w) \<le> t" for t
    using inv(2) that by (fastforce simp: stray_def in_set_conv_nth)
  have one: "i = j" if "i < length (heap b)" "holds (heap b ! i) t" "j < length (heap b)" "holds (heap b ! j) t" for i j t
  proof -
    have "t \<in> reads_from (heap b ! i)" "t \<in> reads_from (heap b ! j)"
      using that by (auto simp: reads_from_def holds_def)
    with ex that(1,3) show ?thesis unfolding exclusive_def by blast
  qed
  have busy: "open_pc s \<noteq> OpenDone \<and> (ended s \<longrightarrow> (\<exists>d. open_pc s = OpenInstall d t))"
    if "s \<in> set (heap b)" "holds s t" for s t
    using ok [OF that(1)] that(2) by (auto simp: holds_def proc_ok_def)
  have finished: "isclosed (conns (net b) ! t)"
    if "\<forall>s \<in> set (heap b). open_pc s = OpenDone" "t < length (conns (net b))" "length (conns w) \<le> t" for t
    using that held [of t] busy by (fastforce simp: open_conns_def)
  from held one busy finished show ?thesis by blast
qed

theorem device_connections_are_owned_witness:
  "open_conns (net (demo_data [])) = {0} \<and> (\<exists>!i. i < length (heap (demo_data [])) \<and> holds (heap (demo_data []) ! i) 0)"
proof -
  obtain tr where tr: "run (bstep demo_cfg) demo_start tr (demo_data [])" using demo_run by blast
  have "dialing demo_cfg"
    by (auto simp: dialing_def demo_cfg_def client_Device_def NewClientWithConnector_def)
  moreover have "crashed (demo_data []) = None" "open_conns (net (demo_data [])) = {0}"
      "conns (demo_world (demo_device [bytes_of ''OKAY'', [1, 2, 3]])) = []"
    by (auto simp: demo_data_def demo_opening_def demo_ready_def NewSocket_def Let_def open_conns_def
        new_conn_def demo_world_def new_world_def)
  ultimately show ?thesis using device_connections_are_owned [OF _ tr] by simp
qed

end
