(* ===== verification/ShellV2.thy ===== *)
theory ShellV2
  imports Client Transition
begin

text \<open>
  The shell protocol v2, \<^verbatim>\<open>adb/device_shell_v2.go\<close>: its packets, an interactive session with its
  reading goroutine and its two output streams, and \<^verbatim>\<open>RunCommandV2Context\<close>, in which five
  goroutines share one session.

  A session is a record that owns its connection. The reading goroutine, the two goroutines
  that collect an output stream, the one that watches the context and the caller are the
  processes of a step relation \<open>v2step\<close>; a step is one operation that another goroutine can
  observe: reading a packet, one \<^verbatim>\<open>Read\<close> or \<^verbatim>\<open>write\<close> of a stream under its mutex, closing a
  stream, the connection or the channel \<^verbatim>\<open>done\<close>, receiving from a channel. A process that has
  to wait has no step. That includes the reading goroutine: a device may also stop sending
  and keep the connection open, and then a read that needs more bytes blocks until this side
  closes the connection.
\<close>

section \<open>Packets\<close>

definition shellV2IDStdin :: byte where "shellV2IDStdin = 0"
definition shellV2IDStdout :: byte where "shellV2IDStdout = 1"
definition shellV2IDStderr :: byte where "shellV2IDStderr = 2"
definition shellV2IDExit :: byte where "shellV2IDExit = 3"
definition shellV2IDCloseStdin :: byte where "shellV2IDCloseStdin = 4"
definition shellV2IDWindowSizeChange :: byte where "shellV2IDWindowSizeChange = 5"

lemmas shellV2_ids = shellV2IDStdin_def shellV2IDStdout_def shellV2IDStderr_def
  shellV2IDExit_def shellV2IDCloseStdin_def shellV2IDWindowSizeChange_def

definition shellV2HeaderSize :: nat where "shellV2HeaderSize = 5"
definition shellV2MaxPayload :: nat where "shellV2MaxPayload = 16 * 1024 * 1024"
definition shellV2WriteChunkSize :: nat where "shellV2WriteChunkSize = 64 * 1024"

definition readShellV2Packet :: "(conn, byte \<times> bytes) prog" where
  "readShellV2Packet =
     andThen (ReadFull shellV2HeaderSize) (\<lambda>header.
       let length = get32 (drop 1 header) in
       if unat length > shellV2MaxPayload
       then fail (Errorf (''shell v2 packet too large: '' @ dec (unat length) @ '' bytes''))
       else if length = 0 then ret (hd header, [])
       else andThen (ReadFull (unat length)) (\<lambda>payload. ret (hd header, payload)))"

text \<open>
  \<^verbatim>\<open>writeAll\<close> on any \<^verbatim>\<open>io.Writer\<close>; \<open>wr\<close> is its \<^verbatim>\<open>Write\<close>. Slicing beyond the end panics.
\<close>

function writeAll :: "(bytes \<Rightarrow> ('w, nat) prog) \<Rightarrow> bytes \<Rightarrow> ('w, unit) prog" where
  "writeAll wr p w =
     (if p = [] then (Ok (), w)
      else case wr p w of
        (Ok n, w') \<Rightarrow>
          if n = 0 then (Err ErrShortWrite, w')
          else if n > length p then (Panic SliceBounds, w')
          else writeAll wr (drop n p) w'
      | (Err e, w') \<Rightarrow> (Err e, w')
      | (Panic q, w') \<Rightarrow> (Panic q, w'))"
  by pat_completeness auto
termination
  by (relation "measure (\<lambda>(wr, p, w). length p)") auto

declare writeAll.simps [simp del]

definition writeShellV2Packet ::
  "(bytes \<Rightarrow> ('w, nat) prog) \<Rightarrow> byte \<Rightarrow> bytes \<Rightarrow> ('w, unit) prog" where
  "writeShellV2Packet wr pid payload =
     andThen (writeAll wr (pid # put32 (of_nat (length payload)))) (\<lambda>_. writeAll wr payload)"

section \<open>Opening a session\<close>

record shell_v2_options =
  Term :: string
  PTY :: bool

definition buildShellV2Service :: "string \<Rightarrow> shell_v2_options \<Rightarrow> string" where
  "buildShellV2Service command opts =
     (let args = [''shell'', ''v2''];
          args = (if Term opts \<noteq> '''' then args @ [''TERM='' @ Term opts] else args);
          args = (if PTY opts then args @ [''pty''] else args @ [''raw''])
      in Join '','' args @ '':'' @ command)"

record v2_stream =
  buf :: bytes
  closed :: bool

definition newShellV2Stream :: v2_stream where
  "newShellV2Stream = \<lparr>buf = [], closed = False\<rparr>"

text \<open>
  Where the reading goroutine stands: before the next packet, with a packet in hand, or in one
  of its four deferred calls, which run in the reverse of their order in the code.
\<close>

datatype loop_pc =
  LoopTop | Dispatch byte bytes | CloseStderr | CloseStdout | CloseTransport | CloseDone | LoopReturned

record session =
  transport :: conn
  closeOnce :: bool
  s_stdout :: v2_stream
  s_stderr :: v2_stream
  s_done :: bool
  gotExit :: bool
  exitCode :: int
  s_err :: "go_error option"
  loop_at :: loop_pc

definition new_session :: "conn \<Rightarrow> session" where
  "new_session c =
     \<lparr>transport = c, closeOnce = False, s_stdout = newShellV2Stream, s_stderr = newShellV2Stream,
      s_done = False, gotExit = False, exitCode = 0, s_err = None, loop_at = LoopTop\<rparr>"

text \<open>The entry of the connection table passes into the ownership of the session.\<close>

definition ShellV2WithOptionsContext :: "device \<Rightarrow> string \<Rightarrow> shell_v2_options \<Rightarrow> (world, session) prog" where
  "ShellV2WithOptionsContext d command opts =
     andThen (Transport d) (\<lambda>transport.
     attempt (on_conn transport (SendCommand (buildShellV2Service command opts))) (\<lambda>r. case r of
       Inl err \<Rightarrow> andThen (close_conn transport) (\<lambda>_. fail err)
     | Inr status \<Rightarrow>
         if status \<noteq> StatusOkay
         then attempt (on_conn transport readLengthPrefixed) (\<lambda>m.
              andThen (close_conn transport) (\<lambda>_.
                case m of
                  Inl _ \<Rightarrow> fail (Errorf (''unexpected status: '' @ status))
                | Inr msg \<Rightarrow>
                    if length msg > 0 then fail (Errorf (''shell v2 failed: '' @ string_of msg))
                    else fail (Errorf (''unexpected status: '' @ status))))
         else (\<lambda>w. (Ok (new_session (conns w ! transport)), w))))"

definition ShellV2WithOptions :: "device \<Rightarrow> string \<Rightarrow> shell_v2_options \<Rightarrow> (world, session) prog" where
  "ShellV2WithOptions d command opts = ShellV2WithOptionsContext d command opts"

definition ShellV2Context :: "device \<Rightarrow> string \<Rightarrow> (world, session) prog" where
  "ShellV2Context d command = ShellV2WithOptionsContext d command \<lparr>Term = '''', PTY = False\<rparr>"

definition ShellV2 :: "device \<Rightarrow> string \<Rightarrow> (world, session) prog" where
  "ShellV2 d command = ShellV2Context d command"

section \<open>Session methods\<close>

definition writePacket :: "byte \<Rightarrow> bytes \<Rightarrow> (session, unit) prog" where
  "writePacket pid payload s = (case writeShellV2Packet conn_Write pid payload (transport s) of
       (r, c) \<Rightarrow> (r, s\<lparr>transport := c\<rparr>))"

text \<open>
  \<^verbatim>\<open>Write\<close> returns the number of bytes written also when it fails: the result is the pair of
  the two.
\<close>

function write_loop :: "nat \<Rightarrow> bytes \<Rightarrow> (session, nat \<times> go_error option) prog" where
  "write_loop written p s =
     (if length p > 0
      then let n = (if length p > shellV2WriteChunkSize then shellV2WriteChunkSize else length p)
           in case writePacket shellV2IDStdin (take n p) s of
                (Err e, s') \<Rightarrow> (Ok (written, Some e), s')
              | (Ok _, s') \<Rightarrow> write_loop (written + n) (drop n p) s'
              | (Panic q, s') \<Rightarrow> (Panic q, s')
      else (Ok (written, None), s))"
  by pat_completeness auto
termination
  by (relation "measure (\<lambda>(written, p, s). length p)") (auto simp: shellV2WriteChunkSize_def)

declare write_loop.simps [simp del]

definition session_Write :: "bytes \<Rightarrow> (session, nat \<times> go_error option) prog" where
  "session_Write p = write_loop 0 p"

definition CloseStdin :: "(session, unit) prog" where
  "CloseStdin = writePacket shellV2IDCloseStdin []"

definition Resize :: "16 word \<Rightarrow> 16 word \<Rightarrow> (session, unit) prog" where
  "Resize rows cols =
     writePacket shellV2IDWindowSizeChange
       (bytes_of (dec (unat rows) @ ''x'' @ dec (unat cols) @ '',0x0'') @ [0])"

definition closeTransport :: "session \<Rightarrow> session" where
  "closeTransport s =
     (if closeOnce s then s
      else s\<lparr>closeOnce := True, transport := snd (conn_Close (transport s))\<rparr>)"

definition session_Close :: "session \<Rightarrow> session" where
  "session_Close s = closeTransport s"

text \<open>\<^verbatim>\<open>Wait\<close>: the value and the error it returns; \<open>None\<close> while it has to wait.\<close>

definition Wait :: "session \<Rightarrow> (int \<times> go_error option) option" where
  "Wait s =
     (if \<not> s_done s then None
      else if s_err s \<noteq> None then Some (exitCode s, s_err s)
      else if \<not> gotExit s then Some (exitCode s, Some ErrUnexpectedEOF)
      else Some (exitCode s, None))"

section \<open>Output streams\<close>

text \<open>
  \<^verbatim>\<open>Read\<close> into a buffer of \<open>n\<close> bytes; \<open>None\<close> while the reader waits on the condition
  variable.
\<close>

definition stream_Read :: "nat \<Rightarrow> v2_stream \<Rightarrow> (bytes result \<times> v2_stream) option" where
  "stream_Read n st =
     (if buf st = [] \<and> \<not> closed st then None
      else if buf st = [] then Some (Err EOF, st)
      else Some (Ok (take n (buf st)), st\<lparr>buf := drop n (buf st)\<rparr>))"

definition stream_write :: "bytes \<Rightarrow> v2_stream \<Rightarrow> v2_stream" where
  "stream_write p st = (if p = [] then st else st\<lparr>buf := buf st @ p\<rparr>)"

definition stream_close :: "v2_stream \<Rightarrow> v2_stream" where
  "stream_close st = st\<lparr>closed := True\<rparr>"

section \<open>The reading goroutine\<close>

definition dispatch :: "byte \<Rightarrow> bytes \<Rightarrow> session \<Rightarrow> session" where
  "dispatch pid payload s =
     (if pid = shellV2IDStdout
      then s\<lparr>s_stdout := stream_write payload (s_stdout s), loop_at := LoopTop\<rparr>
      else if pid = shellV2IDStderr
      then s\<lparr>s_stderr := stream_write payload (s_stderr s), loop_at := LoopTop\<rparr>
      else if pid = shellV2IDExit
      then s\<lparr>gotExit := True,
             exitCode := (if payload \<noteq> [] then int (unat (hd payload)) else exitCode s),
             loop_at := CloseStderr\<rparr>
      else s\<lparr>loop_at := LoopTop\<rparr>)"

definition readLoop_step :: "session \<Rightarrow> session option" where
  "readLoop_step s = (case loop_at s of
       LoopTop \<Rightarrow>
         (case readShellV2Packet (transport s) of
            (Ok (pid, payload), c) \<Rightarrow> Some (s\<lparr>transport := c, loop_at := Dispatch pid payload\<rparr>)
          | (Err e, c) \<Rightarrow>
              Some (s\<lparr>transport := c, s_err := (if e \<noteq> EOF then Some e else s_err s),
                      loop_at := CloseStderr\<rparr>)
          | (Panic p, c) \<Rightarrow> None)
     | Dispatch pid payload \<Rightarrow> Some (dispatch pid payload s)
     | CloseStderr \<Rightarrow> Some (s\<lparr>s_stderr := stream_close (s_stderr s), loop_at := CloseStdout\<rparr>)
     | CloseStdout \<Rightarrow> Some (s\<lparr>s_stdout := stream_close (s_stdout s), loop_at := CloseTransport\<rparr>)
     | CloseTransport \<Rightarrow> Some ((closeTransport s)\<lparr>loop_at := CloseDone\<rparr>)
     | CloseDone \<Rightarrow> Some (s\<lparr>s_done := True, loop_at := LoopReturned\<rparr>)
     | LoopReturned \<Rightarrow> None)"

section \<open>RunCommandV2\<close>

record shell_v2_result =
  Stdout :: bytes
  Stderr :: bytes
  ExitCode :: int

text \<open>
  The goroutines that run \<^verbatim>\<open>io.ReadAll\<close> on a stream and send the outcome; the caller, from the
  first receive to the return; the goroutine that watches the context.
\<close>

datatype reader_pc = Reading bytes | Sent bytes "go_error option"

datatype caller_pc =
    RecvStdout
  | RecvStderr bytes "go_error option"
  | InWait bytes "go_error option" bytes "go_error option"
  | Waited bytes "go_error option" bytes "go_error option" int "go_error option"
  | Returned "go_error + shell_v2_result"

text \<open>
  \<open>device_silent\<close> is fixed for a run and describes the device: after the bytes it has sent it
  neither sends more nor ends the stream, so that the end \<open>in_end\<close> of the connection never
  comes.
\<close>

record v2run =
  sess :: session
  out_reader :: reader_pc
  err_reader :: reader_pc
  watching :: bool
  ctx_done :: "go_error option"
  caller :: caller_pc
  device_silent :: bool

definition v2_start :: "bool \<Rightarrow> session \<Rightarrow> v2run" where
  "v2_start silent s =
     \<lparr>sess = s, out_reader = Reading [], err_reader = Reading [], watching = True,
      ctx_done = None, caller = RecvStdout, device_silent = silent\<rparr>"

text \<open>
  \<^verbatim>\<open>RunCommandV2Context\<close> up to the point where its goroutines run; \<open>v2step\<close> below is the rest.
\<close>

definition RunCommandV2Context :: "bool \<Rightarrow> device \<Rightarrow> string \<Rightarrow> (world, v2run) prog" where
  "RunCommandV2Context silent d command =
     andThen (ShellV2WithOptionsContext d command \<lparr>Term = '''', PTY = False\<rparr>) (\<lambda>session.
     ret (v2_start silent session))"

definition RunCommandV2 :: "bool \<Rightarrow> device \<Rightarrow> string \<Rightarrow> (world, v2run) prog" where
  "RunCommandV2 silent d command = RunCommandV2Context silent d command"

definition reader_step :: "nat \<Rightarrow> reader_pc \<Rightarrow> v2_stream \<Rightarrow> (reader_pc \<times> v2_stream) option" where
  "reader_step n pc st = (case pc of
       Sent _ _ \<Rightarrow> None
     | Reading acc \<Rightarrow>
         (case stream_Read n st of
            Some (Ok d, st') \<Rightarrow> Some (Reading (acc @ d), st')
          | Some (Err e, st') \<Rightarrow> Some (Sent acc (if e = EOF then None else Some e), st')
          | _ \<Rightarrow> None))"

definition v2_result ::
  "go_error option \<Rightarrow> bytes \<Rightarrow> go_error option \<Rightarrow> bytes \<Rightarrow> go_error option \<Rightarrow> int \<Rightarrow> go_error option \<Rightarrow>
   go_error + shell_v2_result" where
  "v2_result ctxErr outb outErr errb errErr code waitErr =
     (case ctxErr of Some e \<Rightarrow> Inl e | None \<Rightarrow>
      case outErr of Some e \<Rightarrow> Inl e | None \<Rightarrow>
      case errErr of Some e \<Rightarrow> Inl e | None \<Rightarrow>
      case waitErr of Some e \<Rightarrow> Inl e | None \<Rightarrow>
      Inr \<lparr>Stdout = outb, Stderr = errb, ExitCode = code\<rparr>)"

text \<open>The caller: two receives, \<^verbatim>\<open>Wait\<close>, and the return, which runs the deferred \<^verbatim>\<open>Close\<close>.\<close>

definition caller_step :: "v2run \<Rightarrow> v2run option" where
  "caller_step r = (case caller r of
       RecvStdout \<Rightarrow>
         (case out_reader r of
            Sent b e \<Rightarrow> Some (r\<lparr>caller := RecvStderr b e\<rparr>)
          | Reading _ \<Rightarrow> None)
     | RecvStderr ob oe \<Rightarrow>
         (case err_reader r of
            Sent b e \<Rightarrow> Some (r\<lparr>caller := InWait ob oe b e\<rparr>)
          | Reading _ \<Rightarrow> None)
     | InWait ob oe eb ee \<Rightarrow>
         (case Wait (sess r) of
            Some (code, we) \<Rightarrow> Some (r\<lparr>caller := Waited ob oe eb ee code we\<rparr>)
          | None \<Rightarrow> None)
     | Waited ob oe eb ee code we \<Rightarrow>
         Some (r\<lparr>sess := session_Close (sess r),
                 caller := Returned (v2_result (ctx_done r) ob oe eb ee code we)\<rparr>)
     | Returned _ \<Rightarrow> None)"

definition watcher_step :: "v2run \<Rightarrow> v2run option" where
  "watcher_step r =
     (if \<not> watching r then None
      else if ctx_done r \<noteq> None then Some (r\<lparr>sess := session_Close (sess r), watching := False\<rparr>)
      else if s_done (sess r) then Some (r\<lparr>watching := False\<rparr>)
      else None)"

text \<open>
  When the context and the session are both done the \<^verbatim>\<open>select\<close> of the watcher may take either
  case; by then the connection is closed, so \<^verbatim>\<open>Close\<close> does nothing and the two agree.
  \<open>ReadStdout n\<close> is one \<^verbatim>\<open>Read\<close> of \<^verbatim>\<open>io.ReadAll\<close>, whose buffer has room for some positive number
  of bytes \<open>n\<close>; \<open>CtxDone\<close> is the environment ending the context.

  \<open>awaits_packet c\<close>: reading a packet needs more bytes than have been sent. A read on a
  connection that was closed here does not wait, it fails.
\<close>

definition awaits_packet :: "conn \<Rightarrow> bool" where
  "awaits_packet c \<longleftrightarrow> \<not> isclosed c \<and>
     (let sent = pending c; n = unat (get32 (drop 1 (take shellV2HeaderSize sent))) in
      length sent < shellV2HeaderSize \<or> (n \<le> shellV2MaxPayload \<and> length sent < shellV2HeaderSize + n))"

definition loop_blocked :: "v2run \<Rightarrow> bool" where
  "loop_blocked r \<longleftrightarrow> device_silent r \<and> loop_at (sess r) = LoopTop \<and> awaits_packet (transport (sess r))"

datatype v2_action = ReadLoop | ReadStdout nat | ReadStderr nat | Watcher | Caller | CtxDone go_error

inductive v2step :: "v2run \<Rightarrow> v2_action \<Rightarrow> v2run \<Rightarrow> bool" where
  step_loop: "readLoop_step (sess r) = Some s' \<Longrightarrow> \<not> loop_blocked r \<Longrightarrow>
    v2step r ReadLoop (r\<lparr>sess := s'\<rparr>)"
| step_stdout: "0 < n \<Longrightarrow> reader_step n (out_reader r) (s_stdout (sess r)) = Some (pc, st) \<Longrightarrow>
    v2step r (ReadStdout n) (r\<lparr>sess := (sess r)\<lparr>s_stdout := st\<rparr>, out_reader := pc\<rparr>)"
| step_stderr: "0 < n \<Longrightarrow> reader_step n (err_reader r) (s_stderr (sess r)) = Some (pc, st) \<Longrightarrow>
    v2step r (ReadStderr n) (r\<lparr>sess := (sess r)\<lparr>s_stderr := st\<rparr>, err_reader := pc\<rparr>)"
| step_watcher: "watcher_step r = Some r' \<Longrightarrow> v2step r Watcher r'"
| step_caller: "caller_step r = Some r' \<Longrightarrow> v2step r Caller r'"
| step_ctx: "ctx_done r = None \<Longrightarrow> v2step r (CtxDone e) (r\<lparr>ctx_done := Some e\<rparr>)"

section \<open>The packet format\<close>

definition v2_frame :: "byte \<times> bytes \<Rightarrow> bytes" where
  "v2_frame = (\<lambda>(pid, payload). pid # put32 (of_nat (length payload)) @ payload)"

definition v2_valid :: "byte \<times> bytes \<Rightarrow> bool" where
  "v2_valid = (\<lambda>(pid, payload). length payload \<le> shellV2MaxPayload)"

lemma length_v2_frame [simp]: "length (v2_frame (i, d)) = 5 + length d"
  by (simp add: v2_frame_def)

lemma unat_of_payload: "length d \<le> shellV2MaxPayload \<Longrightarrow> unat (of_nat (length d) :: u32) = length d"
  by (simp add: shellV2MaxPayload_def)

lemma readShellV2Packet_frame:
  assumes "length d \<le> shellV2MaxPayload" and "\<not> isclosed c" and "pending c = v2_frame (i, d) @ rest"
  shows "readShellV2Packet c = (Ok (i, d), advance (5 + length d) c)"
proof -
  have h: "ReadFull shellV2HeaderSize c = (Ok (i # put32 (of_nat (length d))), advance 5 c)"
    using assms(2,3) by (simp add: shellV2HeaderSize_def v2_frame_def)
  have "pending (advance 5 c) = d @ rest"
    using assms(3) by (simp add: v2_frame_def)
  then have "ReadFull (length d) (advance 5 c) = (Ok d, advance (5 + length d) c)"
    using assms(2) by simp
  moreover have "(of_nat (length d) :: u32) = 0 \<longleftrightarrow> d = []"
    using unat_of_payload [OF assms(1)] by (metis length_0_conv unat_eq_zero)
  ultimately show ?thesis
    using h assms(1) unat_of_payload [OF assms(1)]
    by (auto simp: readShellV2Packet_def Let_def ret_def)
qed

text \<open>The bytes sent decide what a packet read does exactly when it does not wait for more.\<close>

lemma awaits_packet_blocks:
  "awaits_packet c \<Longrightarrow> fst (readShellV2Packet (c\<lparr>in_end := NetErr e\<rparr>)) = Err (NetErr e)"
  "\<not> awaits_packet c \<Longrightarrow> fst (readShellV2Packet (c\<lparr>in_end := e'\<rparr>)) = fst (readShellV2Packet c)"
proof -
  have p: "pending (c\<lparr>in_end := x\<rparr>) = pending c" for x by (simp add: pending_def)
  let ?n = "unat (get32 (drop 1 (take shellV2HeaderSize (pending c))))"
  show "fst (readShellV2Packet (c\<lparr>in_end := NetErr e\<rparr>)) = Err (NetErr e)" if w: "awaits_packet c"
  proof (cases "length (pending c) < shellV2HeaderSize")
    case True
    with w p show ?thesis by (simp add: awaits_packet_def readShellV2Packet_def ReadFull_eq andThen_def)
  next
    case False
    with w have "?n \<le> shellV2MaxPayload" "length (pending c) < shellV2HeaderSize + ?n" "\<not> isclosed c"
      by (auto simp: awaits_packet_def Let_def)
    moreover from this False have "get32 (drop 1 (take shellV2HeaderSize (pending c))) \<noteq> 0" by auto
    ultimately show ?thesis
      using False p by (auto simp: readShellV2Packet_def ReadFull_eq andThen_def Let_def)
  qed
  show "fst (readShellV2Packet (c\<lparr>in_end := e'\<rparr>)) = fst (readShellV2Packet c)" if w: "\<not> awaits_packet c"
  proof (cases "isclosed c")
    case True
    then show ?thesis by (simp add: readShellV2Packet_def ReadFull_closed shellV2HeaderSize_def andThen_def)
  next
    case False
    with w p show ?thesis
      by (auto simp: awaits_packet_def readShellV2Packet_def ReadFull_eq andThen_def Let_def ret_def fail_def)
  qed
qed

interpretation v2_packets: frame_format v2_frame readShellV2Packet v2_valid
  pending conn_ready conn_fresh
proof unfold_locales
  fix x :: "byte \<times> bytes" and s :: conn and rest
  assume "v2_valid x" and "\<not> isclosed s" and "pending s = v2_frame x @ rest"
  with readShellV2Packet_frame show
    "\<exists>s'. readShellV2Packet s = (Ok x, s') \<and> \<not> isclosed s' \<and> pending s' = rest"
    by (cases x) (auto simp: v2_valid_def)
qed (auto simp: v2_frame_def)

lemma segment_free_readShellV2Packet: "segment_free readShellV2Packet"
  unfolding readShellV2Packet_def Let_def by (intro oblivious_intros)

lemma uses_readShellV2Packet: "uses in_len readShellV2Packet"
  unfolding readShellV2Packet_def Let_def
  by (intro measure_intros uses_ReadFull) (simp add: shellV2HeaderSize_def)

lemma ReadFull_no_Panic: "ReadFull n c \<noteq> (Panic p, c')"
  by (cases "isclosed c"; cases "n = 0") (auto simp: ReadFull_closed ReadFull_eq)

lemma readShellV2Packet_no_Panic: "readShellV2Packet c \<noteq> (Panic p, c')"
  using ReadFull_no_Panic
  by (auto simp: readShellV2Packet_def andThen_def Let_def ret_def fail_def
      split: prod.splits result.splits)

lemma ReadFull_frame:
  "ReadFull n c = (r, c') \<Longrightarrow> isclosed c' = isclosed c \<and> in_len c' \<le> in_len c \<and> outgoing c' = outgoing c"
  by (cases "isclosed c"; cases "n = 0")
    (auto simp: ReadFull_closed ReadFull_eq in_len_def split: if_splits)

lemma ReadFull_length: "ReadFull n c = (Ok d, c') \<Longrightarrow> length d = n \<and> length (pending c) = n + length (pending c')"
  by (cases "isclosed c"; cases "n = 0")
    (auto simp: ReadFull_closed ReadFull_eq split: if_splits)

lemma readShellV2Packet_keeps:
  "readShellV2Packet c = (r, c') \<Longrightarrow> isclosed c' = isclosed c \<and> in_len c' \<le> in_len c \<and> outgoing c' = outgoing c"
  by (fastforce simp: readShellV2Packet_def andThen_def Let_def ret_def fail_def
      dest: ReadFull_frame split: prod.splits result.splits if_splits)

lemma readShellV2Packet_shrinks:
  "readShellV2Packet c = (Ok (pid, d), c') \<Longrightarrow> in_len c = 5 + length d + in_len c'"
  by (auto simp: readShellV2Packet_def andThen_def Let_def ret_def fail_def in_len_def
      shellV2HeaderSize_def unat_eq_zero dest!: ReadFull_length
      split: prod.splits result.splits if_splits)

section \<open>Writing packets\<close>

text \<open>\<^verbatim>\<open>writeAll\<close> on any writer that keeps the contract, short writes included.\<close>

context byte_sink
begin

lemma writeAll_sink:
  "writeAll wr p w = (r, w') \<Longrightarrow>
   (case r of Ok _ \<Rightarrow> sink w' = sink w @ p
    | Err _ \<Rightarrow> (\<exists>k \<le> length p. sink w' = sink w @ take k p) | Panic _ \<Rightarrow> True)"
proof (induction "length p" arbitrary: p w rule: less_induct)
  case less
  show ?case
  proof (cases "p = []")
    case True
    with less.prems show ?thesis by (auto simp: writeAll.simps)
  next
    case ne: False
    obtain x w1 where x: "wr p w = (x, w1)" by (cases "wr p w")
    show ?thesis
    proof (cases x)
      case (Ok n)
      note n = wr_count [OF x [unfolded Ok]] wr_sink [OF x [unfolded Ok]]
      show ?thesis
      proof (cases "n = 0")
        case True
        with less.prems ne x Ok n show ?thesis by (auto simp: writeAll.simps)
      next
        case False
        with less.prems ne x Ok n(1) have "writeAll wr (drop n p) w1 = (r, w')"
          by (simp add: writeAll.simps [of wr p w])
        from less.hyps [OF _ this] False n ne have "case r of Ok _ \<Rightarrow> sink w' = sink w1 @ drop n p
          | Err _ \<Rightarrow> (\<exists>k \<le> length (drop n p). sink w' = sink w1 @ take k (drop n p)) | Panic _ \<Rightarrow> True"
          by simp
        then show ?thesis
        proof (cases r)
          case (Err e)
          with \<open>case r of Ok _ \<Rightarrow> _ | Err _ \<Rightarrow> _ | Panic _ \<Rightarrow> _\<close> obtain k where
            "k \<le> length p - n" "sink w' = sink w1 @ take k (drop n p)" by auto
          with n show ?thesis using Err by (auto simp: take_add intro!: exI [of _ "n + k"])
        qed (use n in auto)
      qed
    next
      case (Err e)
      with less.prems ne x wr_error [OF x [unfolded Err]] show ?thesis
        by (auto simp: writeAll.simps [of wr p w])
    next
      case (Panic q)
      with less.prems ne x show ?thesis by (auto simp: writeAll.simps [of wr p w])
    qed
  qed
qed

end

lemma writeAll_conn:
  assumes "\<not> isclosed c" and "room c = None"
  shows "writeAll conn_Write p c = (Ok (), c\<lparr>outgoing := outgoing c @ p\<rparr>)"
  using assms by (simp add: writeAll.simps)

lemma writeShellV2Packet_conn:
  assumes "\<not> isclosed c" and "room c = None"
  shows "writeShellV2Packet conn_Write i d c = (Ok (), c\<lparr>outgoing := outgoing c @ v2_frame (i, d)\<rparr>)"
  using assms by (simp add: writeShellV2Packet_def writeAll_conn v2_frame_def)

abbreviation stdin_frame :: "bytes \<Rightarrow> bytes" where
  "stdin_frame d \<equiv> v2_frame (shellV2IDStdin, d)"

abbreviation stdin_frames :: "bytes \<Rightarrow> bytes" where
  "stdin_frames p \<equiv> concat (map stdin_frame (chunks shellV2WriteChunkSize p))"

lemma chunk_size: "0 < shellV2WriteChunkSize" "shellV2WriteChunkSize \<le> shellV2MaxPayload"
  by (simp_all add: shellV2WriteChunkSize_def shellV2MaxPayload_def)

lemma stdin_frames_step:
  "p \<noteq> [] \<Longrightarrow> stdin_frames p =
   stdin_frame (take shellV2WriteChunkSize p) @ stdin_frames (drop shellV2WriteChunkSize p)"
  by (simp add: chunks.simps [of _ p] shellV2WriteChunkSize_def)

lemma writeShellV2Packet_out:
  assumes "writeShellV2Packet conn_Write i d c = (r, c')"
  shows "(case r of Ok _ \<Rightarrow> outgoing c' = outgoing c @ v2_frame (i, d)
    | Err _ \<Rightarrow> (\<exists>part. prefix part (v2_frame (i, d)) \<and> outgoing c' = outgoing c @ part) | Panic _ \<Rightarrow> True)"
proof (cases "writeAll conn_Write (i # put32 (of_nat (length d))) c")
  case (Pair x c1)
  note h = conn_sink.writeAll_sink [OF this]
  show ?thesis
  proof (cases x)
    case (Ok u)
    with Pair assms have "writeAll conn_Write d c1 = (r, c')" by (simp add: writeShellV2Packet_def)
    from conn_sink.writeAll_sink [OF this] h Ok show ?thesis
      by (cases r) (auto simp: v2_frame_def take_is_prefix)
  next
    case (Err e)
    with Pair assms h show ?thesis
      by (auto simp: writeShellV2Packet_def v2_frame_def)
        (metis append_Cons prefix_append take_is_prefix)
  next
    case (Panic q)
    with Pair assms show ?thesis by (auto simp: writeShellV2Packet_def)
  qed
qed

lemma write_loop_accounts:
  "write_loop k p s = (Ok (n, e), s') \<Longrightarrow>
   \<exists>m part. n = k + m \<and> m \<le> length p \<and>
     outgoing (transport s') = outgoing (transport s) @ stdin_frames (take m p) @ part \<and>
     (if e = None then m = length p \<and> part = []
      else m < length p \<and> prefix part (stdin_frame (take shellV2WriteChunkSize (drop m p))))"
proof (induction k p s rule: write_loop.induct)
  case (1 k p s)
  define N where "N = (if length p > shellV2WriteChunkSize then shellV2WriteChunkSize else length p)"
  then have N: "N = min shellV2WriteChunkSize (length p)" by simp
  have tk: "take N p = take shellV2WriteChunkSize p" by (simp add: N min_def)
  show ?case
  proof (cases "p = []")
    case True
    with "1.prems" show ?thesis by (auto simp: write_loop.simps)
  next
    case ne: False
    obtain r c1 where w: "writeShellV2Packet conn_Write shellV2IDStdin (take N p) (transport s) = (r, c1)"
      by (cases "writeShellV2Packet conn_Write shellV2IDStdin (take N p) (transport s)")
    then have wp: "writePacket shellV2IDStdin (take N p) s = (r, s\<lparr>transport := c1\<rparr>)"
      by (simp add: writePacket_def)
    note out = writeShellV2Packet_out [OF w]
    show ?thesis
    proof (cases r)
      case (Ok u)
      with "1.prems" ne wp have rest: "write_loop (k + N) (drop N p) (s\<lparr>transport := c1\<rparr>) = (Ok (n, e), s')"
        by (subst (asm) write_loop.simps) (simp add: Let_def N_def [symmetric])
      from "1.IH" [OF _ N_def wp [symmetric] Ok rest] ne obtain m part where
        m: "n = k + N + m" "m \<le> length (drop N p)"
        "outgoing (transport s') = outgoing c1 @ stdin_frames (take m (drop N p)) @ part"
        "if e = None then m = length (drop N p) \<and> part = []
         else m < length (drop N p) \<and> prefix part (stdin_frame (take shellV2WriteChunkSize (drop m (drop N p))))"
        by auto
      have "stdin_frames (take (N + m) p) = stdin_frame (take N p) @ stdin_frames (take m (drop N p))"
        using ne m(2) chunk_size(1) by (subst stdin_frames_step) (auto simp: N drop_take min_def)
      with m out Ok show ?thesis
        using N by (intro exI [of _ "N + m"] exI [of _ part]) (cases "e = None"; auto simp: add.commute)
    next
      case (Err x)
      with "1.prems" ne wp have "n = k" "e = Some x" "s' = s\<lparr>transport := c1\<rparr>"
        by (subst (asm) write_loop.simps; simp add: Let_def N_def [symmetric])+
      with out Err ne tk show ?thesis by (auto intro!: exI [of _ 0])
    next
      case (Panic q)
      with "1.prems" ne wp show ?thesis by (subst (asm) write_loop.simps) (simp add: Let_def N_def [symmetric])
    qed
  qed
qed

lemma write_loop_conn:
  "\<not> isclosed (transport s) \<Longrightarrow> room (transport s) = None \<Longrightarrow>
   write_loop k p s = (Ok (k + length p, None),
     s\<lparr>transport := (transport s)\<lparr>outgoing := outgoing (transport s) @ stdin_frames p\<rparr>\<rparr>)"
proof (induction k p s rule: write_loop.induct)
  case (1 k p s)
  show ?case
  proof (cases "p = []")
    case False
    define N where "N = (if length p > shellV2WriteChunkSize then shellV2WriteChunkSize else length p)"
    let ?s = "s\<lparr>transport := (transport s)\<lparr>outgoing := outgoing (transport s) @ stdin_frame (take N p)\<rparr>\<rparr>"
    have wp: "writePacket shellV2IDStdin (take N p) s = (Ok (), ?s)"
      using "1.prems" by (simp add: writePacket_def writeShellV2Packet_conn)
    then have "write_loop k p s = write_loop (k + N) (drop N p) ?s"
      using False by (subst write_loop.simps) (simp add: N_def [symmetric])
    moreover have "write_loop (k + N) (drop N p) ?s = (Ok (k + N + length (drop N p), None),
        ?s\<lparr>transport := (transport ?s)\<lparr>outgoing := outgoing (transport ?s) @ stdin_frames (drop N p)\<rparr>\<rparr>)"
      using "1.prems" False by (intro "1.IH" [OF _ N_def wp [symmetric] refl]) simp_all
    moreover have "stdin_frame (take N p) @ stdin_frames (drop N p) = stdin_frames p"
      using stdin_frames_step [OF False] by (simp add: N_def)
    moreover have "N \<le> length p" by (simp add: N_def)
    ultimately show ?thesis by simp
  qed (simp add: write_loop.simps)
qed

section \<open>Properties\<close>

text \<open>C26: what a session writes to the remote stdin arrives. On a connection that takes all
  writes \<^verbatim>\<open>Write\<close> reports every byte written, and the packets it sent, read back from any
  segmentation of them, are stdin packets with 1 to 65536 bytes each that together are the
  bytes that were written.\<close>

theorem session_Write_roundtrip:
  assumes "\<not> isclosed (transport s)" and "room (transport s) = None"
    and "session_Write p s = (r, s')" and "outgoing (transport s') = outgoing (transport s) @ concat segs"
  shows "r = Ok (length p, None) \<and>
    (\<exists>ds c. read_frames readShellV2Packet (length ds) (new_conn segs e) = (Ok (map (Pair shellV2IDStdin) ds), c) \<and>
       pending c = [] \<and> concat ds = p \<and> (\<forall>d \<in> set ds. 0 < length d \<and> length d \<le> 65536))"
proof -
  let ?ds = "chunks shellV2WriteChunkSize p"
  have w: "session_Write p s = (Ok (length p, None),
      s\<lparr>transport := (transport s)\<lparr>outgoing := outgoing (transport s) @ stdin_frames p\<rparr>\<rparr>)"
    using write_loop_conn [OF assms(1,2), of 0 p] by (simp add: session_Write_def)
  have sz: "0 < length d \<and> length d \<le> 65536" if "d \<in> set ?ds" for d
    using chunks_bounds [OF that] by (simp add: shellV2WriteChunkSize_def)
  then have "list_all v2_valid (map (Pair shellV2IDStdin) ?ds)"
    by (auto simp: list_all_iff v2_valid_def shellV2MaxPayload_def dest!: sz)
  moreover have "pending (new_conn segs e) = concat (map v2_frame (map (Pair shellV2IDStdin) ?ds)) @ []"
    using w assms(3,4) by (simp add: comp_def)
  ultimately obtain c where
    "read_frames readShellV2Packet (length ?ds) (new_conn segs e) = (Ok (map (Pair shellV2IDStdin) ?ds), c)"
    "pending c = []"
    using v2_packets.read_frames_encode [of "map (Pair shellV2IDStdin) ?ds" "new_conn segs e" "[]"] by auto
  with w assms(3) sz show ?thesis
    using concat_chunks [OF chunk_size(1), of p] by (intro conjI exI [of _ ?ds] exI [of _ c]) auto
qed

theorem session_Write_roundtrip_witness:
  "session_Write [9] (new_session (new_conn [] EOF)) = (Ok (1, None),
     (new_session (new_conn [] EOF))\<lparr>transport := (new_conn [] EOF)\<lparr>outgoing := [0, 1, 0, 0, 0, 9]\<rparr>\<rparr>) \<and>
   (\<exists>ds c. read_frames readShellV2Packet (length ds) (new_conn [[0, 1], [0, 0, 0, 9]] EOF) =
       (Ok (map (Pair shellV2IDStdin) ds), c) \<and> concat ds = [9])"
proof -
  let ?s = "new_session (new_conn [] EOF)"
  let ?s' = "?s\<lparr>transport := (new_conn [] EOF)\<lparr>outgoing := [0, 1, 0, 0, 0, 9]\<rparr>\<rparr>"
  have t: "transport ?s = new_conn [] EOF" by (simp add: new_session_def)
  have w: "session_Write [9] ?s = (Ok (1, None), ?s')"
    using write_loop_conn [of ?s 0 "[9]"]
    by (simp add: t session_Write_def chunks.simps shellV2WriteChunkSize_def v2_frame_def
        shellV2IDStdin_def put32_def)
  have "outgoing (transport ?s') = outgoing (transport ?s) @ concat [[0, 1], [0, 0, 0, 9]]"
    by (simp add: t)
  from session_Write_roundtrip [OF _ _ w this, of EOF] w t show ?thesis by auto
qed

text \<open>C27: the count \<^verbatim>\<open>Write\<close> returns is exact also when it fails: the packets with the first
  \<open>n\<close> bytes reached the connection whole, and what follows is the beginning of the next packet.
  It returns no error only when all bytes were written.\<close>

theorem session_Write_accounts:
  assumes "session_Write p s = (Ok (n, e), s')"
  shows "\<exists>part. outgoing (transport s') = outgoing (transport s) @ stdin_frames (take n p) @ part \<and>
     (if e = None then n = length p \<and> part = []
      else n < length p \<and> prefix part (stdin_frame (take shellV2WriteChunkSize (drop n p))))"
  using write_loop_accounts [of 0 p s n e s'] assms by (auto simp: session_Write_def)

theorem session_Write_accounts_witness:
  "\<exists>s'. session_Write [9] (new_session ((new_conn [] EOF)\<lparr>room := Some 2\<rparr>)) = (Ok (0, Some err_pipe), s') \<and>
     (\<exists>part. outgoing (transport s') = part \<and> prefix part (stdin_frame [9]))"
proof -
  let ?s = "new_session ((new_conn [] EOF)\<lparr>room := Some 2\<rparr>)"
  let ?s' = "?s\<lparr>transport := (new_conn [] EOF)\<lparr>outgoing := [0, 1], room := Some 0\<rparr>\<rparr>"
  have "session_Write [9] ?s = (Ok (0, Some err_pipe), ?s')"
    by (simp add: session_Write_def write_loop.simps writePacket_def writeShellV2Packet_def
        writeAll.simps [of _ "_ # _"] conn_Write_def andThen_def new_session_def new_conn_def shellV2WriteChunkSize_def
        shellV2IDStdin_def put32_def)
  from session_Write_accounts [OF this] this show ?thesis
    by (auto simp: new_session_def shellV2WriteChunkSize_def)
qed

end
