(* ===== verification/ShellV2Run.thy ===== *)
theory ShellV2Run
  imports ShellV2
begin

text \<open>
  What a command run over the shell protocol v2 returns, in every interleaving of its five
  goroutines, and when it does return. The reference is \<open>collect\<close>, the outcome of reading the
  connection packet by packet with nothing else going on.
\<close>

section \<open>The reference\<close>

definition prepend :: "byte \<Rightarrow> bytes \<Rightarrow> bytes \<times> bytes \<times> int \<times> go_error option \<Rightarrow>
    bytes \<times> bytes \<times> int \<times> go_error option" where
  "prepend pid d = (\<lambda>(ob, eb, w).
     if pid = shellV2IDExit then ([], [], if d \<noteq> [] then int (unat (hd d)) else 0, None)
     else (if pid = shellV2IDStdout then d @ ob else ob,
           if pid = shellV2IDStderr then d @ eb else eb, w))"

function collect :: "conn \<Rightarrow> bytes \<times> bytes \<times> int \<times> go_error option" where
  "collect c = (case readShellV2Packet c of
       (Ok (pid, d), c') \<Rightarrow> prepend pid d (collect c')
     | (Err e, _) \<Rightarrow> ([], [], 0, Some (if e = EOF then ErrUnexpectedEOF else e))
     | (Panic p, _) \<Rightarrow> ([], [], 0, None))"
  by pat_completeness auto
termination
  by (relation "measure in_len") (auto dest!: sym usesD [OF uses_readShellV2Packet])

declare collect.simps [simp del]

section \<open>The invariant\<close>

definition waited :: "session \<Rightarrow> int \<times> go_error option" where
  "waited s = (exitCode s, if s_err s \<noteq> None then s_err s
     else if \<not> gotExit s then Some ErrUnexpectedEOF else None)"

definition ahead :: "session \<Rightarrow> bytes \<times> bytes \<times> int \<times> go_error option" where
  "ahead s = (case loop_at s of
       LoopTop \<Rightarrow> collect (transport s)
     | Dispatch pid d \<Rightarrow> prepend pid d (collect (transport s))
     | _ \<Rightarrow> ([], [], waited s))"

fun reader_data :: "reader_pc \<Rightarrow> bytes" where
  "reader_data (Reading acc) = acc"
| "reader_data (Sent acc _) = acc"

definition looping :: "session \<Rightarrow> bool" where
  "looping s \<longleftrightarrow> (case loop_at s of LoopTop \<Rightarrow> True | Dispatch _ _ \<Rightarrow> True | _ \<Rightarrow> False)"

text \<open>
  How far the reading goroutine is decides what is closed, in every state; and a session that
  still reads has not seen an exit code or an error.
\<close>

definition session_ok :: "session \<Rightarrow> bool" where
  "session_ok s \<longleftrightarrow>
     (closed (s_stderr s) \<longleftrightarrow> loop_at s \<in> {CloseStdout, CloseTransport, CloseDone, LoopReturned}) \<and>
     (closed (s_stdout s) \<longleftrightarrow> loop_at s \<in> {CloseTransport, CloseDone, LoopReturned}) \<and>
     (loop_at s \<in> {CloseDone, LoopReturned} \<longrightarrow> closeOnce s) \<and>
     (s_done s \<longleftrightarrow> loop_at s = LoopReturned) \<and>
     (closeOnce s \<longrightarrow> isclosed (transport s)) \<and>
     (looping s \<longrightarrow> \<not> gotExit s \<and> exitCode s = 0 \<and> s_err s = None)"

definition reader_ok :: "reader_pc \<Rightarrow> v2_stream \<Rightarrow> bool" where
  "reader_ok pc st \<longleftrightarrow> (case pc of
       Reading _ \<Rightarrow> True
     | Sent _ e \<Rightarrow> e = None \<and> closed st \<and> buf st = [])"

definition run_ok :: "v2run \<Rightarrow> bool" where
  "run_ok r \<longleftrightarrow> session_ok (sess r) \<and>
     reader_ok (out_reader r) (s_stdout (sess r)) \<and> reader_ok (err_reader r) (s_stderr (sess r)) \<and>
     (case caller r of
        Waited _ _ _ _ _ _ \<Rightarrow> s_done (sess r) | Returned _ \<Rightarrow> s_done (sess r) | _ \<Rightarrow> True)"

lemma session_ok_new: "session_ok (new_session c)"
  by (simp add: session_ok_def new_session_def newShellV2Stream_def)

lemma conn_Close_closes [simp]: "isclosed (snd (conn_Close c))"
  by (simp add: conn_Close_def)

lemma session_Close_simps [simp]:
  "s_stdout (session_Close s) = s_stdout s" "s_stderr (session_Close s) = s_stderr s"
  "s_done (session_Close s) = s_done s" "gotExit (session_Close s) = gotExit s"
  "exitCode (session_Close s) = exitCode s" "s_err (session_Close s) = s_err s"
  "loop_at (session_Close s) = loop_at s" "closeOnce (session_Close s)"
  by (simp_all add: session_Close_def closeTransport_def)

lemma session_ok_closed: "session_ok s \<Longrightarrow> closeOnce s \<Longrightarrow> isclosed (transport s)"
  by (simp add: session_ok_def)

lemma session_ok_Close: "session_ok s \<Longrightarrow> session_ok (session_Close s)"
  by (auto simp: session_ok_def session_Close_def closeTransport_def looping_def)

lemma stream_ops [simp]:
  "closed (stream_write p st) = closed st" "buf (stream_write p st) = buf st @ p"
  "closed (stream_close st)" "buf (stream_close st) = buf st"
  by (simp_all add: stream_write_def stream_close_def)

lemma session_ok_loop:
  assumes "session_ok s" and "readLoop_step s = Some s'"
  shows "session_ok s'"
proof (cases "loop_at s")
  case LoopTop
  with assms show ?thesis
    by (auto simp: session_ok_def readLoop_step_def looping_def dest!: readShellV2Packet_keeps
        split: prod.splits result.splits)
next
  case (Dispatch pid d)
  with assms show ?thesis
    by (auto simp: session_ok_def readLoop_step_def looping_def dispatch_def split: if_splits)
qed (use assms in \<open>auto simp: session_ok_def readLoop_step_def looping_def closeTransport_def split: if_splits\<close>)

lemma reader_stepE:
  assumes "reader_step n pc st = Some (pc', st')"
  obtains acc where "pc = Reading acc" "buf st \<noteq> []" "pc' = Reading (acc @ take n (buf st))"
      "st' = st\<lparr>buf := drop n (buf st)\<rparr>"
    | acc where "pc = Reading acc" "buf st = []" "closed st" "pc' = Sent acc None" "st' = st"
  using assms by (auto simp: reader_step_def stream_Read_def split: reader_pc.splits if_splits)

lemma readLoop_step_closed:
  "readLoop_step s = Some s' \<Longrightarrow> isclosed (transport s) \<Longrightarrow> isclosed (transport s')"
  by (auto simp: readLoop_step_def dispatch_def closeTransport_def dest!: readShellV2Packet_keeps
      split: loop_pc.splits prod.splits result.splits if_splits)

lemma readLoop_step_sent:
  assumes "readLoop_step s = Some s'" and "session_ok s"
  shows "closed (s_stdout s) \<Longrightarrow> s_stdout s' = s_stdout s"
    and "closed (s_stderr s) \<Longrightarrow> s_stderr s' = s_stderr s"
    and "s_done s \<Longrightarrow> False"
  using assms
  by (auto simp: readLoop_step_def session_ok_def dispatch_def closeTransport_def
      split: loop_pc.splits prod.splits result.splits if_splits)

interpretation v2_inv: invariant v2step run_ok
proof
  fix r a r' assume ok: "run_ok r" and "v2step r a r'"
  from this(2) show "run_ok r'"
  proof (cases rule: v2step.cases)
    case (step_loop s')
    from ok have s: "session_ok (sess r)" by (simp add: run_ok_def)
    note frame = readLoop_step_sent [OF step_loop(3) s]
    from ok step_loop(2) session_ok_loop [OF s step_loop(3)] frame show ?thesis
      by (auto simp: run_ok_def reader_ok_def split: reader_pc.splits caller_pc.splits)
  next
    case (step_stdout n pc st)
    from step_stdout(4) ok step_stdout(2) show ?thesis
      by (cases rule: reader_stepE)
        (auto simp: run_ok_def session_ok_def reader_ok_def looping_def split: caller_pc.splits)
  next
    case (step_stderr n pc st)
    from step_stderr(4) ok step_stderr(2) show ?thesis
      by (cases rule: reader_stepE)
        (auto simp: run_ok_def session_ok_def reader_ok_def looping_def split: caller_pc.splits)
  next
    case step_watcher
    with ok show ?thesis
      by (auto simp: run_ok_def watcher_step_def session_ok_Close split: if_splits caller_pc.splits)
  next
    case step_caller
    with ok show ?thesis
      by (auto simp: run_ok_def caller_step_def Wait_def session_ok_Close
          split: if_splits caller_pc.splits reader_pc.splits option.splits)
  next
    case (step_ctx e)
    with ok show ?thesis by (simp add: run_ok_def split: caller_pc.splits)
  qed
qed

lemma run_ok_start: "run_ok (v2_start silent (new_session c))"
  by (simp add: run_ok_def v2_start_def session_ok_new reader_ok_def)

text \<open>The watcher does not leave before the connection is closed.\<close>

definition shut :: "v2run \<Rightarrow> bool" where
  "shut r \<longleftrightarrow> (\<not> watching r \<longrightarrow> isclosed (transport (sess r)))"

lemma isclosed_Close: "session_ok s \<Longrightarrow> isclosed (transport (session_Close s))"
  using session_ok_closed session_ok_Close session_Close_simps(8) by blast

interpretation v2_shut: invariant v2step "\<lambda>r. run_ok r \<and> shut r"
proof
  fix r a r' assume ok: "run_ok r \<and> shut r" and st: "v2step r a r'"
  then have s: "session_ok (sess r)" by (simp add: run_ok_def)
  from s have d: "s_done (sess r) \<Longrightarrow> isclosed (transport (sess r))" by (auto simp: session_ok_def)
  from st ok have "shut r'"
  proof (cases rule: v2step.cases)
    case step_watcher
    with s d show ?thesis by (auto simp: shut_def watcher_step_def isclosed_Close split: if_splits)
  next
    case step_caller
    with ok s show ?thesis
      by (auto simp: shut_def caller_step_def isclosed_Close
          split: caller_pc.splits reader_pc.splits option.splits)
  qed (auto simp: shut_def dest: readLoop_step_closed)
  with ok st v2_inv.preserved show "run_ok r' \<and> shut r'" by blast
qed

interpretation v2_device: invariant v2step "\<lambda>r. device_silent r = silent" for silent
proof
  fix r a r' assume "device_silent r = silent" and "v2step r a r'"
  from this(2,1) show "device_silent r' = silent"
    by cases (auto simp: watcher_step_def caller_step_def
        split: if_splits caller_pc.splits reader_pc.splits option.splits)
qed

lemma shut_start: "shut (v2_start silent s)"
  by (simp add: shut_def v2_start_def)

section \<open>What the run delivers\<close>

definition expected :: "bytes \<times> bytes \<times> int \<times> go_error option \<Rightarrow> go_error + shell_v2_result" where
  "expected = (\<lambda>(ob, eb, code, w). v2_result None ob None eb None code w)"

definition caller_has :: "bytes \<times> bytes \<times> int \<times> go_error option \<Rightarrow> caller_pc \<Rightarrow> bool" where
  "caller_has C pc = (case C of (ob, eb, code, w) \<Rightarrow> (case pc of
       RecvStdout \<Rightarrow> True
     | RecvStderr b e \<Rightarrow> b = ob \<and> e = None
     | InWait b e b' e' \<Rightarrow> b = ob \<and> e = None \<and> b' = eb \<and> e' = None
     | Waited b e b' e' n w' \<Rightarrow> b = ob \<and> e = None \<and> b' = eb \<and> e' = None \<and> n = code \<and> w' = w
     | Returned x \<Rightarrow> x = expected C))"

text \<open>
  As long as the context is not done, what a collector holds, what its stream buffers and what
  the reading goroutine still has ahead are together what the reference collects.
\<close>

definition total :: "v2run \<Rightarrow> bytes \<times> bytes \<times> int \<times> go_error option" where
  "total r = (case ahead (sess r) of (ob, eb, w) \<Rightarrow>
     (reader_data (out_reader r) @ buf (s_stdout (sess r)) @ ob,
      reader_data (err_reader r) @ buf (s_stderr (sess r)) @ eb, w))"

definition delivers :: "bytes \<times> bytes \<times> int \<times> go_error option \<Rightarrow> v2run \<Rightarrow> bool" where
  "delivers C r \<longleftrightarrow> (case ctx_done r of
       None \<Rightarrow> total r = C \<and> caller_has C (caller r)
     | Some e \<Rightarrow> (case caller r of Returned x \<Rightarrow> x = Inl e \<or> x = expected C | _ \<Rightarrow> True))"

lemma ahead_LoopTop:
  assumes "loop_at s = LoopTop" and "readLoop_step s = Some s'" and "session_ok s"
  shows "ahead s' = ahead s \<and> s_stdout s' = s_stdout s \<and> s_stderr s' = s_stderr s"
proof (cases "readShellV2Packet (transport s)")
  case (Pair r c)
  have fresh: "\<not> gotExit s" "exitCode s = 0" "s_err s = None"
    using assms(1,3) by (auto simp: session_ok_def looping_def)
  show ?thesis
  proof (cases r)
    case (Ok x)
    with Pair assms(1,2) show ?thesis
      by (cases x) (auto simp: readLoop_step_def ahead_def collect.simps [of "transport s"])
  next
    case (Err e)
    with Pair assms(1,2) fresh show ?thesis
      by (auto simp: readLoop_step_def ahead_def waited_def collect.simps [of "transport s"])
  next
    case (Panic p)
    with Pair readShellV2Packet_no_Panic show ?thesis by metis
  qed
qed

lemma total_loop:
  assumes "readLoop_step (sess r) = Some s'" and "session_ok (sess r)"
  shows "total (r\<lparr>sess := s'\<rparr>) = total r"
proof (cases "loop_at (sess r)")
  case LoopTop
  from ahead_LoopTop [OF this assms] show ?thesis by (simp add: total_def)
next
  case (Dispatch pid d)
  moreover from this have "\<not> gotExit (sess r)" "exitCode (sess r) = 0" "s_err (sess r) = None"
    using assms(2) by (auto simp: session_ok_def looping_def)
  ultimately show ?thesis
    using assms(1)
    by (auto simp: readLoop_step_def dispatch_def total_def ahead_def prepend_def waited_def shellV2_ids
        split: prod.split)
qed (use assms(1) in \<open>auto simp: readLoop_step_def total_def ahead_def waited_def closeTransport_def\<close>)

lemma total_reader:
  assumes "reader_step n pc st = Some (pc', st')"
  shows "reader_data pc' @ buf st' = reader_data pc @ buf st \<and> closed st' = closed st"
  using assms by (cases rule: reader_stepE) auto

lemma ahead_stream [simp]:
  "ahead (s\<lparr>s_stdout := st\<rparr>) = ahead s" "ahead (s\<lparr>s_stderr := st\<rparr>) = ahead s"
  by (simp_all add: ahead_def waited_def split: loop_pc.split)

lemma ahead_over: "\<not> looping s \<Longrightarrow> ahead s = ([], [], waited s)"
  by (simp add: ahead_def looping_def split: loop_pc.splits)

lemma session_ok_over:
  assumes "session_ok s"
  shows "closed (s_stdout s) \<Longrightarrow> ahead s = ([], [], waited s)"
    and "closed (s_stderr s) \<Longrightarrow> ahead s = ([], [], waited s)"
    and "s_done s \<Longrightarrow> ahead s = ([], [], waited s)"
  using assms by (auto simp: session_ok_def looping_def intro!: ahead_over)

lemma ahead_Close: "s_done s \<Longrightarrow> session_ok s \<Longrightarrow> ahead (session_Close s) = ahead s"
  by (auto simp: ahead_def session_ok_def waited_def)

lemma Wait_waited: "Wait s = Some x \<Longrightarrow> s_done s \<and> x = waited s"
  by (auto simp: Wait_def waited_def split: if_splits)

lemma sent_total:
  assumes "run_ok r"
  shows "out_reader r = Sent b e \<Longrightarrow> e = None \<and> fst (total r) = b"
    and "err_reader r = Sent b e \<Longrightarrow> e = None \<and> fst (snd (total r)) = b"
  using assms
  by (auto simp: run_ok_def reader_ok_def total_def session_ok_over)

lemma done_total: "run_ok r \<Longrightarrow> s_done (sess r) \<Longrightarrow> snd (snd (total r)) = waited (sess r)"
  by (simp add: run_ok_def total_def session_ok_over)

lemma delivers_caller:
  assumes "run_ok r" and "delivers C r" and "caller_step r = Some r'"
  shows "delivers C r'"
proof (cases "ctx_done r")
  case None
  with assms(2) have C: "total r = C" "caller_has C (caller r)" by (auto simp: delivers_def)
  obtain ob eb code w where Ceq: "C = (ob, eb, code, w)" by (cases C)
  have closed: "s_done (sess r) \<Longrightarrow> ahead (session_Close (sess r)) = ahead (sess r)"
    using assms(1) ahead_Close by (simp add: run_ok_def)
  show ?thesis
    using assms(1,3) None C Ceq sent_total [OF assms(1)] done_total [OF assms(1)] closed
    by (auto simp: caller_step_def delivers_def caller_has_def expected_def total_def run_ok_def
        dest!: Wait_waited split: caller_pc.splits reader_pc.splits option.splits prod.splits)
next
  case (Some e)
  with assms(2,3) show ?thesis
    by (auto simp: caller_step_def delivers_def v2_result_def
        split: caller_pc.splits reader_pc.splits option.splits prod.splits)
qed

interpretation v2_data: invariant v2step "\<lambda>r. run_ok r \<and> delivers C r" for C
proof
  fix r a r' assume ok: "run_ok r \<and> delivers C r" and st: "v2step r a r'"
  from st have "delivers C r'"
  proof (cases rule: v2step.cases)
    case (step_loop s')
    with ok total_loop [OF step_loop(3)] show ?thesis
      by (auto simp: delivers_def run_ok_def split: option.splits)
  next
    case (step_stdout n pc st)
    with ok total_reader [OF step_stdout(4)] show ?thesis
      by (auto simp: delivers_def total_def split: option.splits prod.splits)
  next
    case (step_stderr n pc st)
    with ok total_reader [OF step_stderr(4)] show ?thesis
      by (auto simp: delivers_def total_def split: option.splits prod.splits)
  next
    case step_watcher
    with ok show ?thesis
      by (auto simp: delivers_def watcher_step_def total_def
          split: option.splits if_splits prod.splits)
  next
    case step_caller
    with ok delivers_caller show ?thesis by blast
  next
    case (step_ctx e)
    with ok show ?thesis by (auto simp: delivers_def caller_has_def split: caller_pc.splits prod.splits)
  qed
  with ok st v2_inv.preserved show "run_ok r' \<and> delivers C r'" by blast
qed

lemma delivers_start: "delivers (collect c) (v2_start silent (new_session c))"
  by (auto simp: delivers_def v2_start_def new_session_def newShellV2Stream_def total_def ahead_def
      caller_has_def split: prod.split)

section \<open>Every run ends\<close>

text \<open>
  A bound on the steps that are left: three for a byte still on the connection, two for one in
  the packet in hand, one for one in a buffer, and one for each step of a goroutine's way out.
\<close>

fun loop_left :: "loop_pc \<Rightarrow> nat" where
  "loop_left LoopTop = 5"
| "loop_left (Dispatch _ d) = 6 + 2 * length d"
| "loop_left CloseStderr = 4"
| "loop_left CloseStdout = 3"
| "loop_left CloseTransport = 2"
| "loop_left CloseDone = 1"
| "loop_left LoopReturned = 0"

fun reader_left :: "reader_pc \<Rightarrow> nat" where
  "reader_left (Reading _) = 1"
| "reader_left (Sent _ _) = 0"

fun caller_left :: "caller_pc \<Rightarrow> nat" where
  "caller_left RecvStdout = 4"
| "caller_left (RecvStderr _ _) = 3"
| "caller_left (InWait _ _ _ _) = 2"
| "caller_left (Waited _ _ _ _ _ _) = 1"
| "caller_left (Returned _) = 0"

definition session_left :: "session \<Rightarrow> nat" where
  "session_left s = 3 * in_len (transport s) + loop_left (loop_at s) +
     length (buf (s_stdout s)) + length (buf (s_stderr s))"

definition left :: "v2run \<Rightarrow> nat" where
  "left r = session_left (sess r) + reader_left (out_reader r) + reader_left (err_reader r) +
     (if watching r then 1 else 0) + (if ctx_done r = None then 1 else 0) + caller_left (caller r)"

lemma in_len_Close [simp]: "in_len (snd (conn_Close c)) = in_len c"
  by (simp add: conn_Close_def in_len_def)

lemma session_left_Close [simp]: "session_left (session_Close s) = session_left s"
  by (simp add: session_left_def session_Close_def closeTransport_def)

lemma session_left_loop: "readLoop_step s = Some s' \<Longrightarrow> session_left s' < session_left s"
  by (auto simp: readLoop_step_def session_left_def dispatch_def closeTransport_def
      dest!: readShellV2Packet_keeps [where r = "Err _"] readShellV2Packet_shrinks
      split: loop_pc.splits prod.splits result.splits if_splits)

lemma left_decreases:
  assumes "v2step r a r'"
  shows "left r' < left r"
  using assms
proof (cases rule: v2step.cases)
  case (step_loop s')
  with session_left_loop show ?thesis by (auto simp: left_def)
next
  case (step_stdout n pc st)
  from step_stdout(4) step_stdout(2,3) show ?thesis
    by (cases rule: reader_stepE) (auto simp: left_def session_left_def)
next
  case (step_stderr n pc st)
  from step_stderr(4) step_stderr(2,3) show ?thesis
    by (cases rule: reader_stepE) (auto simp: left_def session_left_def)
next
  case step_watcher
  then show ?thesis by (auto simp: left_def watcher_step_def split: if_splits)
next
  case step_caller
  then show ?thesis
    by (auto simp: left_def caller_step_def
        split: caller_pc.splits reader_pc.splits option.splits prod.splits)
qed (auto simp: left_def)

lemma run_length: "run v2step r tr r' \<Longrightarrow> length tr + left r' \<le> left r"
  by (induction rule: run.induct) (fastforce dest: left_decreases)+

text \<open>A state in which no goroutine can move.\<close>

definition stuck :: "v2run \<Rightarrow> bool" where
  "stuck r \<longleftrightarrow> (\<forall>a r'. v2step r a r' \<longrightarrow> (\<exists>e. a = CtxDone e))"

lemma readLoop_step_total: "loop_at s \<noteq> LoopReturned \<Longrightarrow> readLoop_step s \<noteq> None"
  using readShellV2Packet_no_Panic
  by (auto simp: readLoop_step_def split: loop_pc.splits prod.splits result.splits)

lemma reader_step_total:
  "closed st \<Longrightarrow> reader_step n (Reading acc) st \<noteq> None"
  by (auto simp: reader_step_def stream_Read_def)

lemma stuckD:
  assumes "stuck r"
  shows "readLoop_step (sess r) = None \<or> loop_blocked r" "watcher_step r = None" "caller_step r = None"
    "reader_step 1 (out_reader r) (s_stdout (sess r)) = None"
    "reader_step 1 (err_reader r) (s_stderr (sess r)) = None"
proof -
  have no: "\<not> v2step r a r'" if "\<And>e. a \<noteq> CtxDone e" for a r'
    using assms that by (auto simp: stuck_def)
  show "readLoop_step (sess r) = None \<or> loop_blocked r"
    using no [of ReadLoop] step_loop [of r] by (cases "readLoop_step (sess r)") auto
  show "watcher_step r = None"
    by (rule ccontr) (use no step_watcher in \<open>fastforce\<close>)
  show "caller_step r = None"
    by (rule ccontr) (use no step_caller in \<open>fastforce\<close>)
  show "reader_step 1 (out_reader r) (s_stdout (sess r)) = None"
    by (rule ccontr) (use no [of "ReadStdout 1"] step_stdout [of 1 r] in \<open>force\<close>)
  show "reader_step 1 (err_reader r) (s_stderr (sess r)) = None"
    by (rule ccontr) (use no [of "ReadStderr 1"] step_stderr [of 1 r] in \<open>force\<close>)
qed

lemma stuck_returned:
  assumes "run_ok r" and "stuck r" and "shut r" and "ctx_done r \<noteq> None \<or> \<not> loop_blocked r"
  shows "\<exists>x. caller r = Returned x" and "loop_at (sess r) = LoopReturned"
    and "isclosed (transport (sess r))" and "\<not> watching r"
    and "\<exists>b. out_reader r = Sent b None" and "\<exists>b. err_reader r = Sent b None"
proof -
  note no = stuckD [OF assms(2)]
  have "\<not> loop_blocked r"
  proof (cases "ctx_done r = None")
    case False
    with no(2) have "\<not> watching r" by (auto simp: watcher_step_def split: if_splits)
    with assms(3) show ?thesis by (simp add: shut_def loop_blocked_def awaits_packet_def)
  qed (use assms(4) in simp)
  with no(1) show l: "loop_at (sess r) = LoopReturned" using readLoop_step_total by blast
  with assms(1) have s: "closed (s_stdout (sess r))" "closed (s_stderr (sess r))"
    "s_done (sess r)" "closeOnce (sess r)" "isclosed (transport (sess r))"
    by (auto simp: run_ok_def session_ok_def)
  then show "isclosed (transport (sess r))" by simp
  show "\<not> watching r" using no(2) s by (auto simp: watcher_step_def split: if_splits)
  show o: "\<exists>b. out_reader r = Sent b None"
    using no(4) s reader_step_total assms(1)
    by (cases "out_reader r") (auto simp: run_ok_def reader_ok_def)
  show e: "\<exists>b. err_reader r = Sent b None"
    using no(5) s reader_step_total assms(1)
    by (cases "err_reader r") (auto simp: run_ok_def reader_ok_def)
  show "\<exists>x. caller r = Returned x"
    using no(3) o e s by (cases "caller r") (auto simp: caller_step_def Wait_def split: if_splits)
qed

lemma runs_to_end:
  "\<exists>tr r'. run v2step r tr r' \<and> stuck r' \<and> ctx_done r' = ctx_done r \<and> device_silent r' = device_silent r"
proof (induction "left r" arbitrary: r rule: less_induct)
  case less
  show ?case
  proof (cases "stuck r")
    case True
    then show ?thesis using run_Nil [of v2step r] by blast
  next
    case False
    then obtain a r1 where s: "v2step r a r1" and a: "\<And>e. a \<noteq> CtxDone e"
      by (auto simp: stuck_def)
    have dev: "device_silent r1 = device_silent r" using v2_device.preserved [OF refl s] .
    from s a have ctx: "ctx_done r1 = ctx_done r"
      by (cases rule: v2step.cases)
        (auto simp: watcher_step_def caller_step_def
          split: if_splits caller_pc.splits reader_pc.splits option.splits)
    from less [OF left_decreases [OF s]] obtain tr r' where
      "run v2step r1 tr r'" "stuck r'" "ctx_done r' = ctx_done r1" "device_silent r' = device_silent r1" by blast
    moreover have "run v2step r ([] @ [(r, a, r1)]) r1" using run_Nil s by (rule run_snoc)
    ultimately show ?thesis using run_append ctx dev by metis
  qed
qed

section \<open>What the reference collects\<close>

definition payloads :: "byte \<Rightarrow> (byte \<times> bytes) list \<Rightarrow> bytes" where
  "payloads pid ps = concat (map snd (filter (\<lambda>p. fst p = pid) ps))"

definition exit_status :: "bytes \<Rightarrow> int" where
  "exit_status d = (if d \<noteq> [] then int (unat (hd d)) else 0)"

abbreviation no_exit :: "(byte \<times> bytes) list \<Rightarrow> bool" where
  "no_exit ps \<equiv> list_all (\<lambda>p. v2_valid p \<and> fst p \<noteq> shellV2IDExit) ps"

lemma collect_frame:
  assumes "v2_valid (i, d)" and "\<not> isclosed c" and "pending c = v2_frame (i, d) @ rest"
  shows "collect c = prepend i d (collect (advance (5 + length d) c))"
  using assms readShellV2Packet_frame [of d c i rest]
  by (simp add: collect.simps [of c] v2_valid_def)

lemma collect_frames:
  "no_exit ps \<Longrightarrow> \<not> isclosed c \<Longrightarrow> pending c = concat (map v2_frame ps) @ rest \<Longrightarrow>
   \<exists>c'. pending c' = rest \<and> isclosed c' = isclosed c \<and> in_end c' = in_end c \<and>
     collect c = (case collect c' of (ob, eb, w) \<Rightarrow>
       (payloads shellV2IDStdout ps @ ob, payloads shellV2IDStderr ps @ eb, w))"
proof (induction ps arbitrary: c)
  case Nil
  then show ?case by (auto simp: payloads_def split: prod.split)
next
  case (Cons p ps)
  obtain i d where p: "p = (i, d)" by (cases p)
  let ?c = "advance (5 + length d) c"
  from Cons.prems p have "collect c = prepend i d (collect ?c)"
    by (intro collect_frame [of i d c "concat (map v2_frame ps) @ rest"]) simp_all
  moreover have "\<not> isclosed ?c" "pending ?c = concat (map v2_frame ps) @ rest"
    using Cons.prems p by simp_all
  moreover from this have "\<exists>c'. pending c' = rest \<and> isclosed c' = isclosed ?c \<and> in_end c' = in_end ?c \<and>
      collect ?c = (case collect c' of (ob, eb, w) \<Rightarrow>
        (payloads shellV2IDStdout ps @ ob, payloads shellV2IDStderr ps @ eb, w))"
    using Cons.prems(1) by (intro Cons.IH) simp_all
  then obtain c' where "pending c' = rest" "isclosed c' = isclosed ?c" "in_end c' = in_end ?c"
    "collect ?c = (case collect c' of (ob, eb, w) \<Rightarrow>
       (payloads shellV2IDStdout ps @ ob, payloads shellV2IDStderr ps @ eb, w))" by blast
  ultimately show ?case
    using Cons.prems(1) p
    by (intro exI [of _ c']) (auto simp: payloads_def prepend_def shellV2_ids split: prod.split)
qed

lemma collect_exit:
  assumes "no_exit ps" and "v2_valid (shellV2IDExit, d)" and "\<not> isclosed c"
    and "pending c = concat (map v2_frame ps) @ v2_frame (shellV2IDExit, d) @ rest"
  shows "collect c =
    (payloads shellV2IDStdout ps, payloads shellV2IDStderr ps, exit_status d, None)"
proof -
  from collect_frames [OF assms(1,3,4)] obtain c' where
    c': "pending c' = v2_frame (shellV2IDExit, d) @ rest" "\<not> isclosed c'"
    "collect c = (case collect c' of (ob, eb, w) \<Rightarrow>
       (payloads shellV2IDStdout ps @ ob, payloads shellV2IDStderr ps @ eb, w))"
    using assms(3) by auto
  from collect_frame [OF assms(2) c'(2,1)] c'(3) show ?thesis
    by (simp add: prepend_def exit_status_def split: prod.split)
qed

lemma take_drop_join: "take n (drop m xs) @ drop (m + n) xs = drop m xs"
  by (metis add.commute append_take_drop_id drop_drop)

lemma readShellV2Packet_parses:
  assumes "readShellV2Packet c = (Ok (i, d), c')"
  shows "pending c = v2_frame (i, d) @ pending c' \<and> v2_valid (i, d)"
proof -
  have o: "\<not> isclosed c"
    using assms by (auto simp: readShellV2Packet_def ReadFull_closed shellV2HeaderSize_def)
  from assms obtain h c1 where h: "ReadFull 5 c = (Ok h, c1)"
    by (auto simp: readShellV2Packet_def andThen_def shellV2HeaderSize_def split: prod.splits result.splits)
  with o have h': "h = take 5 (pending c)" "c1 = advance 5 c" "5 \<le> length (pending c)"
    by (auto simp: ReadFull_eq split: if_splits)
  then have "length h = 5" by simp
  then obtain x l where x: "h = x # l" "length l = 4" by (cases h) auto
  have "pending c = h @ pending c1" using h' by simp
  moreover have "unat (get32 l) \<le> shellV2MaxPayload \<and> i = x \<and> length d = unat (get32 l) \<and>
      pending c1 = d @ pending c'"
    using assms h o h'(2) x
    by (auto simp: readShellV2Packet_def andThen_def Let_def ret_def fail_def shellV2HeaderSize_def
        ReadFull_eq take_drop_join split: if_splits prod.splits result.splits)
  ultimately show ?thesis
    using x put32_get32 [OF x(2)] by (auto simp: v2_frame_def v2_valid_def)
qed

lemma collect_success:
  "snd (snd (snd (collect c))) = None \<Longrightarrow>
   \<exists>ps d rest. no_exit ps \<and> v2_valid (shellV2IDExit, d) \<and>
     pending c = concat (map v2_frame ps) @ v2_frame (shellV2IDExit, d) @ rest"
proof (induction c rule: collect.induct)
  case (1 c)
  from "1.prems" readShellV2Packet_no_Panic obtain i d c' where
    p: "readShellV2Packet c = (Ok (i, d), c')"
    by (auto simp: collect.simps [of c] split: prod.splits result.splits)
  note pend = readShellV2Packet_parses [OF p]
  show ?case
  proof (cases "i = shellV2IDExit")
    case True
    with pend show ?thesis
      by (intro exI [of _ "[] :: (byte \<times> bytes) list"] exI [of _ d] exI [of _ "pending c'"]) simp
  next
    case False
    with p "1.prems" have "snd (snd (snd (collect c'))) = None"
      by (auto simp: collect.simps [of c] prepend_def split: prod.splits)
    with "1.IH" [OF p [symmetric] refl refl] obtain ps e rest where
      "no_exit ps" "v2_valid (shellV2IDExit, e)"
      "pending c' = concat (map v2_frame ps) @ v2_frame (shellV2IDExit, e) @ rest" by blast
    with False pend show ?thesis by (intro exI [of _ "(i, d) # ps"] exI [of _ e] exI [of _ rest]) simp
  qed
qed

lemma collect_cut:
  assumes "\<not> isclosed c" and "in_end c = EOF" and "v2_valid (i, d)" and "strict_prefix (pending c) (v2_frame (i, d))"
  shows "collect c = ([], [], 0, Some ErrUnexpectedEOF)"
proof -
  from assms(4) obtain z where z: "v2_frame (i, d) = pending c @ z" "z \<noteq> []"
    by (auto elim: strict_prefixE')
  have "\<exists>e c'. readShellV2Packet c = (Err e, c') \<and> (e = EOF \<or> e = ErrUnexpectedEOF)"
  proof (cases "5 \<le> length (pending c)")
    case False
    then show ?thesis
      using assms(1,2) by (auto simp: readShellV2Packet_def shellV2HeaderSize_def ReadFull_eq andThen_def)
  next
    case True
    then have "take 5 (pending c) = take 5 (v2_frame (i, d))" using z(1) by simp
    then have h: "ReadFull shellV2HeaderSize c = (Ok (i # put32 (of_nat (length d))), advance 5 c)"
      using True assms(1) by (simp add: shellV2HeaderSize_def v2_frame_def)
    from arg_cong [OF z(1), of length] z(2) have "length (pending c) < 5 + length d" by (cases z) auto
    with True assms(1-3) have "\<exists>e c'. ReadFull (length d) (advance 5 c) = (Err e, c') \<and>
        (e = EOF \<or> e = ErrUnexpectedEOF)" and "d \<noteq> []"
      by (auto simp: ReadFull_eq)
    moreover have "unat (of_nat (length d) :: u32) = length d" "length d \<le> shellV2MaxPayload"
      using assms(3) unat_of_payload by (auto simp: v2_valid_def)
    moreover from this \<open>d \<noteq> []\<close> have "(of_nat (length d) :: u32) \<noteq> 0"
      by (metis length_0_conv unat_eq_zero)
    ultimately show ?thesis using h by (auto simp: readShellV2Packet_def Let_def)
  qed
  then show ?thesis by (auto simp: collect.simps [of c])
qed

section \<open>Properties\<close>

lemma RunCommandV2_reference:
  assumes "run v2step (v2_start silent (new_session c)) tr r" and "caller r = Returned x"
  shows "x = expected (collect c) \<or> (\<exists>e. ctx_done r = Some e \<and> x = Inl e)"
proof -
  have "delivers (collect c) r"
    using v2_data.run_inv [OF assms(1), of "collect c"] run_ok_start delivers_start by blast
  with assms(2) show ?thesis by (auto simp: delivers_def caller_has_def split: option.splits prod.splits)
qed

lemma run_stuck_exists:
  "\<exists>tr r x. run v2step (v2_start False (new_session c)) tr r \<and> caller r = Returned x \<and> ctx_done r = None"
proof -
  obtain tr r where tr: "run v2step (v2_start False (new_session c)) tr r" "stuck r" "ctx_done r = None"
    "\<not> device_silent r"
    using runs_to_end [of "v2_start False (new_session c)"] by (auto simp: v2_start_def)
  moreover from tr(1) have "run_ok r \<and> shut r" using v2_shut.run_inv run_ok_start shut_start by blast
  ultimately show ?thesis using stuck_returned(1) [of r] by (auto simp: loop_blocked_def)
qed

text \<open>C7: in every interleaving of the goroutines of \<^verbatim>\<open>RunCommandV2Context\<close> and for every way
  \<^verbatim>\<open>io.ReadAll\<close> and the network cut the data, a run whose context is not done returns a result
  exactly when the device sent a sequence of packets followed by an exit packet; the result is
  then the concatenation of the stdout packets, that of the stderr packets, and the exit code.
  In particular a connection that breaks off without an exit packet is never a success.\<close>

theorem RunCommandV2_result:
  assumes "run v2step (v2_start silent (new_session c)) tr r" and "caller r = Returned x"
    and "ctx_done r = None" and "\<not> isclosed c"
  shows "x = Inr res \<longleftrightarrow> (\<exists>ps d rest. no_exit ps \<and> v2_valid (shellV2IDExit, d) \<and>
     pending c = concat (map v2_frame ps) @ v2_frame (shellV2IDExit, d) @ rest \<and>
     res = \<lparr>Stdout = payloads shellV2IDStdout ps, Stderr = payloads shellV2IDStderr ps,
            ExitCode = exit_status d\<rparr>)"
proof -
  from RunCommandV2_reference [OF assms(1,2)] assms(3) have x: "x = expected (collect c)" by simp
  have exit: "expected (collect c) = Inr \<lparr>Stdout = payloads shellV2IDStdout ps,
      Stderr = payloads shellV2IDStderr ps, ExitCode = exit_status d\<rparr>"
    if "no_exit ps" "v2_valid (shellV2IDExit, d)"
      "pending c = concat (map v2_frame ps) @ v2_frame (shellV2IDExit, d) @ rest" for ps d rest
    using collect_exit [OF that(1,2) assms(4) that(3)] by (simp add: expected_def v2_result_def)
  show ?thesis (is "_ \<longleftrightarrow> ?sent")
  proof
    assume r: "x = Inr res"
    with x have "snd (snd (snd (collect c))) = None"
      by (cases "collect c") (auto simp: expected_def v2_result_def split: option.splits)
    from collect_success [OF this] obtain ps d rest where sent: "no_exit ps" "v2_valid (shellV2IDExit, d)"
      "pending c = concat (map v2_frame ps) @ v2_frame (shellV2IDExit, d) @ rest" by blast
    moreover from exit [OF sent] r x have "res = \<lparr>Stdout = payloads shellV2IDStdout ps,
        Stderr = payloads shellV2IDStderr ps, ExitCode = exit_status d\<rparr>" by simp
    ultimately show ?sent by blast
  next
    assume ?sent
    with exit x show "x = Inr res" by blast
  qed
qed

theorem RunCommandV2_result_witness:
  "\<exists>tr r. run v2step (v2_start False (new_session (new_conn [[1, 2, 0, 0], [0, 104, 105, 3, 1, 0, 0, 0, 7]] EOF))) tr r \<and>
     caller r = Returned (Inr \<lparr>Stdout = [104, 105], Stderr = [], ExitCode = 7\<rparr>)"
proof -
  let ?c = "new_conn [[1, 2, 0, 0], [0, 104, 105, 3, 1, 0, 0, 0, 7]] EOF"
  obtain tr r x where run: "run v2step (v2_start False (new_session ?c)) tr r" "caller r = Returned x"
    "ctx_done r = None" using run_stuck_exists by blast
  let ?ps = "[(shellV2IDStdout, [104, 105])]"
  have "no_exit ?ps" "v2_valid (shellV2IDExit, [7])"
    "pending ?c = concat (map v2_frame ?ps) @ v2_frame (shellV2IDExit, [7]) @ []"
    by (simp_all add: v2_valid_def shellV2_ids shellV2MaxPayload_def v2_frame_def put32_def)
  moreover have "payloads shellV2IDStdout ?ps = [104, 105]" "payloads shellV2IDStderr ?ps = []"
    "exit_status [7] = 7"
    by (simp_all add: payloads_def shellV2_ids exit_status_def)
  ultimately have "x = Inr \<lparr>Stdout = [104, 105], Stderr = [], ExitCode = 7\<rparr>"
    by (intro iffD2 [OF RunCommandV2_result [OF run]] exI [of _ ?ps] exI [of _ "[7]"] exI [of _ "[]"])
      (simp_all only: new_conn_simps not_False_eq_True simp_thms)
  with run show ?thesis by blast
qed

text \<open>C28: a connection that ends after whole packets or in the middle of a packet, before an exit
  packet, makes the command fail with \<^verbatim>\<open>io.ErrUnexpectedEOF\<close>; a context that is done when the
  command returns makes it fail with the context's error, unless the command returned before.\<close>

theorem RunCommandV2_truncated:
  assumes "run v2step (v2_start silent (new_session c)) tr r" and "caller r = Returned x"
    and "\<not> isclosed c" and "in_end c = EOF" and "no_exit ps" and "v2_valid p"
    and "pending c = concat (map v2_frame ps) @ part" and "strict_prefix part (v2_frame p)"
  shows "x = Inl ErrUnexpectedEOF \<or> (\<exists>e. ctx_done r = Some e \<and> x = Inl e)"
proof -
  from collect_frames [OF assms(5,3,7)] assms(3,4) obtain c' where c': "pending c' = part"
    "\<not> isclosed c'" "in_end c' = EOF"
    "collect c = (case collect c' of (ob, eb, w) \<Rightarrow>
       (payloads shellV2IDStdout ps @ ob, payloads shellV2IDStderr ps @ eb, w))" by auto
  obtain i d where p: "p = (i, d)" by (cases p)
  have "collect c' = ([], [], 0, Some ErrUnexpectedEOF)"
    using assms(6,8) c'(1-3) p by (intro collect_cut [of c' i d]) simp_all
  with c'(4) have "expected (collect c) = Inl ErrUnexpectedEOF"
    by (simp add: expected_def v2_result_def)
  with RunCommandV2_reference [OF assms(1,2)] show ?thesis by simp
qed

theorem RunCommandV2_truncated_witness:
  "\<exists>tr r. run v2step (v2_start False (new_session (new_conn [[1, 2, 0, 0, 0, 104, 105], [3, 1, 0]] EOF))) tr r \<and>
     caller r = Returned (Inl ErrUnexpectedEOF)"
proof -
  let ?c = "new_conn [[1, 2, 0, 0, 0, 104, 105], [3, 1, 0]] EOF"
  obtain tr r x where run: "run v2step (v2_start False (new_session ?c)) tr r" "caller r = Returned x"
    "ctx_done r = None" using run_stuck_exists by blast
  have "no_exit [(shellV2IDStdout, [104, 105])]" "v2_valid (shellV2IDExit, [7])"
    "pending ?c = concat (map v2_frame [(shellV2IDStdout, [104, 105])]) @ [3, 1, 0]"
    "strict_prefix [3, 1, 0] (v2_frame (shellV2IDExit, [7]))"
    by (simp_all add: v2_valid_def shellV2_ids shellV2MaxPayload_def v2_frame_def put32_def)
  from RunCommandV2_truncated [OF run(1,2) _ _ this(1,2,3,4)] run show ?thesis by auto
qed

section \<open>Exit packets arrive\<close>

definition sends_exit :: "conn \<Rightarrow> bool" where
  "sends_exit c \<longleftrightarrow> (\<exists>ps d rest. no_exit ps \<and> v2_valid (shellV2IDExit, d) \<and>
     pending c = concat (map v2_frame ps) @ v2_frame (shellV2IDExit, d) @ rest)"

lemma sends_exit_first:
  assumes "sends_exit c"
  obtains i d rest where "v2_valid (i, d)" "pending c = v2_frame (i, d) @ rest"
    "i = shellV2IDExit \<or> sends_exit (advance (5 + length d) c)"
proof -
  from assms obtain ps e rest where *: "no_exit ps" "v2_valid (shellV2IDExit, e)"
    "pending c = concat (map v2_frame ps) @ v2_frame (shellV2IDExit, e) @ rest"
    by (auto simp: sends_exit_def)
  show thesis
  proof (cases ps)
    case Nil
    with * that show thesis by simp
  next
    case (Cons p qs)
    obtain i d where p: "p = (i, d)" by (cases p)
    with * Cons have "sends_exit (advance (5 + length d) c)" by (fastforce simp: sends_exit_def)
    with * Cons p that [of i d "concat (map v2_frame qs) @ v2_frame (shellV2IDExit, e) @ rest"] show thesis
      by simp
  qed
qed

lemma frame_not_awaited:
  assumes "v2_valid (i, d)" and "pending c = v2_frame (i, d) @ rest"
  shows "\<not> awaits_packet c"
  using assms unat_of_payload [of d]
  by (simp add: awaits_packet_def v2_frame_def v2_valid_def shellV2HeaderSize_def)

lemma awaits_open: "awaits_packet c \<Longrightarrow> \<not> isclosed c"
  by (simp add: awaits_packet_def)

lemma sends_exit_not_awaited: "sends_exit c \<Longrightarrow> \<not> awaits_packet c"
  by (erule sends_exit_first) (rule frame_not_awaited)

definition exit_ahead :: "session \<Rightarrow> bool" where
  "exit_ahead s \<longleftrightarrow> isclosed (transport s) \<or> (case loop_at s of
       LoopTop \<Rightarrow> sends_exit (transport s)
     | Dispatch i d \<Rightarrow> i = shellV2IDExit \<or> sends_exit (transport s)
     | _ \<Rightarrow> True)"

lemma exit_ahead_loop:
  assumes "exit_ahead s" and "readLoop_step s = Some s'"
  shows "exit_ahead s'"
proof (cases "isclosed (transport s)")
  case True
  with assms(2) readLoop_step_closed show ?thesis by (auto simp: exit_ahead_def)
next
  case False
  show ?thesis
  proof (cases "loop_at s")
    case LoopTop
    with False assms(1) obtain i d rest where f: "v2_valid (i, d)" "pending (transport s) = v2_frame (i, d) @ rest"
      "i = shellV2IDExit \<or> sends_exit (advance (5 + length d) (transport s))"
      by (auto simp: exit_ahead_def elim: sends_exit_first)
    with False readShellV2Packet_frame [of d "transport s" i rest] LoopTop assms(2) show ?thesis
      by (auto simp: readLoop_step_def exit_ahead_def v2_valid_def)
  next
    case (Dispatch i d)
    with False assms show ?thesis
      by (auto simp: readLoop_step_def dispatch_def exit_ahead_def shellV2_ids split: if_splits)
  qed (use assms in \<open>auto simp: readLoop_step_def exit_ahead_def closeTransport_def\<close>)
qed

lemma exit_ahead_Close [simp]: "exit_ahead s \<Longrightarrow> exit_ahead (session_Close s)"
  by (auto simp: exit_ahead_def session_Close_def closeTransport_def sends_exit_def conn_Close_def
      split: loop_pc.splits)

lemma exit_ahead_streams [simp]:
  "exit_ahead (s\<lparr>s_stdout := st\<rparr>) = exit_ahead s" "exit_ahead (s\<lparr>s_stderr := st\<rparr>) = exit_ahead s"
  by (simp_all add: exit_ahead_def split: loop_pc.split)

interpretation v2_exit: invariant v2step "\<lambda>r. exit_ahead (sess r)"
proof
  fix r a r' assume "exit_ahead (sess r)" and "v2step r a r'"
  from this(2,1) show "exit_ahead (sess r')"
    by cases (auto simp: watcher_step_def caller_step_def intro: exit_ahead_loop
        split: if_splits caller_pc.splits reader_pc.splits option.splits)
qed

text \<open>C8: a command does not hang once its context is done, its stream has ended or the device has
  sent an exit packet, and it leaves no goroutine behind. Every run of the goroutines has at most
  three steps for each byte the device sends and thirteen more. The device may fall silent with
  the connection open, and the reading goroutine then waits; but when the context is done, or
  the device ends its stream, or an exit packet is among what it sent, then a state in which no
  goroutine can move is one in which the caller has returned, the reading goroutine, both
  collectors and the watcher have ended, and the connection is closed.\<close>

theorem RunCommandV2_ends:
  assumes "run v2step (v2_start silent (new_session c)) tr r"
  shows "length tr \<le> 3 * length (pending c) + 13 \<and>
    (stuck r \<and> (ctx_done r \<noteq> None \<or> \<not> silent \<or> sends_exit c) \<longrightarrow>
       (\<exists>x. caller r = Returned x) \<and> loop_at (sess r) = LoopReturned \<and>
       (\<exists>b. out_reader r = Sent b None) \<and> (\<exists>b. err_reader r = Sent b None) \<and>
       \<not> watching r \<and> isclosed (transport (sess r)))"
proof -
  have "left (v2_start silent (new_session c)) = 3 * length (pending c) + 13"
    by (simp add: left_def session_left_def v2_start_def new_session_def newShellV2Stream_def in_len_def)
  moreover have ok: "run_ok r" "shut r" using v2_shut.run_inv [OF assms] run_ok_start shut_start by blast+
  moreover have "device_silent r = silent" using v2_device.run_inv [OF assms] by (simp add: v2_start_def)
  moreover have "\<not> loop_blocked r" if "sends_exit c"
  proof -
    have "exit_ahead (sess (v2_start silent (new_session c)))"
      using that by (simp add: exit_ahead_def v2_start_def new_session_def)
    with v2_exit.run_inv [OF assms] have "exit_ahead (sess r)" by blast
    then show ?thesis
      using sends_exit_not_awaited awaits_open by (auto simp: loop_blocked_def exit_ahead_def)
  qed
  ultimately have "ctx_done r \<noteq> None \<or> \<not> silent \<or> sends_exit c \<Longrightarrow> ctx_done r \<noteq> None \<or> \<not> loop_blocked r"
    "length tr \<le> 3 * length (pending c) + 13"
    using run_length [OF assms] by (auto simp: loop_blocked_def)
  then show ?thesis using stuck_returned [OF ok(1) _ ok(2)] by blast
qed

theorem RunCommandV2_ends_witness:
  "\<exists>tr r. run v2step (v2_start True (new_session (new_conn [[1, 2, 0]] EOF))) tr r \<and>
     length tr \<le> 22 \<and> (\<exists>x. caller r = Returned x) \<and> isclosed (transport (sess r))"
proof -
  let ?s = "v2_start True (new_session (new_conn [[1, 2, 0]] EOF))"
  let ?r = "?s\<lparr>ctx_done := Some (CtxErr ''context deadline exceeded'')\<rparr>"
  have "v2step ?s (CtxDone (CtxErr ''context deadline exceeded'')) ?r"
    by (rule step_ctx) (simp add: v2_start_def)
  then have "run v2step ?s ([] @ [(?s, CtxDone (CtxErr ''context deadline exceeded''), ?r)]) ?r"
    using run_Nil by (rule run_snoc [rotated])
  moreover obtain tr r where "run v2step ?r tr r" "stuck r" "ctx_done r = ctx_done ?r"
    using runs_to_end by blast
  ultimately obtain tr' where "run v2step ?s tr' r" "stuck r" "ctx_done r \<noteq> None"
    using run_append by fastforce
  with RunCommandV2_ends [OF this(1)] show ?thesis by auto
qed

end
