(* ===== verification/Server.thy ===== *)
theory Server
  imports BridgeProofs
begin

text \<open>
  The listening server, \<^verbatim>\<open>tcpusb/server.go\<close>, the facade \<^verbatim>\<open>tcpusb/bridge.go\<close> and the set-up of
  \<^verbatim>\<open>cmd/usb-bridge/main.go\<close>. A server is its fields together with the sockets it ever accepted
  (a \<^verbatim>\<open>*Socket\<close> is an index into \<open>socks\<close>), each with the state \<open>bridge\<close> of its own goroutines.
  The goroutines of the server are \<^verbatim>\<open>Listen\<close>, one per socket that runs \<^verbatim>\<open>Socket.Start\<close> and then
  its deferred function, and a caller of \<^verbatim>\<open>Close\<close>; a step is one critical section under the
  server's mutex, one call on the listener, or one step of a socket (\<open>bstep\<close>).
\<close>

section \<open>State\<close>

text \<open>
  Where \<^verbatim>\<open>Listen\<close> stands: before \<^verbatim>\<open>net.Listen\<close>, with a listener it has not stored yet, in
  \<^verbatim>\<open>Accept\<close>, after an error of \<^verbatim>\<open>Accept\<close>, with a socket that is not registered yet, with a
  registered socket whose goroutine is not started yet, or returned. Where the goroutine of a
  socket stands, and where the call of \<^verbatim>\<open>Close\<close> that found the server open stands: ending the
  sockets of its copy of the list, waiting for the end it has begun, and before closing the
  listener.
\<close>

datatype listen_pc = ListenBind | ListenStore | ListenAccept | ListenFailed | ListenRegister nat
  | ListenSpawn nat | ListenReturned "go_error option"

datatype socket_pc = SocketNew | SocketRunning | SocketFinished

datatype close_pc = CloseIdle | CloseEnd "nat list" | CloseWait nat "nat list" | CloseListener
  | CloseReturned "go_error option"

record net_listener =
  l_closed :: bool

record accepted =
  sock :: bridge
  sock_pc :: socket_pc

record server =
  listener :: "net_listener option"
  connections :: "nat list"
  srv_closed :: bool
  bound :: "net_listener option"
  socks :: "accepted list"
  listen_pc :: listen_pc
  close_pc :: close_pc
  close_listener :: bool

text \<open>
  \<open>bound\<close> is the listener \<^verbatim>\<open>Listen\<close> holds, \<open>listener\<close> the field of the server; both name the same
  listener. \<open>close_listener\<close> is the local variable of \<^verbatim>\<open>Close\<close>: whether the field was set when it
  was read.
\<close>

definition NewServer :: server where
  "NewServer = \<lparr>listener = None, connections = [], srv_closed = False, bound = None, socks = [],
     listen_pc = ListenBind, close_pc = CloseIdle, close_listener = False\<rparr>"

section \<open>Listen\<close>

definition upd_sock :: "nat \<Rightarrow> (accepted \<Rightarrow> accepted) \<Rightarrow> server \<Rightarrow> server" where
  "upd_sock i f srv = srv\<lparr>socks := (socks srv)[i := f (socks srv ! i)]\<rparr>"

text \<open>
  One step of \<^verbatim>\<open>Listen\<close>. \<open>bind\<close> is the outcome of \<^verbatim>\<open>net.Listen\<close>, \<open>acc\<close> that of \<^verbatim>\<open>Accept\<close> on an
  open listener: an error, or a connection together with the answers the adb server will give
  to this socket.
\<close>

definition listen_step ::
  "go_error option \<Rightarrow> go_error + (world \<times> conn) \<Rightarrow> server \<Rightarrow> server option" where
  "listen_step bind acc srv = (case listen_pc srv of
       ListenBind \<Rightarrow>
         (case bind of
            Some err \<Rightarrow> Some (srv\<lparr>listen_pc := ListenReturned (Some err)\<rparr>)
          | None \<Rightarrow> Some (srv\<lparr>bound := Some \<lparr>l_closed = False\<rparr>, listen_pc := ListenStore\<rparr>))
     | ListenStore \<Rightarrow> Some (srv\<lparr>listener := bound srv, listen_pc := ListenAccept\<rparr>)
     | ListenAccept \<Rightarrow>
         (case bound srv of
            None \<Rightarrow> None
          | Some l \<Rightarrow>
              if l_closed l then Some (srv\<lparr>listen_pc := ListenFailed\<rparr>)
              else (case acc of
                  Inl err \<Rightarrow> Some (srv\<lparr>listen_pc := ListenFailed\<rparr>)
                | Inr (w, c) \<Rightarrow>
                    Some (srv\<lparr>socks := socks srv @ [\<lparr>sock = NewSocket w c, sock_pc = SocketNew\<rparr>],
                              listen_pc := ListenRegister (length (socks srv))\<rparr>)))
     | ListenFailed \<Rightarrow>
         Some (srv\<lparr>listen_pc := (if srv_closed srv then ListenReturned None else ListenAccept)\<rparr>)
     | ListenRegister i \<Rightarrow> Some (srv\<lparr>connections := connections srv @ [i], listen_pc := ListenSpawn i\<rparr>)
     | ListenSpawn i \<Rightarrow>
         Some ((upd_sock i (\<lambda>s. s\<lparr>sock_pc := SocketRunning\<rparr>) srv)\<lparr>listen_pc := ListenAccept\<rparr>)
     | ListenReturned _ \<Rightarrow> None)"

text \<open>
  The deferred function of a socket's goroutine, once \<^verbatim>\<open>Start\<close> has returned.
\<close>

definition cleanup_step :: "nat \<Rightarrow> server \<Rightarrow> server option" where
  "cleanup_step i srv =
     (if sock_pc (socks srv ! i) = SocketRunning \<and>
         (case main_pc (sock (socks srv ! i)) of MainDone _ \<Rightarrow> True | _ \<Rightarrow> False)
      then Some ((if srv_closed srv then srv else srv\<lparr>connections := remove1 i (connections srv)\<rparr>)
                 \<lparr>socks := (socks srv)[i := (socks srv ! i)\<lparr>sock_pc := SocketFinished\<rparr>]\<rparr>)
      else None)"

section \<open>Close\<close>

definition server_Close :: "server \<Rightarrow> server" where
  "server_Close srv =
     (if srv_closed srv then srv
      else srv\<lparr>srv_closed := True, connections := [], close_pc := CloseEnd (connections srv),
               close_listener := (listener srv \<noteq> None)\<rparr>)"

definition close_l :: "net_listener \<Rightarrow> net_listener" where
  "close_l l = l\<lparr>l_closed := True\<rparr>"

definition close_step :: "server \<Rightarrow> server option" where
  "close_step srv = (case close_pc srv of
       CloseIdle \<Rightarrow> None
     | CloseEnd [] \<Rightarrow> Some (srv\<lparr>close_pc := CloseListener\<rparr>)
     | CloseEnd (i # is) \<Rightarrow>
         Some ((upd_sock i (\<lambda>s. s\<lparr>sock := socket_End (sock s)\<rparr>) srv)
           \<lparr>close_pc := (if sock_ended (sock (socks srv ! i)) then CloseEnd is else CloseWait i is)\<rparr>)
     | CloseWait i is \<Rightarrow>
         if closing (sock (socks srv ! i)) then None else Some (srv\<lparr>close_pc := CloseEnd is\<rparr>)
     | CloseListener \<Rightarrow>
         if close_listener srv
         then (case bound srv of
             None \<Rightarrow> None
           | Some l \<Rightarrow>
               Some (srv\<lparr>bound := Some (close_l l), listener := Some (close_l l),
                 close_pc := CloseReturned (if l_closed l then Some err_closed else None)\<rparr>))
         else Some (srv\<lparr>close_pc := CloseReturned None\<rparr>)
     | CloseReturned _ \<Rightarrow> None)"

section \<open>Interleaving\<close>

text \<open>
  A crash in the goroutines of one socket ends the process. \<^verbatim>\<open>Socket.End\<close> is called from outside
  only by \<^verbatim>\<open>Close\<close>, so a socket has no \<open>Shutdown\<close> step of its own here; its \<^verbatim>\<open>Start\<close> loop runs
  from the moment its goroutine is started. \<open>cleanup_step\<close> may come before the second part of an
  \<^verbatim>\<open>End\<close> that another goroutine has begun.
\<close>

datatype srv_action = ListenStep | SockStep nat actor | CleanupStep nat | CallClose | CloseStep

definition alive :: "server \<Rightarrow> bool" where
  "alive srv \<longleftrightarrow> list_all (\<lambda>s. crashed (sock s) = None) (socks srv)"

inductive sstep :: "config \<Rightarrow> server \<Rightarrow> srv_action \<Rightarrow> server \<Rightarrow> bool" for cfg where
  srv_listen: "alive srv \<Longrightarrow> listen_step bind acc srv = Some srv' \<Longrightarrow> sstep cfg srv ListenStep srv'"
| srv_sock: "alive srv \<Longrightarrow> i < length (socks srv) \<Longrightarrow> bstep cfg (sock (socks srv ! i)) a b \<Longrightarrow>
    a \<noteq> Shutdown \<Longrightarrow> (a = Main \<Longrightarrow> sock_pc (socks srv ! i) = SocketRunning) \<Longrightarrow>
    sstep cfg srv (SockStep i a) (upd_sock i (\<lambda>s. s\<lparr>sock := b\<rparr>) srv)"
| srv_cleanup: "alive srv \<Longrightarrow> i < length (socks srv) \<Longrightarrow> cleanup_step i srv = Some srv' \<Longrightarrow>
    sstep cfg srv (CleanupStep i) srv'"
| srv_call: "alive srv \<Longrightarrow> sstep cfg srv CallClose (server_Close srv)"
| srv_close: "alive srv \<Longrightarrow> close_step srv = Some srv' \<Longrightarrow> sstep cfg srv CloseStep srv'"

section \<open>The facade\<close>

record bridge_config =
  Port :: int
  ADBHost :: string
  ADBPort :: int
  AuthHandler :: "(bytes \<Rightarrow> go_error option) option"

record usb_bridge =
  br_Serial :: string
  Config :: bridge_config

definition DefaultConfig :: bridge_config where
  "DefaultConfig = \<lparr>Port = 6174, ADBHost = ''127.0.0.1'', ADBPort = 5037,
     AuthHandler = Some (\<lambda>publicKey. None)\<rparr>"

definition NewBridge :: "string \<Rightarrow> usb_bridge" where
  "NewBridge s = \<lparr>br_Serial = s, Config = DefaultConfig\<rparr>"

text \<open>
  \<^verbatim>\<open>Start\<close>: what the sockets of the server are made with, and the address it listens on; the
  environment variables and the operating system are those \<^verbatim>\<open>NewClientWithOptions\<close> reads.
\<close>

definition bridge_device :: "(string \<Rightarrow> string) \<Rightarrow> string \<Rightarrow> usb_bridge \<Rightarrow> device" where
  "bridge_device getenv goos b =
     client_Device (NewClientWithOptions getenv goos
         \<lparr>opt_Host = ADBHost (Config b), opt_Port = ADBPort (Config b), opt_Bin = ''''\<rparr>)
       (DeviceWithSerial (br_Serial b))"

definition Start :: "(string \<Rightarrow> string) \<Rightarrow> string \<Rightarrow> usb_bridge \<Rightarrow> config \<times> server \<times> string" where
  "Start getenv goos b =
     (\<lparr>cfg_device = bridge_device getenv goos b, authHandler = socket_auth (AuthHandler (Config b))\<rparr>,
      NewServer, '':'' @ dec_int (Port (Config b)))"

definition StartWithServer :: "(string \<Rightarrow> string) \<Rightarrow> string \<Rightarrow> usb_bridge \<Rightarrow> config \<times> server \<times> string" where
  "StartWithServer getenv goos b = Start getenv goos b"

text \<open>
  \<^verbatim>\<open>main\<close> of the command, from its parsed flags: exit status 1 without a serial number,
  otherwise the bridge that is started.
\<close>

definition main_bridge :: "string \<Rightarrow> int \<Rightarrow> string \<Rightarrow> int \<Rightarrow> int + usb_bridge" where
  "main_bridge sn port adbHost adbPort =
     (if sn = '''' then Inl 1
      else let b = NewBridge sn
           in Inr (b\<lparr>Config := (Config b)\<lparr>Port := port, ADBHost := adbHost, ADBPort := adbPort\<rparr>\<rparr>))"

section \<open>Every socket is a bridge\<close>

text \<open>
  What the server and the other sockets do to one socket are steps of that socket: its own
  steps, and the call of \<^verbatim>\<open>End\<close> by \<^verbatim>\<open>Close\<close>.
\<close>

lemma socks_upd [simp]:
  "length (socks (upd_sock i f srv)) = length (socks srv)"
  "i < length (socks srv) \<Longrightarrow> j < length (socks srv) \<Longrightarrow>
   socks (upd_sock i f srv) ! j = (if i = j then f (socks srv ! j) else socks srv ! j)"
  by (auto simp: upd_sock_def nth_upd)

definition moves :: "config \<Rightarrow> bridge \<Rightarrow> bridge \<Rightarrow> bool" where
  "moves cfg b b' \<longleftrightarrow> b' = b \<or> (\<exists>a. bstep cfg b a b')"

lemma alive_nth: "alive srv \<Longrightarrow> i < length (socks srv) \<Longrightarrow> crashed (sock (socks srv ! i)) = None"
  by (simp add: alive_def list_all_length)

lemma listen_step_socks:
  assumes "listen_step bind acc srv = Some srv'" and "j < length (socks srv)"
  shows "j < length (socks srv') \<and> sock (socks srv' ! j) = sock (socks srv ! j)"
  using assms
  by (cases "listen_pc srv") (auto simp: listen_step_def nth_append upd_sock_def nth_upd
      split: option.splits if_splits sum.splits prod.splits)

lemma cleanup_step_socks:
  assumes "cleanup_step i srv = Some srv'" and "j < length (socks srv)"
  shows "j < length (socks srv') \<and> sock (socks srv' ! j) = sock (socks srv ! j)"
  using assms by (auto simp: cleanup_step_def nth_upd split: if_splits)

lemma close_step_socks:
  assumes "close_step srv = Some srv'" and "alive srv" and "j < length (socks srv)"
  shows "length (socks srv') = length (socks srv) \<and>
    (sock (socks srv' ! j) = sock (socks srv ! j) \<or>
     bstep cfg (sock (socks srv ! j)) Shutdown (sock (socks srv' ! j)))"
  using assms alive_nth [OF assms(2,3)]
  by (auto simp: close_step_def upd_sock_def nth_upd intro: step_shutdown
      split: close_pc.splits list.splits if_splits option.splits)

lemma sstep_moves:
  assumes "sstep cfg srv a srv'" and "j < length (socks srv)"
  shows "j < length (socks srv') \<and> moves cfg (sock (socks srv ! j)) (sock (socks srv' ! j))"
  using assms(1)
proof cases
  case (srv_sock i b b')
  with assms(2) show ?thesis by (auto simp: moves_def)
next
  case srv_call
  with assms(2) show ?thesis by (simp add: moves_def server_Close_def)
next
  case srv_close
  with close_step_socks [OF srv_close(3,2) assms(2), of cfg] assms(2) show ?thesis
    by (auto simp: moves_def)
qed (use assms(2) listen_step_socks cleanup_step_socks in \<open>auto simp: moves_def\<close>)

lemma sstep_new_sock:
  assumes "sstep cfg srv a srv'" and "\<not> j < length (socks srv)" and "j < length (socks srv')"
  shows "\<exists>w c. sock (socks srv' ! j) = NewSocket w c"
  using assms
  by cases (auto simp: listen_step_def cleanup_step_def server_Close_def close_step_def upd_sock_def
      nth_append less_Suc_eq split: listen_pc.splits close_pc.splits list.splits option.splits if_splits
      sum.splits prod.splits; blast)+

text \<open>
  The sockets of a server share its list of connections and nothing else, and \<open>sstep\<close> is
  written so: each socket has its own state and its own table of device connections. What is
  shown of one bridge therefore carries over to each client of a server.
\<close>

lemma sock_runs:
  assumes "run (sstep cfg) NewServer tr srv" and "i < length (socks srv)"
  shows "\<exists>w c tr'. run (bstep cfg) (NewSocket w c) tr' (sock (socks srv ! i))"
  using assms
proof (induction NewServer tr srv arbitrary: i rule: run.induct)
  case run_Nil
  then show ?case by (simp add: NewServer_def)
next
  case (run_snoc tr srv a srv')
  show ?case
  proof (cases "i < length (socks srv)")
    case True
    with run_snoc obtain w c tr' where tr: "run (bstep cfg) (NewSocket w c) tr' (sock (socks srv ! i))"
      by blast
    from sstep_moves [OF run_snoc(3) True] show ?thesis
      unfolding moves_def using tr run.run_snoc [OF tr] by metis
  next
    case False
    with sstep_new_sock [OF run_snoc(3) False] run_snoc(4) obtain w c
      where "sock (socks srv' ! i) = NewSocket w c" by blast
    then show ?thesis using run.run_Nil [of "bstep cfg"] by metis
  qed
qed

section \<open>An ended socket stays ended\<close>

lemma send_ended [simp]: "sock_ended b \<Longrightarrow> send d b = b"
  by (simp add: send_def socket_Write_def)

lemma socket_Write_ended [simp]: "sock_ended b \<Longrightarrow> socket_Write d b = (Err (Errorf ''socket ended''), b)"
  by (simp add: socket_Write_def)

definition shut :: "bridge \<Rightarrow> bool \<times> conn" where
  "shut b = (sock_ended b, sock_conn b)"

lemma shut_simps [simp]:
  "shut (upd i f b) = shut b" "shut (close_transport t b) = shut b" "shut (b\<lparr>net := w\<rparr>) = shut b"
  "shut (goto i pc b) = shut b" "shut (fwd_goto i fp b) = shut b" "shut (crash q b) = shut b"
  "shut (b\<lparr>service_table := sm\<rparr>) = shut b" "shut (b\<lparr>main_pc := mp\<rparr>) = shut b"
  "shut (b\<lparr>token := d\<rparr>) = shut b" "shut (b\<lparr>signature := d\<rparr>) = shut b"
  by (simp_all add: shut_def bridge_frame crash_def goto_def fwd_goto_def upd_def close_transport_def
      split: option.split)

lemma shut_ended: "shut b' = shut b \<Longrightarrow> sock_ended b' = sock_ended b \<and> sock_conn b' = sock_conn b"
  by (simp add: shut_def)

lemma shut_send [simp]: "sock_ended b \<Longrightarrow> shut (send d b) = shut b"
  by simp

lemma shut_End [simp]: "sock_ended b \<Longrightarrow> shut (service_End i b) = shut b"
proof -
  assume e: "sock_ended b"
  have "sock_ended (close_transport t b)" for t using e by (simp add: bridge_frame)
  then show ?thesis by (simp add: service_End_def Let_def)
qed

lemma shut_fold_End: "sock_ended b \<Longrightarrow> shut (fold service_End is b) = shut b"
proof (induction "is" arbitrary: b)
  case (Cons i "is")
  then have "sock_ended (service_End i b)" using shut_End shut_ended by blast
  with Cons show ?case by simp
qed simp

lemma shut_on_net: "on_net m b = (r, b') \<Longrightarrow> shut b' = shut b"
  by (auto dest: on_net_frame)

lemma shut_on_transport: "on_transport i m b = (r, b') \<Longrightarrow> shut b' = shut b"
  by (auto dest: on_transport_frame)

lemma shut_proceed:
  "(\<And>r b1. m b = (r, b1) \<Longrightarrow> shut b1 = shut b) \<Longrightarrow> shut (proceed i m k b) = shut b"
  by (rule proceed_cases [of m b i k]) auto

lemma shut_open_step: "sock_ended b \<Longrightarrow> open_step cfg i b = Some b' \<Longrightarrow> shut b' = shut b"
  by (auto simp: open_step_def Let_def shut_on_net shut_on_transport
      intro!: shut_proceed split: open_pc.splits if_splits)

lemma shut_fwd_step: "sock_ended b \<Longrightarrow> fwd_step tick i b = Some b' \<Longrightarrow> shut b' = shut b"
  by (auto simp: fwd_step_def Let_def dest: shut_on_net
      split: fwd_pc.splits if_splits option.splits prod.splits result.splits)

lemma shut_service_Handle: "sock_ended b \<Longrightarrow> service_Handle i p b = (r, b') \<Longrightarrow> shut b' = shut b"
  by (auto simp: service_Handle_def handleOkayPacket_def handleWritePacket_def handleClosePacket_def
      Let_def fail_def ret_def andThen_def dest!: shut_on_net
      split: if_splits option.splits prod.splits result.splits)
    (auto simp: shut_def send_def socket_Write_def)

lemma shut_Write: "sock_ended b \<Longrightarrow> socket_Write d b = (r, b') \<Longrightarrow> shut b' = shut b"
  by simp

lemma shut_getDeviceID: "getDeviceID cfg ch b = (r, b') \<Longrightarrow> shut b' = shut b"
  by (auto simp: getDeviceID_def attempt_def ret_def Let_def dest!: shut_on_net
      split: prod.splits result.splits)

lemma shut_sendCNXN:
  assumes "sock_ended b" and "sendCNXN cfg ch b = (r, b')"
  shows "shut b' = shut b"
proof (cases "getDeviceID cfg ch b")
  case (Pair x b1)
  then have b1: "shut b1 = shut b" by (rule shut_getDeviceID)
  with assms(1) have "sock_ended b1" using shut_ended by blast
  with assms(2) Pair b1 show ?thesis by (cases x) (auto simp: sendCNXN_def)
qed

lemma shut_authorized [simp]: "shut (b\<lparr>authorized := x\<rparr>) = shut b"
  by (simp add: shut_def)

lemma shut_handlers:
  assumes "sock_ended b"
  shows "handleSyncPacket p b = (r, b') \<Longrightarrow> shut b' = shut b"
    and "handleConnectionPacket ch p b = (r, b') \<Longrightarrow> shut b' = shut b"
    and "handleOpenPacket p b = (r, b') \<Longrightarrow> shut b' = shut b"
    and "forwardServicePacket p b = (r, b') \<Longrightarrow> shut b' = shut b"
    and "handleAuthPacket cfg ch p b = (r, b') \<Longrightarrow> shut b' = shut b"
proof -
  show "shut b' = shut b" if "handleSyncPacket p b = (r, b')"
    using assms that by (auto simp: handleSyncPacket_def shut_def split: prod.splits)
  show "shut b' = shut b" if "handleConnectionPacket ch p b = (r, b')"
    using assms that by (auto simp: handleConnectionPacket_def Let_def shut_def split: sum.splits)
  show "shut b' = shut b" if "handleOpenPacket p b = (r, b')"
    using assms that by (auto simp: handleOpenPacket_def Let_def shut_def
        split: prod.splits if_splits result.splits)
  show "shut b' = shut b" if "forwardServicePacket p b = (r, b')"
    using assms that by (auto simp: forwardServicePacket_def dest: shut_service_Handle
        split: if_splits option.splits)
  show "shut b' = shut b" if "handleAuthPacket cfg ch p b = (r, b')"
    using assms that shut_sendCNXN [of "b\<lparr>authorized := True\<rparr>" cfg ch r b']
    by (auto simp: handleAuthPacket_def Let_def shut_def split: if_splits option.splits)
qed

lemma shut_socket_handle:
  "sock_ended b \<Longrightarrow> socket_handle cfg ch p b = (r, b') \<Longrightarrow> shut b' = shut b"
  by (auto simp: socket_handle_def fail_def dest: shut_handlers split: if_splits)

text \<open>
  The second part of \<^verbatim>\<open>Socket.End\<close> leaves the client's connection closed, for good.
\<close>

definition sealed :: "bridge \<Rightarrow> bool" where
  "sealed b \<longleftrightarrow> (closing b \<longrightarrow> sock_ended b) \<and> (sock_ended b \<and> \<not> closing b \<longrightarrow> isclosed (sock_conn b))"

lemma read_packet_step_closed:
  "read_packet_step s = (r, s') \<Longrightarrow> isclosed (fst s') = isclosed (fst s)"
  by (auto simp: read_packet_step_def Let_def andThen_def appendChunk_cases conn_Read_def ret_def
      split: prod.splits if_splits list.splits)

lemma ReadPacket_closed: "isclosed (fst (snd (ReadPacket s))) = isclosed (fst s)"
proof (induction s rule: ReadPacket.induct)
  case (1 s)
  obtain r s' where step: "read_packet_step s = (r, s')" by (cases "read_packet_step s")
  with read_packet_step_closed [OF step] "1.IH" show ?case
    by (subst ReadPacket.simps) (auto split: result.splits option.splits)
qed

lemma sealed_cong: "core b' = core b \<Longrightarrow> (sock_ended b \<Longrightarrow> shut b' = shut b) \<Longrightarrow> sealed b \<Longrightarrow> sealed b'"
  by (auto simp: sealed_def core_def shut_def)

lemma dispatch_flags:
  assumes "socket_handle cfg ch p b = (r, b')"
  shows "sock_ended b' = sock_ended b \<and> closing b' = closing b"
  using assms
  by (cases rule: socket_handle_cases) (auto simp: quiet_def core_def dest!: core_service_Handle)

lemma bstep_sealed:
  assumes "sealed b" and "bstep cfg b a b'"
  shows "sealed b' \<and> (sock_ended b \<longrightarrow> sock_ended b')"
  using assms(2)
proof cases
  case (step_main ch)
  from step_main(3) show ?thesis
  proof (cases rule: main_step_cases)
    case (read r c rd pc)
    with assms(1) ReadPacket_closed [of "(sock_conn b, reader b)"] show ?thesis
      by (simp add: sealed_def)
  next
    case (dispatch p r b1 pc)
    from dispatch_flags [OF dispatch(2)] shut_socket_handle [OF _ dispatch(2)] assms(1) dispatch(3)
    show ?thesis by (auto simp: sealed_def shut_def crash_def)
  next
    case (check p)
    then show ?thesis using assms(1) by (simp add: sealed_def)
  next
    case (finish e)
    then show ?thesis using assms(1) by (simp add: sealed_def socket_End_def)
  qed
next
  case (step_open i)
  from sealed_cong [OF core_open_step [OF step_open(4)] shut_open_step [OF _ step_open(4)] assms(1)]
    core_open_step [OF step_open(4)] show ?thesis by (simp add: core_def)
next
  case (step_fwd i tick)
  from sealed_cong [OF core_fwd_step [OF step_fwd(4)] shut_fwd_step [OF _ step_fwd(4)] assms(1)]
    core_fwd_step [OF step_fwd(4)] show ?thesis by (simp add: core_def)
next
  case (step_close order)
  then show ?thesis
    using assms(1) by (simp add: sealed_def closing_step_def sm_End_def Let_def bridge_frame conn_Close_def)
qed (use assms(1) in \<open>simp add: sealed_def socket_End_def\<close>)

lemma sealed_NewSocket: "sealed (NewSocket w c)"
  by (simp add: sealed_def NewSocket_def)

section \<open>The list of connections\<close>

text \<open>
  The list holds the sockets that have been registered and whose goroutine has not cleaned up;
  \<open>pcs\<close> is where the goroutines of the sockets stand, \<open>lp\<close> where \<^verbatim>\<open>Listen\<close> stands.
\<close>

definition registered :: "socket_pc list \<Rightarrow> listen_pc \<Rightarrow> nat set" where
  "registered pcs lp = {i. i < length pcs \<and> pcs ! i \<noteq> SocketFinished \<and> lp \<noteq> ListenRegister i}"

definition spawning :: "listen_pc \<Rightarrow> nat set" where
  "spawning lp = (case lp of ListenRegister i \<Rightarrow> {i} | ListenSpawn i \<Rightarrow> {i} | _ \<Rightarrow> {})"

definition list_ok :: "nat list \<Rightarrow> bool \<Rightarrow> socket_pc list \<Rightarrow> listen_pc \<Rightarrow> bool" where
  "list_ok cs cl pcs lp \<longleftrightarrow> distinct cs \<and> set cs \<subseteq> {..< length pcs} \<and>
     (\<not> cl \<longrightarrow> set cs = registered pcs lp) \<and>
     (\<forall>i \<in> spawning lp. i < length pcs \<and> pcs ! i = SocketNew) \<and>
     (\<forall>i. lp = ListenRegister i \<longrightarrow> i \<notin> set cs)"

definition listener_ok :: "server \<Rightarrow> bool" where
  "listener_ok srv \<longleftrightarrow> (srv_closed srv \<longleftrightarrow> close_pc srv \<noteq> CloseIdle) \<and>
     (listener srv \<noteq> None \<longrightarrow> listener srv = bound srv) \<and>
     (listener srv = None \<longrightarrow> \<not> close_listener srv) \<and>
     (\<forall>l. bound srv = Some l \<longrightarrow> (l_closed l \<longleftrightarrow> close_listener srv \<and> close_pc srv = CloseReturned None)) \<and>
     (\<forall>r. close_pc srv = CloseReturned r \<longrightarrow> r = None) \<and>
     (listen_pc srv = ListenBind \<longrightarrow> listener srv = None)"

abbreviation sock_pcs :: "server \<Rightarrow> socket_pc list" where
  "sock_pcs srv \<equiv> map sock_pc (socks srv)"

definition srv_ok :: "server \<Rightarrow> bool" where
  "srv_ok srv \<longleftrightarrow> list_ok (connections srv) (srv_closed srv) (sock_pcs srv) (listen_pc srv) \<and>
     listener_ok srv"

lemma srv_ok_NewServer: "srv_ok NewServer"
  by (simp add: srv_ok_def NewServer_def list_ok_def registered_def spawning_def listener_ok_def)

lemma list_ok_accept:
  "list_ok cs cl pcs ListenAccept \<Longrightarrow> list_ok cs cl (pcs @ [SocketNew]) (ListenRegister (length pcs))"
  by (auto simp: list_ok_def registered_def spawning_def nth_append less_Suc_eq)

lemma list_ok_register:
  "list_ok cs cl pcs (ListenRegister i) \<Longrightarrow> list_ok (cs @ [i]) cl pcs (ListenSpawn i)"
  by (auto simp: list_ok_def registered_def spawning_def)

lemma list_ok_spawn:
  "list_ok cs cl pcs (ListenSpawn i) \<Longrightarrow> list_ok cs cl (pcs[i := SocketRunning]) ListenAccept"
  by (auto simp: list_ok_def registered_def spawning_def nth_upd split: if_splits)

lemma list_ok_goto:
  "list_ok cs cl pcs lp \<Longrightarrow> spawning lp = {} \<Longrightarrow> spawning lp' = {} \<Longrightarrow> list_ok cs cl pcs lp'"
  by (auto simp: list_ok_def registered_def spawning_def split: listen_pc.splits)

lemma list_ok_cleanup:
  "list_ok cs cl pcs lp \<Longrightarrow> i < length pcs \<Longrightarrow> pcs ! i = SocketRunning \<Longrightarrow>
   list_ok (if cl then cs else remove1 i cs) cl (pcs[i := SocketFinished]) lp"
  by (auto simp: list_ok_def registered_def nth_upd split: if_splits)

lemma list_ok_Close: "list_ok cs cl pcs lp \<Longrightarrow> list_ok [] True pcs lp"
  by (auto simp: list_ok_def)

lemma listen_step_ok:
  assumes "srv_ok srv" and "listen_step bind acc srv = Some srv'"
  shows "srv_ok srv'"
proof (cases "listen_pc srv")
  case ListenAccept
  with assms show ?thesis
    by (auto simp: srv_ok_def listen_step_def listener_ok_def spawning_def
        intro!: list_ok_accept [where pcs = "sock_pcs srv", simplified] elim!: list_ok_goto
        split: option.splits if_splits sum.splits)
next
  case (ListenRegister i)
  with assms show ?thesis
    by (auto simp: srv_ok_def listen_step_def listener_ok_def intro!: list_ok_register)
next
  case (ListenSpawn i)
  with assms show ?thesis
    by (auto simp: srv_ok_def listen_step_def listener_ok_def upd_sock_def map_update
        intro!: list_ok_spawn)
qed (use assms in \<open>auto simp: srv_ok_def listen_step_def listener_ok_def spawning_def
      elim!: list_ok_goto split: option.splits\<close>)

lemma cleanup_step_ok:
  assumes "srv_ok srv" and "cleanup_step i srv = Some srv'" and "i < length (socks srv)"
  shows "srv_ok srv'"
proof -
  have "list_ok (if srv_closed srv then connections srv else remove1 i (connections srv)) (srv_closed srv)
      ((sock_pcs srv)[i := SocketFinished]) (listen_pc srv)"
    using assms by (intro list_ok_cleanup) (auto simp: srv_ok_def cleanup_step_def split: if_splits)
  with assms show ?thesis
    by (auto simp: srv_ok_def cleanup_step_def listener_ok_def map_update split: if_splits)
qed

lemma sock_pcs_upd [simp]: "sock_pcs (upd_sock i (\<lambda>s. s\<lparr>sock := f s\<rparr>) srv) = sock_pcs srv"
  by (simp add: upd_sock_def map_upd_same)

lemma listener_ok_upd [simp]: "listener_ok (upd_sock i f srv) = listener_ok srv"
  by (simp add: listener_ok_def upd_sock_def)

lemma upd_sock_fields [simp]:
  "connections (upd_sock i f srv) = connections srv" "srv_closed (upd_sock i f srv) = srv_closed srv"
  "listen_pc (upd_sock i f srv) = listen_pc srv" "close_pc (upd_sock i f srv) = close_pc srv"
  by (simp_all add: upd_sock_def)

lemma sock_step_ok: "srv_ok srv \<Longrightarrow> srv_ok (upd_sock i (\<lambda>s. s\<lparr>sock := f s\<rparr>) srv)"
  by (simp add: srv_ok_def)

lemma server_Close_ok: "srv_ok srv \<Longrightarrow> srv_ok (server_Close srv)"
  by (auto simp: srv_ok_def server_Close_def listener_ok_def elim: list_ok_Close)

lemma close_step_ok:
  assumes "srv_ok srv" and "close_step srv = Some srv'"
  shows "srv_ok srv'"
proof (cases "close_pc srv")
  case (CloseEnd ids)
  with assms show ?thesis
    by (cases ids) (auto simp: close_step_def srv_ok_def listener_ok_def upd_sock_def map_upd_same
        split: if_splits)
next
  case (CloseWait i "is")
  with assms show ?thesis
    by (auto simp: close_step_def srv_ok_def listener_ok_def split: if_splits)
next
  case CloseListener
  with assms show ?thesis
    by (auto simp: close_step_def srv_ok_def listener_ok_def close_l_def split: if_splits option.splits)
qed (use assms(2) in \<open>auto simp: close_step_def\<close>)

interpretation srv_inv: invariant "sstep cfg" srv_ok for cfg
proof
  fix srv a srv' assume ok: "srv_ok srv" and "sstep cfg srv a srv'"
  from this(2) show "srv_ok srv'"
  proof cases
    case (srv_sock i a' b)
    with sock_step_ok [OF ok, of i "\<lambda>_. b"] show ?thesis by simp
  qed (use ok listen_step_ok cleanup_step_ok server_Close_ok close_step_ok in blast)+
qed

lemmas reachable_srv_ok = srv_inv.run_inv [OF _ srv_ok_NewServer]

text \<open>C10: as long as the server is not closed, its list of connections holds every registered
  socket whose goroutine is not finished exactly once, and nothing else, so that \<^verbatim>\<open>Close\<close> reaches
  all of them.\<close>

theorem server_connections_exact:
  assumes "run (sstep cfg) NewServer tr srv" and "\<not> srv_closed srv"
  shows "distinct (connections srv) \<and>
    set (connections srv) = {i. i < length (socks srv) \<and> sock_pc (socks srv ! i) \<noteq> SocketFinished \<and>
      listen_pc srv \<noteq> ListenRegister i}"
proof -
  have "list_ok (connections srv) (srv_closed srv) (sock_pcs srv) (listen_pc srv)"
    using reachable_srv_ok [OF assms(1)] by (simp add: srv_ok_def)
  with assms(2) show ?thesis by (auto simp: list_ok_def registered_def)
qed

section \<open>What Close does\<close>

definition to_end :: "close_pc \<Rightarrow> nat set" where
  "to_end pc = (case pc of CloseEnd is \<Rightarrow> set is | CloseWait _ is \<Rightarrow> set is | _ \<Rightarrow> {})"

definition closes :: "nat set \<Rightarrow> bool \<Rightarrow> server \<Rightarrow> bool" where
  "closes S l srv \<longleftrightarrow> srv_ok srv \<and> list_all (sealed \<circ> sock) (socks srv) \<and> srv_closed srv \<and>
     close_listener srv = l \<and> (\<forall>i \<in> S. i < length (socks srv) \<and>
       (sock_ended (sock (socks srv ! i)) \<or> i \<in> to_end (close_pc srv)))"

lemma sstep_sealed:
  assumes "list_all (sealed \<circ> sock) (socks srv)" and "sstep cfg srv a srv'"
  shows "list_all (sealed \<circ> sock) (socks srv')"
  unfolding list_all_length
proof (intro allI impI)
  fix j assume j: "j < length (socks srv')"
  show "(sealed \<circ> sock) (socks srv' ! j)"
  proof (cases "j < length (socks srv)")
    case True
    with assms(1) have "sealed (sock (socks srv ! j))" by (simp add: list_all_length)
    with sstep_moves [OF assms(2) True] bstep_sealed show ?thesis by (auto simp: moves_def)
  next
    case False
    with sstep_new_sock [OF assms(2) False j] sealed_NewSocket show ?thesis by auto
  qed
qed

interpretation sealed_inv: invariant "sstep cfg" "\<lambda>srv. list_all (sealed \<circ> sock) (socks srv)" for cfg
  by unfold_locales (rule sstep_sealed)

lemma sstep_closing:
  assumes "srv_closed srv" and "sstep cfg srv a srv'" and "srv_ok srv"
  shows "srv_closed srv' \<and> close_listener srv' = close_listener srv \<and>
    (\<forall>i \<in> to_end (close_pc srv). i < length (socks srv) \<longrightarrow>
       i \<in> to_end (close_pc srv') \<or> sock_ended (sock (socks srv' ! i)))"
  using assms(2)
proof cases
  case srv_listen
  then show ?thesis
    using assms(1) by (cases "listen_pc srv") (auto simp: listen_step_def upd_sock_def
        split: option.splits if_splits sum.splits prod.splits)
next
  case (srv_cleanup i)
  then show ?thesis using assms(1) by (auto simp: cleanup_step_def split: if_splits)
next
  case srv_close
  then show ?thesis
    using assms(1) by (auto simp: close_step_def to_end_def upd_sock_def nth_upd socket_End_def
        split: close_pc.splits list.splits if_splits option.splits)
qed (use assms(1) in \<open>auto simp: server_Close_def upd_sock_def\<close>)

interpretation closes_inv: invariant "sstep cfg" "closes S l" for cfg S l
proof
  fix srv a srv' assume c: "closes S l srv" and st: "sstep cfg srv a srv'"
  then have ok: "srv_ok srv" "srv_closed srv" "list_all (sealed \<circ> sock) (socks srv)"
    by (auto simp: closes_def)
  note cl = sstep_closing [OF ok(2) st ok(1)]
  have "i < length (socks srv') \<and> (sock_ended (sock (socks srv' ! i)) \<or> i \<in> to_end (close_pc srv'))"
    if "i \<in> S" for i
  proof -
    from c that have i: "i < length (socks srv)"
      "sock_ended (sock (socks srv ! i)) \<or> i \<in> to_end (close_pc srv)" by (auto simp: closes_def)
    from ok(3) i(1) have "sealed (sock (socks srv ! i))" by (simp add: list_all_length)
    with sstep_moves [OF st i(1)] bstep_sealed have
      "sock_ended (sock (socks srv ! i)) \<longrightarrow> sock_ended (sock (socks srv' ! i))"
      by (auto simp: moves_def)
    with i cl sstep_moves [OF st i(1)] show ?thesis by blast
  qed
  with c cl ok st show "closes S l srv'"
    using srv_inv.preserved sstep_sealed unfolding closes_def by blast
qed

text \<open>C11: once \<^verbatim>\<open>Close\<close> has returned, every socket that was registered when it was called has
  ended: it handles no packet and writes nothing to its client any more, and its client's
  connection is closed unless the socket's own goroutine is just closing it. If the listener
  was stored when \<^verbatim>\<open>Close\<close> was called, \<^verbatim>\<open>Close\<close> reports no error and the listener is closed, so that
  \<^verbatim>\<open>Listen\<close> gets an error from its next \<^verbatim>\<open>Accept\<close> and returns nil.\<close>

theorem Close_ends_registered_sockets:
  assumes "run (sstep cfg) NewServer tr0 srv0" and "\<not> srv_closed srv0"
    and "run (sstep cfg) (server_Close srv0) tr srv" and "close_pc srv = CloseReturned r"
  shows "(\<forall>i \<in> set (connections srv0). sock_ended (sock (socks srv ! i)) \<and>
       (closing (sock (socks srv ! i)) \<or> isclosed (sock_conn (sock (socks srv ! i))))) \<and>
     r = None \<and>
     (listener srv0 \<noteq> None \<longrightarrow> (\<exists>l. bound srv = Some l \<and> l_closed l) \<and>
        (listen_pc srv = ListenAccept \<longrightarrow> (\<forall>bind acc. listen_step bind acc srv = Some (srv\<lparr>listen_pc := ListenFailed\<rparr>))) \<and>
        (listen_pc srv = ListenFailed \<longrightarrow> (\<forall>bind acc. listen_step bind acc srv = Some (srv\<lparr>listen_pc := ListenReturned None\<rparr>))))"
proof -
  have ok0: "srv_ok srv0" using reachable_srv_ok [OF assms(1)] .
  have "list_all (sealed \<circ> sock) (socks srv0)"
    using sealed_inv.run_inv [OF assms(1)] by (simp add: NewServer_def)
  moreover have "set (connections srv0) \<subseteq> {..< length (socks srv0)}"
    using ok0 by (simp add: srv_ok_def list_ok_def)
  ultimately have "closes (set (connections srv0)) (listener srv0 \<noteq> None) (server_Close srv0)"
    using assms(2) server_Close_ok [OF ok0] by (auto simp: closes_def server_Close_def to_end_def)
  from closes_inv.run_inv [OF assms(3) this]
  have c: "closes (set (connections srv0)) (listener srv0 \<noteq> None) srv" .
  then have ended: "i < length (socks srv) \<and> sock_ended (sock (socks srv ! i))"
    if "i \<in> set (connections srv0)" for i
    using that assms(4) by (auto simp: closes_def to_end_def)
  moreover have "sealed (sock (socks srv ! i))" if "i \<in> set (connections srv0)" for i
    using c ended [OF that] by (simp add: closes_def list_all_length)
  moreover have "listener_ok srv" "srv_closed srv" "close_listener srv \<longleftrightarrow> listener srv0 \<noteq> None"
    using c by (auto simp: closes_def srv_ok_def)
  ultimately show ?thesis
    using assms(4) by (cases "bound srv") (auto simp: sealed_def listener_ok_def listen_step_def)
qed

section \<open>Concrete runs\<close>

text \<open>
  Moves of a schedule, for evaluating runs: a step of \<^verbatim>\<open>Listen\<close>, a call of \<^verbatim>\<open>Close\<close>, a step of
  \<^verbatim>\<open>Close\<close>, and the second part of \<^verbatim>\<open>Socket.End\<close> for a socket without services.
\<close>

datatype srv_move = MoveListen "go_error + (world \<times> conn)" | MoveCall | MoveClose | MoveCloser nat

definition srv_exec_move :: "srv_move \<Rightarrow> server \<Rightarrow> server option" where
  "srv_exec_move m srv =
     (if \<not> alive srv then None
      else case m of
        MoveListen acc \<Rightarrow> listen_step None acc srv
      | MoveCall \<Rightarrow> Some (server_Close srv)
      | MoveClose \<Rightarrow> close_step srv
      | MoveCloser i \<Rightarrow>
          if i < length (socks srv) \<and> closing (sock (socks srv ! i)) \<and>
             service_table (sock (socks srv ! i)) = NewServiceMap
          then Some (upd_sock i (\<lambda>s. s\<lparr>sock := closing_step [] (sock (socks srv ! i))\<rparr>) srv) else None)"

fun srv_exec :: "srv_move list \<Rightarrow> server \<Rightarrow> server option" where
  "srv_exec [] srv = Some srv"
| "srv_exec (m # ms) srv = (case srv_exec_move m srv of None \<Rightarrow> None | Some srv' \<Rightarrow> srv_exec ms srv')"

lemma srv_exec_move_step:
  assumes "srv_exec_move m srv = Some srv'"
  shows "\<exists>a. sstep cfg srv a srv'"
proof (cases m)
  case (MoveCloser i)
  with assms have i: "alive srv" "i < length (socks srv)" "closing (sock (socks srv ! i))"
    "service_table (sock (socks srv ! i)) = NewServiceMap"
    "srv' = upd_sock i (\<lambda>s. s\<lparr>sock := closing_step [] (sock (socks srv ! i))\<rparr>) srv"
    by (auto simp: srv_exec_move_def split: if_splits)
  have "bstep cfg (sock (socks srv ! i)) Closer (closing_step [] (sock (socks srv ! i)))"
    using i by (intro step_close) (simp_all add: alive_nth NewServiceMap_def)
  with i srv_sock [of srv i cfg Closer] show ?thesis by blast
qed (use assms in \<open>auto simp: srv_exec_move_def split: if_splits intro: sstep.intros\<close>)

lemma srv_exec_run: "srv_exec ms srv = Some srv' \<Longrightarrow> \<exists>tr. run (sstep cfg) srv tr srv'"
proof (induction ms arbitrary: srv)
  case Nil
  then show ?case by (auto intro: run_Nil)
next
  case (Cons m ms)
  then obtain s1 where "srv_exec_move m srv = Some s1" "srv_exec ms s1 = Some srv'"
    by (auto split: option.splits)
  with srv_exec_move_step Cons.IH obtain a tr where "sstep cfg srv a s1" "run (sstep cfg) s1 tr srv'"
    by blast
  then have "run (sstep cfg) srv ([(srv, a, s1)] @ tr) srv'"
    using run_append [OF _ run_snoc [OF run_Nil]] by fastforce
  then show ?case by blast
qed

definition demo_client :: "world \<times> conn" where
  "demo_client = (new_world [], new_conn [] EOF)"

definition serving :: server where
  "serving = \<lparr>listener = Some \<lparr>l_closed = False\<rparr>, connections = [0], srv_closed = False,
     bound = Some \<lparr>l_closed = False\<rparr>,
     socks = [\<lparr>sock = NewSocket (new_world []) (new_conn [] EOF), sock_pc = SocketRunning\<rparr>],
     listen_pc = ListenAccept, close_pc = CloseIdle, close_listener = False\<rparr>"

lemmas srv_eval = srv_exec_move_def alive_def listen_step_def close_step_def server_Close_def
  upd_sock_def NewServer_def serving_def demo_client_def socket_End_def closing_step_def sm_End_def
  NewSocket_def close_l_def

lemma serving_run: "\<exists>tr. run (sstep cfg) NewServer tr serving"
  by (rule srv_exec_run [of "replicate 5 (MoveListen (Inr demo_client))"])
    (simp add: srv_eval numeral_eq_Suc)

definition closed_server :: server where
  "closed_server = the (srv_exec [MoveClose, MoveCloser 0, MoveClose, MoveClose, MoveClose] (server_Close serving))"

lemma closed_server_run: "\<exists>tr. run (sstep cfg) (server_Close serving) tr closed_server"
  by (rule srv_exec_run [of "[MoveClose, MoveCloser 0, MoveClose, MoveClose, MoveClose]"])
    (simp add: closed_server_def srv_eval)

lemma closed_server_pc: "close_pc closed_server = CloseReturned None"
  by (simp add: closed_server_def srv_eval)

theorem server_connections_exact_witness:
  "set (connections serving) = {i. i < length (socks serving) \<and> sock_pc (socks serving ! i) \<noteq> SocketFinished \<and>
      listen_pc serving \<noteq> ListenRegister i} \<and> connections serving = [0]"
proof -
  obtain tr where tr: "run (sstep demo_cfg) NewServer tr serving" using serving_run by blast
  from server_connections_exact [OF this] show ?thesis by (simp add: serving_def)
qed

theorem Close_ends_registered_sockets_witness:
  "sock_ended (sock (socks closed_server ! 0)) \<and> isclosed (sock_conn (sock (socks closed_server ! 0))) \<and>
   (\<exists>l. bound closed_server = Some l \<and> l_closed l)"
proof -
  obtain tr where tr: "run (sstep demo_cfg) NewServer tr serving" using serving_run by blast
  obtain tr2 where tr2: "run (sstep demo_cfg) (server_Close serving) tr2 closed_server"
    using closed_server_run by blast
  have "\<not> srv_closed serving" "0 \<in> set (connections serving)" "listener serving \<noteq> None"
    by (simp_all add: serving_def)
  moreover have "\<not> closing (sock (socks closed_server ! 0))"
    by (simp add: closed_server_def srv_eval)
  ultimately show ?thesis
    using Close_ends_registered_sockets [OF tr _ tr2 closed_server_pc] by blast
qed

section \<open>Connections that Close misses\<close>

text \<open>
  A server whose listener is open although \<^verbatim>\<open>Close\<close> has returned: nothing closes it later.
\<close>

definition missed :: "server \<Rightarrow> bool" where
  "missed srv \<longleftrightarrow> srv_closed srv \<and> close_pc srv = CloseReturned None \<and> bound srv = Some \<lparr>l_closed = False\<rparr> \<and>
     listen_pc srv \<noteq> ListenBind"

interpretation missed_inv: invariant "sstep cfg" missed for cfg
proof
  fix srv a srv' assume m: "missed srv" and "sstep cfg srv a srv'"
  from this(2) show "missed srv'"
  proof cases
    case srv_listen
    with m show ?thesis
      by (cases "listen_pc srv") (auto simp: missed_def listen_step_def upd_sock_def
          split: option.splits sum.splits if_splits)
  next
    case (srv_cleanup i)
    with m show ?thesis by (auto simp: missed_def cleanup_step_def split: if_splits)
  qed (use m in \<open>auto simp: missed_def server_Close_def close_step_def upd_sock_def\<close>)
qed

text \<open>C34: \<^verbatim>\<open>Close\<close> can miss a connection or the whole listener. Called before \<^verbatim>\<open>Listen\<close> has stored its
  listener, it returns nil, and whatever happens afterwards, further calls of \<^verbatim>\<open>Close\<close> included,
  the listener stays open; the server accepts and serves clients. Called while \<^verbatim>\<open>Listen\<close> is
  between \<^verbatim>\<open>Accept\<close> and the registration of a socket, it returns nil and that socket is started
  and served, not ended.\<close>

theorem Close_misses_connections:
  "(\<exists>srv tr. run (sstep cfg) NewServer tr srv \<and> close_pc srv = CloseReturned None \<and>
      (\<forall>srv' tr'. run (sstep cfg) srv tr' srv' \<longrightarrow> bound srv' = Some \<lparr>l_closed = False\<rparr>) \<and>
      (\<exists>srv' tr'. run (sstep cfg) srv tr' srv' \<and> sock_pc (socks srv' ! 0) = SocketRunning \<and>
         \<not> sock_ended (sock (socks srv' ! 0)))) \<and>
   (\<exists>srv tr. run (sstep cfg) NewServer tr srv \<and> close_pc srv = CloseReturned None \<and>
      listener srv = Some \<lparr>l_closed = True\<rparr> \<and> sock_pc (socks srv ! 0) = SocketRunning \<and>
      \<not> sock_ended (sock (socks srv ! 0)))"
proof
  let ?open = "replicate 5 (MoveListen (Inr demo_client))"
  let ?ms = "[MoveCall, MoveClose, MoveClose, MoveListen (Inr demo_client)]"
  define srv where "srv = the (srv_exec ?ms NewServer)"
  have e: "srv_exec ?ms NewServer = Some srv" by (simp add: srv_def srv_eval)
  have m: "missed srv" by (simp add: srv_def srv_eval missed_def)
  define srv' where "srv' = the (srv_exec (replicate 4 (MoveListen (Inr demo_client))) srv)"
  have e': "srv_exec (replicate 4 (MoveListen (Inr demo_client))) srv = Some srv'"
    by (simp add: srv'_def srv_def srv_eval numeral_eq_Suc)
  have s': "sock_pc (socks srv' ! 0) = SocketRunning" "\<not> sock_ended (sock (socks srv' ! 0))"
    by (simp_all add: srv'_def srv_def srv_eval numeral_eq_Suc)
  have "bound s = Some \<lparr>l_closed = False\<rparr>" if "run (sstep cfg) srv tr' s" for tr' s
    using missed_inv.run_inv [OF that m] by (simp add: missed_def)
  moreover obtain tr where "run (sstep cfg) NewServer tr srv" using srv_exec_run [OF e] by blast
  moreover obtain tr' where "run (sstep cfg) srv tr' srv'" using srv_exec_run [OF e'] by blast
  ultimately show "\<exists>srv tr. run (sstep cfg) NewServer tr srv \<and> close_pc srv = CloseReturned None \<and>
      (\<forall>srv' tr'. run (sstep cfg) srv tr' srv' \<longrightarrow> bound srv' = Some \<lparr>l_closed = False\<rparr>) \<and>
      (\<exists>srv' tr'. run (sstep cfg) srv tr' srv' \<and> sock_pc (socks srv' ! 0) = SocketRunning \<and>
         \<not> sock_ended (sock (socks srv' ! 0)))"
    using s' m unfolding missed_def by blast
next
  let ?l = "MoveListen (Inr demo_client)"
  let ?ms = "[?l, ?l, ?l, MoveCall, MoveClose, MoveClose, ?l, ?l]"
  define srv where "srv = the (srv_exec ?ms NewServer)"
  have "srv_exec ?ms NewServer = Some srv" by (simp add: srv_def srv_eval)
  then obtain tr where "run (sstep cfg) NewServer tr srv" using srv_exec_run by blast
  moreover have "close_pc srv = CloseReturned None" "listener srv = Some \<lparr>l_closed = True\<rparr>"
    "sock_pc (socks srv ! 0) = SocketRunning" "\<not> sock_ended (sock (socks srv ! 0))"
    by (simp_all add: srv_def srv_eval)
  ultimately show "\<exists>srv tr. run (sstep cfg) NewServer tr srv \<and> close_pc srv = CloseReturned None \<and>
      listener srv = Some \<lparr>l_closed = True\<rparr> \<and> sock_pc (socks srv ! 0) = SocketRunning \<and>
      \<not> sock_ended (sock (socks srv ! 0))" by blast
qed

theorem Close_misses_connections_witness:
  "\<exists>srv tr. run (sstep demo_cfg) NewServer tr srv \<and> close_pc srv = CloseReturned None \<and>
     bound srv = Some \<lparr>l_closed = False\<rparr>"
proof -
  from Close_misses_connections [of demo_cfg] obtain srv tr where
    "run (sstep demo_cfg) NewServer tr srv" "close_pc srv = CloseReturned None"
    "\<forall>srv' tr'. run (sstep demo_cfg) srv tr' srv' \<longrightarrow> bound srv' = Some \<lparr>l_closed = False\<rparr>" by blast
  then show ?thesis using run_Nil [of "sstep demo_cfg" srv] by blast
qed

end
