(* ===== verification/Sync.thy ===== *)
theory Sync
  imports Client
begin

text \<open>
  The file transfer service, \<^verbatim>\<open>adb/sync.go\<close>, \<^verbatim>\<open>adb/file_operations.go\<close> and the device methods of
  \<^verbatim>\<open>adb/device_file.go\<close> built on it. A \<^verbatim>\<open>SyncService\<close> is the connection it holds; its methods
  are programs on that connection. The body of each \<^verbatim>\<open>for\<close> loop is a definition of its own,
  which returns \<open>Inl\<close> to go round again and \<open>Inr\<close> to leave the loop.
\<close>

section \<open>Requests\<close>

definition SYNC_STAT :: string where "SYNC_STAT = ''STAT''"
definition SYNC_LIST :: string where "SYNC_LIST = ''LIST''"
definition SYNC_SEND :: string where "SYNC_SEND = ''SEND''"
definition SYNC_RECV :: string where "SYNC_RECV = ''RECV''"
definition SYNC_DENT :: string where "SYNC_DENT = ''DENT''"
definition SYNC_DONE :: string where "SYNC_DONE = ''DONE''"
definition SYNC_DATA :: string where "SYNC_DATA = ''DATA''"
definition SYNC_OKAY :: string where "SYNC_OKAY = ''OKAY''"
definition SYNC_FAIL :: string where "SYNC_FAIL = ''FAIL''"

lemmas sync_words = SYNC_STAT_def SYNC_LIST_def SYNC_SEND_def SYNC_RECV_def SYNC_DENT_def
  SYNC_DONE_def SYNC_DATA_def SYNC_OKAY_def SYNC_FAIL_def

definition DEFAULT_CHMOD :: u32 where "DEFAULT_CHMOD = 0x1A4"
definition DATA_MAX_LENGTH :: nat where "DATA_MAX_LENGTH = 65536"

definition sendCommandWithLength :: "string \<Rightarrow> u32 \<Rightarrow> (conn, unit) prog" where
  "sendCommandWithLength cmd len =
     andThen (conn_Write (bytes_of cmd @ put32 len)) (\<lambda>_. ret ())"

definition sendCommandWithArg :: "string \<Rightarrow> string \<Rightarrow> (conn, unit) prog" where
  "sendCommandWithArg cmd arg =
     andThen (conn_Write (bytes_of cmd @ put32 (of_nat (length arg)) @ bytes_of arg)) (\<lambda>_. ret ())"

definition readAscii :: "nat \<Rightarrow> (conn, string) prog" where
  "readAscii n = andThen (ReadFull n) (\<lambda>data. ret (string_of data))"

definition readBytes :: "nat \<Rightarrow> (conn, bytes) prog" where
  "readBytes n = ReadFull n"

text \<open>
  A block: four bytes of length, then that many bytes. \<^verbatim>\<open>readData\<close> and \<^verbatim>\<open>readError\<close> both
  read one.
\<close>

definition read_block :: "(conn, bytes) prog" where
  "read_block = andThen (readBytes 4) (\<lambda>lengthData. readBytes (unat (get32 lengthData)))"

definition readError :: "(conn, 'a) prog" where
  "readError = andThen read_block (\<lambda>msgData. fail (Errorf (string_of msgData)))"

section \<open>Stat and Readdir\<close>

record sync_stat_entry =
  st_Mode :: u32
  st_Size :: u32
  st_Time :: u32
  st_ModeStr :: string

record dir_entry =
  Name :: string
  de_Mode :: u32
  de_Size :: u32
  de_Mtime :: u32

definition unexpected_reply :: "string \<Rightarrow> string \<Rightarrow> go_error" where
  "unexpected_reply reply expected = Errorf (''unexpected reply: '' @ reply @ '', expected '' @ expected)"

definition sync_Stat :: "string \<Rightarrow> (conn, sync_stat_entry) prog" where
  "sync_Stat filePath =
     andThen (sendCommandWithArg SYNC_STAT filePath) (\<lambda>_.
     andThen (readAscii 4) (\<lambda>reply.
       if reply = SYNC_STAT
       then andThen (readBytes 12) (\<lambda>stat.
              let mode = get32 stat; size = get32 (drop 4 stat); mtime = get32 (drop 8 stat) in
              if mode = 0
              then fail (Errorf (''ENOENT, no such file or directory '' @ [CHR 0x27] @ filePath @ [CHR 0x27]))
              else ret \<lparr>st_Mode = mode, st_Size = size, st_Time = mtime, st_ModeStr = ''''\<rparr>)
       else if reply = SYNC_FAIL then readError
       else fail (unexpected_reply reply
         ([CHR 0x27] @ ''STAT'' @ [CHR 0x27] @ '' or '' @ [CHR 0x27] @ ''FAIL'' @ [CHR 0x27]))))"

definition readdir_step :: "dir_entry list \<Rightarrow> (conn, dir_entry list + dir_entry list) prog" where
  "readdir_step files =
     andThen (readAscii 4) (\<lambda>reply.
       if reply = SYNC_DENT
       then andThen (readBytes 16) (\<lambda>stat.
              let mode = get32 stat; size = get32 (drop 4 stat); mtime = get32 (drop 8 stat);
                  namelen = get32 (drop 12 stat) in
              andThen (readBytes (unat namelen)) (\<lambda>nameData.
                let name = string_of nameData in
                ret (Inl (if name \<noteq> ''.'' \<and> name \<noteq> ''..''
                  then files @ [\<lparr>Name = name, de_Mode = mode, de_Size = size, de_Mtime = mtime\<rparr>]
                  else files))))
       else if reply = SYNC_DONE then andThen (readBytes 16) (\<lambda>_. ret (Inr files))
       else if reply = SYNC_FAIL then readError
       else fail (unexpected_reply reply ([CHR 0x27] @ ''DENT'' @ [CHR 0x27] @ '', '' @
         [CHR 0x27] @ ''DONE'' @ [CHR 0x27] @ '' or '' @ [CHR 0x27] @ ''FAIL'' @ [CHR 0x27])))"

lemma keeps_reads [measure_intros]:
  "keeps in_len (readBytes n)" "keeps in_len (readAscii n)" "keeps in_len read_block"
  "keeps in_len readError"
  by (auto simp: readBytes_def readAscii_def read_block_def readError_def intro!: measure_intros)

lemma uses_readAscii [measure_intros]: "uses in_len (readAscii 4)"
  by (auto simp: readAscii_def intro!: measure_intros uses_ReadFull)

lemma uses_readdir_step: "uses in_len (readdir_step files)"
  by (auto simp: readdir_step_def Let_def intro!: measure_intros)

function readdir_loop :: "dir_entry list \<Rightarrow> (conn, dir_entry list) prog" where
  "readdir_loop files c = (case readdir_step files c of
       (Ok (Inl files'), c') \<Rightarrow> readdir_loop files' c'
     | (Ok (Inr files'), c') \<Rightarrow> (Ok files', c')
     | (Err e, c') \<Rightarrow> (Err e, c')
     | (Panic p, c') \<Rightarrow> (Panic p, c'))"
  by pat_completeness auto
termination
  by (relation "measure (\<lambda>(files, c). in_len c)")
    (auto intro: usesD [OF uses_readdir_step] dest: sym)

declare readdir_loop.simps [simp del]

definition sync_Readdir :: "string \<Rightarrow> (conn, dir_entry list) prog" where
  "sync_Readdir dirPath =
     andThen (sendCommandWithArg SYNC_LIST dirPath) (\<lambda>_. readdir_loop [])"

section \<open>Push\<close>

record sync_push_options =
  po_Mode :: u32
  po_Mtime :: int

definition readFinalReply :: "(conn, unit) prog" where
  "readFinalReply =
     andThen (readAscii 4) (\<lambda>reply.
       if reply = SYNC_OKAY then andThen (readBytes 4) (\<lambda>_. ret ())
       else if reply = SYNC_FAIL then readError
       else fail (unexpected_reply reply ([CHR 0x27] @ ''OKAY'' @ [CHR 0x27] @ '' or '' @
         [CHR 0x27] @ ''FAIL'' @ [CHR 0x27])))"

function write_chunks :: "bytes \<Rightarrow> nat \<Rightarrow> (conn, unit) prog" where
  "write_chunks data offset c =
     (if offset < length data
      then let chunkSize = (if offset + DATA_MAX_LENGTH > length data
                            then length data - offset else DATA_MAX_LENGTH);
               chunk = take chunkSize (drop offset data)
           in andThen (sendCommandWithLength SYNC_DATA (of_nat (length chunk))) (\<lambda>_.
              andThen (conn_Write chunk) (\<lambda>_.
              write_chunks data (offset + chunkSize))) c
      else (Ok (), c))"
  by pat_completeness auto
termination
  by (relation "measure (\<lambda>(data, offset, c). length data - offset)")
    (auto simp: DATA_MAX_LENGTH_def)

declare write_chunks.simps [simp del]

definition writeData :: "bytes \<Rightarrow> u32 \<Rightarrow> (conn, unit) prog" where
  "writeData data timestamp =
     andThen (write_chunks data 0) (\<lambda>_.
     andThen (sendCommandWithLength SYNC_DONE timestamp) (\<lambda>_.
     readFinalReply))"

definition push_arg :: "string \<Rightarrow> sync_push_options \<Rightarrow> string" where
  "push_arg filePath opts =
     (let m = (if po_Mode opts = 0 then DEFAULT_CHMOD else po_Mode opts);
          mode = m OR 0x8000
      in filePath @ '','' @ dec (unat mode))"

definition PushContent :: "bytes \<Rightarrow> string \<Rightarrow> sync_push_options \<Rightarrow> (conn, unit) prog" where
  "PushContent data filePath opts =
     andThen (sendCommandWithArg SYNC_SEND (push_arg filePath opts)) (\<lambda>_.
     writeData data (of_int (po_Mtime opts)))"

text \<open>\<open>content\<close> is what \<^verbatim>\<open>io.ReadAll(reader)\<close> returns for the stream being pushed.\<close>

definition sync_Push :: "go_error + bytes \<Rightarrow> string \<Rightarrow> sync_push_options \<Rightarrow> (conn, unit) prog" where
  "sync_Push content filePath opts =
     andThen (sendCommandWithArg SYNC_SEND (push_arg filePath opts)) (\<lambda>_.
     case content of
       Inl err \<Rightarrow> fail err
     | Inr data \<Rightarrow> writeData data (of_int (po_Mtime opts)))"

section \<open>Pull\<close>

text \<open>
  \<^verbatim>\<open>readData(writer)\<close> runs on the connection and the writer's state; \<open>wr\<close> is the writer's
  \<^verbatim>\<open>Write\<close>.
\<close>

definition read_data_step :: "(bytes \<Rightarrow> ('w, nat) prog) \<Rightarrow> (conn \<times> 'w, unit + unit) prog" where
  "read_data_step wr =
     andThen (on_first (readAscii 4)) (\<lambda>reply.
       if reply = SYNC_DATA
       then andThen (on_first read_block) (\<lambda>data.
            andThen (on_second (wr data)) (\<lambda>_. ret (Inl ())))
       else if reply = SYNC_DONE then andThen (on_first (readBytes 4)) (\<lambda>_. ret (Inr ()))
       else if reply = SYNC_FAIL then on_first readError
       else fail (unexpected_reply reply ([CHR 0x27] @ ''DATA'' @ [CHR 0x27] @ '', '' @
         [CHR 0x27] @ ''DONE'' @ [CHR 0x27] @ '' or '' @ [CHR 0x27] @ ''FAIL'' @ [CHR 0x27])))"

lemma uses_read_data_step: "uses (\<lambda>s. in_len (fst s)) (read_data_step wr)"
  by (auto simp: read_data_step_def intro!: measure_intros)

function readData :: "(bytes \<Rightarrow> ('w, nat) prog) \<Rightarrow> (conn \<times> 'w, unit) prog" where
  "readData wr s = (case read_data_step wr s of
       (Ok (Inl _), s') \<Rightarrow> readData wr s'
     | (Ok (Inr _), s') \<Rightarrow> (Ok (), s')
     | (Err e, s') \<Rightarrow> (Err e, s')
     | (Panic p, s') \<Rightarrow> (Panic p, s'))"
  by pat_completeness auto
termination
  by (relation "measure (\<lambda>(wr, s). in_len (fst s))")
    (auto dest!: sym usesD [OF uses_read_data_step])

declare readData.simps [simp del]

text \<open>
  \<^verbatim>\<open>Pull\<close> sends the request and starts a goroutine that runs \<^verbatim>\<open>readData\<close> into a pipe; the
  caller reads the other end. \<open>sync_Pull\<close> is the request followed by that goroutine's whole
  run: the bytes it put into the pipe and the error it closed the pipe with, \<open>None\<close> when it
  closed it normally. A pipe whose reader keeps reading accepts every write.
\<close>

definition pipe_Write :: "bytes \<Rightarrow> (bytes, nat) prog" where
  "pipe_Write p b = (Ok (length p), b @ p)"

definition pull_goroutine :: "(conn, bytes \<times> go_error option) prog" where
  "pull_goroutine c = (case readData pipe_Write (c, []) of
         (Ok _, (c', b)) \<Rightarrow> (Ok (b, None), c')
       | (Err e, (c', b)) \<Rightarrow> (Ok (b, Some e), c')
       | (Panic p, (c', b)) \<Rightarrow> (Panic p, c'))"

definition sync_Pull :: "string \<Rightarrow> (conn, bytes \<times> go_error option) prog" where
  "sync_Pull filePath =
     andThen (sendCommandWithArg SYNC_RECV filePath) (\<lambda>_. pull_goroutine)"

text \<open>
  Reading the pipe to its end with \<^verbatim>\<open>io.ReadAll\<close>: an end-of-file error put into the pipe
  with \<^verbatim>\<open>CloseWithError\<close> is the normal end of the stream for the reader.
\<close>

definition pipe_ReadAll :: "bytes \<times> go_error option \<Rightarrow> ('s, bytes) prog" where
  "pipe_ReadAll p = (case p of
       (b, None) \<Rightarrow> ret b
     | (b, Some e) \<Rightarrow> if e = EOF then ret b else fail e)"

definition sync_ReadFile :: "string \<Rightarrow> (conn, bytes) prog" where
  "sync_ReadFile filePath = andThen (sync_Pull filePath) pipe_ReadAll"

section \<open>Device methods\<close>

definition NewSyncService :: "device \<Rightarrow> (world, nat) prog" where
  "NewSyncService d = openTransportConnection d ''sync:''"

definition device_Stat :: "device \<Rightarrow> string \<Rightarrow> (world, sync_stat_entry) prog" where
  "device_Stat d path =
     andThen (NewSyncService d) (\<lambda>s. deferring (close_conn s) (on_conn s (sync_Stat path)))"

definition device_Readdir :: "device \<Rightarrow> string \<Rightarrow> (world, string list) prog" where
  "device_Readdir d path =
     andThen (NewSyncService d) (\<lambda>s. deferring (close_conn s)
       (andThen (on_conn s (sync_Readdir path)) (\<lambda>entries. ret (map Name entries))))"

definition device_Pull :: "device \<Rightarrow> string \<Rightarrow> (world, bytes \<times> go_error option) prog" where
  "device_Pull d path = andThen (NewSyncService d) (\<lambda>s. on_conn s (sync_Pull path))"

definition device_Push :: "device \<Rightarrow> go_error + bytes \<Rightarrow> string \<Rightarrow> u32 \<Rightarrow> (world, unit) prog" where
  "device_Push d content path mode =
     andThen (NewSyncService d) (\<lambda>s. deferring (close_conn s)
       (on_conn s (sync_Push content path \<lparr>po_Mode = mode, po_Mtime = 0\<rparr>)))"

definition device_ReadFile :: "device \<Rightarrow> string \<Rightarrow> (world, bytes) prog" where
  "device_ReadFile d path =
     andThen (NewSyncService d) (\<lambda>s. deferring (close_conn s) (on_conn s (sync_ReadFile path)))"

section \<open>Blocks and data frames\<close>

definition le_block :: "bytes \<Rightarrow> bytes" where
  "le_block d = put32 (of_nat (length d)) @ d"

lemma read_block_le_block:
  assumes "length d < 2 ^ 32" and "\<not> isclosed c" and "pending c = le_block d @ rest"
  shows "read_block c = (Ok d, advance (length (le_block d)) c)"
proof -
  have "ReadFull 4 c = (Ok (put32 (of_nat (length d))), advance 4 c)"
    using assms by (simp add: le_block_def)
  moreover have "ReadFull (length d) (advance 4 c) = (Ok d, advance (length d) (advance 4 c))"
    using assms by (simp add: le_block_def)
  ultimately show ?thesis
    using assms(1) by (simp add: read_block_def readBytes_def le_block_def)
qed

interpretation le_blocks: frame_format le_block read_block "\<lambda>d. length d < 2 ^ 32"
  pending conn_ready conn_fresh
proof unfold_locales
  fix x :: bytes and s :: conn and rest
  assume "length x < 2 ^ 32" and "\<not> isclosed s" and "pending s = le_block x @ rest"
  with read_block_le_block show
    "\<exists>s'. read_block s = (Ok x, s') \<and> \<not> isclosed s' \<and> pending s' = rest" by auto
qed (simp_all add: le_block_def put32_def)

lemma length_le_block [simp]: "length (le_block d) = 4 + length d"
  by (simp add: le_block_def)

lemma readAscii_word:
  "\<not> isclosed c \<Longrightarrow> length w = n \<Longrightarrow> pending c = bytes_of w @ rest \<Longrightarrow>
   readAscii n c = (Ok w, advance n c)"
  by (simp add: readAscii_def ret_def)

definition data_frame :: "bytes \<Rightarrow> bytes" where
  "data_frame d = bytes_of SYNC_DATA @ le_block d"

lemma length_data_frame [simp]: "length (data_frame d) = 8 + length d"
  by (simp add: data_frame_def SYNC_DATA_def)

lemma sendCommandWithLength_Ok [simp]:
  "\<not> isclosed c \<Longrightarrow> room c = None \<Longrightarrow>
   sendCommandWithLength cmd n c = (Ok (), c\<lparr>outgoing := outgoing c @ bytes_of cmd @ put32 n\<rparr>)"
  by (simp add: sendCommandWithLength_def ret_def)

lemma sendCommandWithArg_Ok [simp]:
  "\<not> isclosed c \<Longrightarrow> room c = None \<Longrightarrow>
   sendCommandWithArg cmd arg c =
     (Ok (), c\<lparr>outgoing := outgoing c @ bytes_of cmd @ le_block (bytes_of arg)\<rparr>)"
  by (simp add: sendCommandWithArg_def ret_def le_block_def)

lemma write_chunks_frames:
  assumes "\<not> isclosed c" and "room c = None"
  shows "write_chunks data offset c = (Ok (), c\<lparr>outgoing :=
    outgoing c @ concat (map data_frame (chunks DATA_MAX_LENGTH (drop offset data)))\<rparr>)"
  using assms
proof (induction data offset c rule: write_chunks.induct)
  case (1 data offset c)
  show ?case
  proof (cases "offset < length data")
    case False
    then show ?thesis by (simp add: write_chunks.simps [of data offset c])
  next
    case True
    define sz where "sz = (if offset + DATA_MAX_LENGTH > length data
      then length data - offset else DATA_MAX_LENGTH)"
    define chunk where "chunk = take sz (drop offset data)"
    define c1 where "c1 = c\<lparr>outgoing := outgoing c @ bytes_of SYNC_DATA @ put32 (of_nat (length chunk))\<rparr>"
    define c2 where "c2 = c1\<lparr>outgoing := outgoing c1 @ chunk\<rparr>"
    have ch: "chunk = take DATA_MAX_LENGTH (drop offset data)"
      by (auto simp: chunk_def sz_def)
    have dr: "drop (offset + sz) data = drop DATA_MAX_LENGTH (drop offset data)"
      by (auto simp: sz_def add.commute)
    have c1: "sendCommandWithLength SYNC_DATA (of_nat (length chunk)) c = (Ok (), c1)"
      using "1.prems" by (simp add: c1_def)
    have c2: "conn_Write chunk c1 = (Ok (length chunk), c2)"
      using "1.prems" by (simp add: c1_def c2_def)
    have "write_chunks data offset c =
        andThen (sendCommandWithLength SYNC_DATA (of_nat (length chunk))) (\<lambda>_.
        andThen (conn_Write chunk) (\<lambda>_. write_chunks data (offset + sz))) c"
      unfolding sz_def chunk_def
      by (subst write_chunks.simps) (simp only: Let_def True if_True)
    then have "write_chunks data offset c = write_chunks data (offset + sz) c2"
      using c1 c2 by simp
    also have "\<dots> = (Ok (), c2\<lparr>outgoing := outgoing c2 @
        concat (map data_frame (chunks DATA_MAX_LENGTH (drop (offset + sz) data)))\<rparr>)"
      using "1.IH" [OF True sz_def chunk_def c1 c2] "1.prems" by (simp add: c1_def c2_def)
    finally have run: "write_chunks data offset c = (Ok (), c2\<lparr>outgoing := outgoing c2 @
        concat (map data_frame (chunks DATA_MAX_LENGTH (drop (offset + sz) data)))\<rparr>)" .
    have "chunks DATA_MAX_LENGTH (drop offset data) =
        chunk # chunks DATA_MAX_LENGTH (drop (offset + sz) data)"
      using True ch dr
      by (simp add: DATA_MAX_LENGTH_def chunks.simps [of 65536 "drop offset data"])
    moreover have "outgoing c2 = outgoing c @ data_frame chunk"
      by (simp add: c1_def c2_def data_frame_def le_block_def)
    ultimately show ?thesis using run by (simp add: c1_def c2_def)
  qed
qed

definition file_stream :: "bytes list \<Rightarrow> u32 \<Rightarrow> bytes" where
  "file_stream cs t = concat (map data_frame cs) @ bytes_of SYNC_DONE @ put32 t"

lemma readFinalReply_OKAY:
  assumes "\<not> isclosed c" and "pending c = bytes_of SYNC_OKAY @ r @ rest" and "length r = 4"
  shows "readFinalReply c = (Ok (), advance 8 c)"
proof -
  have "readAscii 4 c = (Ok SYNC_OKAY, advance 4 c)"
    using assms by (intro readAscii_word [where rest = "r @ rest"]) (simp_all add: SYNC_OKAY_def)
  with assms show ?thesis
    by (simp add: readFinalReply_def readBytes_def ret_def SYNC_OKAY_def)
qed

lemma writeData_stream:
  assumes "\<not> isclosed c" and "room c = None"
    and "pending c = bytes_of SYNC_OKAY @ r @ rest" and "length r = 4"
  shows "writeData data t c = (Ok (), (advance 8 c)\<lparr>outgoing :=
    outgoing c @ file_stream (chunks DATA_MAX_LENGTH data) t\<rparr>)"
proof -
  let ?c = "c\<lparr>outgoing := outgoing c @ file_stream (chunks DATA_MAX_LENGTH data) t\<rparr>"
  have "readFinalReply ?c = (Ok (), advance 8 ?c)"
    using assms by (intro readFinalReply_OKAY) simp_all
  then show ?thesis
    using assms write_chunks_frames [OF assms(1,2), of data 0]
    by (simp add: writeData_def file_stream_def)
qed

context open_sink
begin

lemma readData_frames:
  assumes "list_all (\<lambda>d. length d < 2 ^ 32) cs" and "\<not> isclosed c"
    and "pending c = file_stream cs t @ rest"
  shows "\<exists>w'. readData wr (c, w) = (Ok (), (advance (length (file_stream cs t)) c, w')) \<and>
    sink w' = sink w @ concat cs"
  using assms
proof (induction cs arbitrary: c w)
  case Nil
  then have "readAscii 4 c = (Ok SYNC_DONE, advance 4 c)"
    by (intro readAscii_word [where rest = "put32 t @ rest"]) (simp_all add: SYNC_DONE_def file_stream_def)
  with Nil show ?case
    by (simp add: readData.simps [of wr "(c, w)"] read_data_step_def readBytes_def ret_def
        file_stream_def sync_words)
next
  case (Cons d cs)
  let ?c = "advance (8 + length d) c"
  from Cons.prems have "readAscii 4 c = (Ok SYNC_DATA, advance 4 c)"
    by (intro readAscii_word [where rest = "le_block d @ file_stream cs t @ rest"])
      (simp_all add: file_stream_def data_frame_def SYNC_DATA_def)
  moreover have "read_block (advance 4 c) = (Ok d, advance (length (le_block d)) (advance 4 c))"
    using Cons.prems by (intro read_block_le_block [where rest = "file_stream cs t @ rest"])
      (simp_all add: file_stream_def data_frame_def SYNC_DATA_def)
  moreover obtain w1 where w1: "wr d w = (Ok (length d), w1)" "sink w1 = sink w @ d"
    by (rule wr_all)
  ultimately have "readData wr (c, w) = readData wr (?c, w1)"
    by (simp add: readData.simps [of wr "(c, w)"] read_data_step_def ret_def)
  moreover have "pending ?c = file_stream cs t @ rest"
    using Cons.prems(3) by (simp add: file_stream_def)
  with Cons.prems Cons.IH [of ?c w1] obtain w' where
    "readData wr (?c, w1) = (Ok (), (advance (length (file_stream cs t)) ?c, w'))"
    "sink w' = sink w1 @ concat cs" by auto
  ultimately show ?case using w1 by (simp add: file_stream_def add.assoc)
qed

end

interpretation pipe_sink: open_sink pipe_Write "\<lambda>b. b"
  by unfold_locales (auto simp: pipe_Write_def)

lemma readData_pipe:
  "list_all (\<lambda>d. length d < 2 ^ 32) cs \<Longrightarrow> \<not> isclosed c \<Longrightarrow> pending c = file_stream cs t @ rest \<Longrightarrow>
   readData pipe_Write (c, b) = (Ok (), (advance (length (file_stream cs t)) c, b @ concat cs))"
  using pipe_sink.readData_frames by auto

lemma list_all_chunks: "list_all (\<lambda>d. length d < 2 ^ 32) (chunks DATA_MAX_LENGTH data)"
  by (auto simp: list_all_iff DATA_MAX_LENGTH_def dest!: chunks_bounds)

section \<open>Segmentation\<close>

lemma segment_free_sync_io [oblivious_intros]:
  "segment_free (sendCommandWithArg w a)" "segment_free (sendCommandWithLength w l)"
  "segment_free (readAscii n)" "segment_free (readBytes n)" "segment_free read_block"
  by (auto simp: sendCommandWithArg_def sendCommandWithLength_def readAscii_def readBytes_def
      read_block_def intro!: oblivious_intros)

lemma segment_free_readError [oblivious_intros]: "segment_free readError"
  unfolding readError_def by (intro oblivious_intros)

lemma segment_free_readdir_step [oblivious_intros]: "segment_free (readdir_step files)"
  unfolding readdir_step_def Let_def by (intro oblivious_intros)

lemma segment_free_readdir_loop [oblivious_intros]: "segment_free (readdir_loop files)"
proof (rule obliviousI)
  fix c d assume "same_stream c d"
  then show "fst (readdir_loop files c) = fst (readdir_loop files d) \<and>
      same_stream (snd (readdir_loop files c)) (snd (readdir_loop files d))"
  proof (induction files c arbitrary: d rule: readdir_loop.induct)
    case (1 files c)
    from segment_free_readdir_step "1.prems" obtain r c' d' where
      st: "readdir_step files c = (r, c')" "readdir_step files d = (r, d')" "same_stream c' d'"
      by (rule obliviousE)
    note IH = "1.IH" [OF st(1) [symmetric] _ _ st(3)]
    from st show ?case
      by (simp add: readdir_loop.simps [of files c] readdir_loop.simps [of files d] IH
          split: result.split sum.split)
  qed
qed

lemma segment_free_readFinalReply [oblivious_intros]: "segment_free readFinalReply"
  unfolding readFinalReply_def by (intro oblivious_intros)

lemma segment_free_write_chunks [oblivious_intros]: "segment_free (write_chunks data offset)"
proof (rule obliviousI)
  fix c d assume "same_stream c d"
  then show "fst (write_chunks data offset c) = fst (write_chunks data offset d) \<and>
      same_stream (snd (write_chunks data offset c)) (snd (write_chunks data offset d))"
  proof (induction "length data - offset" arbitrary: offset c d rule: less_induct)
    case less
    show ?case
    proof (cases "offset < length data")
      case False
      with less.prems show ?thesis by (simp add: write_chunks.simps)
    next
      case True
      define sz where "sz = (if offset + DATA_MAX_LENGTH > length data
        then length data - offset else DATA_MAX_LENGTH)"
      have "0 < sz" using True by (auto simp: sz_def DATA_MAX_LENGTH_def)
      then have "segment_free (write_chunks data (offset + sz))"
        using less.hyps True by (intro obliviousI) simp
      then have "segment_free (andThen (sendCommandWithLength SYNC_DATA
            (of_nat (length (take sz (drop offset data))))) (\<lambda>_.
          andThen (conn_Write (take sz (drop offset data))) (\<lambda>_.
          write_chunks data (offset + sz))))"
        by (intro oblivious_intros)
      then show ?thesis
        using less.prems True
        by (simp add: write_chunks.simps [of data offset] Let_def oblivious_def sz_def)
    qed
  qed
qed

definition same_pull :: "conn \<times> 'w \<Rightarrow> conn \<times> 'w \<Rightarrow> bool" where
  "same_pull s t \<longleftrightarrow> same_stream (fst s) (fst t) \<and> snd s = snd t"

lemma oblivious_on_first [oblivious_intros]:
  "segment_free m \<Longrightarrow> oblivious same_pull (on_first m)"
  by (auto simp: oblivious_def same_pull_def on_first_def split: prod.split)
    (metis fst_conv snd_conv)+

lemma oblivious_on_second [oblivious_intros]: "oblivious same_pull (on_second m)"
  by (auto simp: oblivious_def same_pull_def on_second_def split: prod.split)

lemma oblivious_readData: "oblivious same_pull (readData wr)"
proof (rule obliviousI)
  fix s t :: "conn \<times> 'a" assume "same_pull s t"
  then show "fst (readData wr s) = fst (readData wr t) \<and>
      same_pull (snd (readData wr s)) (snd (readData wr t))"
  proof (induction wr s arbitrary: t rule: readData.induct)
    case (1 wr s)
    have "oblivious same_pull (read_data_step wr)"
      unfolding read_data_step_def by (intro oblivious_intros)
    then obtain r s' t' where
      st: "read_data_step wr s = (r, s')" "read_data_step wr t = (r, t')" "same_pull s' t'"
      using "1.prems" by (rule obliviousE)
    note IH = "1.IH" [OF st(1) [symmetric] _ _ st(3)]
    from st show ?case
      by (simp add: readData.simps [of wr s] readData.simps [of wr t] IH
          split: result.split sum.split)
  qed
qed

lemma segment_free_pull_goroutine [oblivious_intros]: "segment_free pull_goroutine"
proof (rule obliviousI)
  fix c d assume "same_stream c d"
  then have "same_pull (c, []) (d, [])" by (simp add: same_pull_def)
  with oblivious_readData obtain r s t where
    "readData pipe_Write (c, []) = (r, s)" "readData pipe_Write (d, []) = (r, t)" "same_pull s t"
    by (rule obliviousE)
  then show "fst (pull_goroutine c) = fst (pull_goroutine d) \<and>
      same_stream (snd (pull_goroutine c)) (snd (pull_goroutine d))"
    by (cases s; cases t) (auto simp: pull_goroutine_def same_pull_def split: result.split)
qed

lemma segment_free_pipe_ReadAll [oblivious_intros]: "segment_free (pipe_ReadAll p)"
  by (auto simp: pipe_ReadAll_def intro!: oblivious_intros split: prod.split option.split)

section \<open>Listings and stat replies\<close>

definition dent_frame :: "dir_entry \<Rightarrow> bytes" where
  "dent_frame e = bytes_of SYNC_DENT @ put32 (de_Mode e) @ put32 (de_Size e) @
     put32 (de_Mtime e) @ le_block (bytes_of (Name e))"

definition visible :: "dir_entry \<Rightarrow> bool" where
  "visible e \<longleftrightarrow> Name e \<noteq> ''.'' \<and> Name e \<noteq> ''..''"

lemma length_dent_frame [simp]: "length (dent_frame e) = 20 + length (Name e)"
  by (simp add: dent_frame_def SYNC_DENT_def)

lemma readdir_step_DENT:
  assumes "\<not> isclosed c" and "length (Name e) < 2 ^ 32" and "pending c = dent_frame e @ rest"
  shows "readdir_step files c =
    (Ok (Inl (if visible e then files @ [e] else files)), advance (length (dent_frame e)) c)"
proof -
  let ?stat = "put32 (de_Mode e) @ put32 (de_Size e) @ put32 (de_Mtime e) @
    put32 (of_nat (length (Name e)))"
  have p: "pending c = bytes_of SYNC_DENT @ ?stat @ bytes_of (Name e) @ rest"
    using assms(3) by (simp add: dent_frame_def le_block_def)
  then have "readAscii 4 c = (Ok SYNC_DENT, advance 4 c)"
    using assms(1) by (intro readAscii_word) (simp_all add: SYNC_DENT_def)
  moreover have "readBytes 16 (advance 4 c) = (Ok ?stat, advance 20 c)"
    using assms(1) p by (simp add: readBytes_def SYNC_DENT_def)
  moreover have "readBytes (length (Name e)) (advance 20 c) =
      (Ok (bytes_of (Name e)), advance (20 + length (Name e)) c)"
    using assms(1) p by (simp add: readBytes_def SYNC_DENT_def)
  moreover have "\<lparr>Name = Name e, de_Mode = de_Mode e, de_Size = de_Size e, de_Mtime = de_Mtime e\<rparr> = e"
    by simp
  ultimately show ?thesis
    using assms(2) by (simp add: readdir_step_def Let_def ret_def visible_def)
qed

lemma readdir_loop_listing:
  assumes "list_all (\<lambda>e. length (Name e) < 2 ^ 32) es" and "\<not> isclosed c"
    and "pending c = concat (map dent_frame es) @ bytes_of SYNC_DONE @ pad @ rest"
    and "length pad = 16"
  shows "readdir_loop files c = (Ok (files @ filter visible es),
    advance (length (concat (map dent_frame es)) + 20) c)"
  using assms
proof (induction es arbitrary: c files)
  case Nil
  then have "readAscii 4 c = (Ok SYNC_DONE, advance 4 c)"
    by (intro readAscii_word [where rest = "pad @ rest"]) (simp_all add: SYNC_DONE_def)
  with Nil show ?case
    by (simp add: readdir_loop.simps [of files c] readdir_step_def readBytes_def ret_def sync_words)
next
  case (Cons e es)
  let ?c = "advance (length (dent_frame e)) c"
  have "readdir_step files c = (Ok (Inl (if visible e then files @ [e] else files)), ?c)"
    using Cons.prems by (intro readdir_step_DENT) simp_all
  then have "readdir_loop files c = readdir_loop (if visible e then files @ [e] else files) ?c"
    by (simp add: readdir_loop.simps [of files c])
  also have "\<dots> = (Ok ((if visible e then files @ [e] else files) @ filter visible es),
      advance (length (concat (map dent_frame es)) + 20) ?c)"
    using Cons.prems by (intro Cons.IH) simp_all
  finally show ?case by (simp add: algebra_simps)
qed

lemma readData_truncated:
  "list_all (\<lambda>d. length d < 2 ^ 32) cs \<Longrightarrow> \<not> isclosed c \<Longrightarrow> in_end c = EOF \<Longrightarrow>
   pending c = concat (map data_frame cs) \<Longrightarrow>
   \<exists>c'. readData pipe_Write (c, b) = (Err EOF, (c', b @ concat cs))"
proof (induction cs arbitrary: c b)
  case Nil
  then have "ReadFull 4 c = (Err EOF, drained c)" by (simp add: ReadFull_eq)
  then show ?case
    by (simp add: readData.simps [of _ "(c, b)"] read_data_step_def readAscii_def)
next
  case (Cons d cs)
  have "readAscii 4 c = (Ok SYNC_DATA, advance 4 c)"
    using Cons.prems by (intro readAscii_word [where rest = "le_block d @ concat (map data_frame cs)"])
      (simp_all add: data_frame_def [of d] SYNC_DATA_def)
  moreover have "read_block (advance 4 c) = (Ok d, advance (length (le_block d)) (advance 4 c))"
    using Cons.prems by (intro read_block_le_block [where rest = "concat (map data_frame cs)"])
      (simp_all add: data_frame_def [of d] SYNC_DATA_def)
  ultimately have "readData pipe_Write (c, b) = readData pipe_Write (advance (8 + length d) c, b @ d)"
    by (simp add: readData.simps [of _ "(c, b)"] read_data_step_def ret_def pipe_Write_def)
  with Cons.prems Cons.IH [of "advance (8 + length d) c" "b @ d"] show ?case by simp
qed

section \<open>Properties\<close>

text \<open>C15: What a push puts on the wire, a pull reads back: the bytes \<^verbatim>\<open>writeData\<close> sends for a
  file of any content, when the device acknowledges, make \<^verbatim>\<open>readData\<close> on any connection that
  delivers them, in any segmentation, succeed with exactly that content and consume exactly
  those bytes.\<close>

theorem sync_push_pull_roundtrip:
  assumes "\<not> isclosed c" and "room c = None"
    and "pending c = bytes_of SYNC_OKAY @ r @ rest" and "length r = 4"
  shows "\<exists>W. writeData data t c = (Ok (), (advance 8 c)\<lparr>outgoing := outgoing c @ W\<rparr>) \<and>
    (\<forall>d rest'. \<not> isclosed d \<and> pending d = W @ rest' \<longrightarrow>
       readData pipe_Write (d, []) = (Ok (), (advance (length W) d, data)))"
proof (intro exI conjI allI impI)
  let ?W = "file_stream (chunks DATA_MAX_LENGTH data) t"
  show "writeData data t c = (Ok (), (advance 8 c)\<lparr>outgoing := outgoing c @ ?W\<rparr>)"
    using assms by (rule writeData_stream)
  fix d rest' assume "\<not> isclosed d \<and> pending d = ?W @ rest'"
  then have "readData pipe_Write (d, []) =
      (Ok (), (advance (length ?W) d, [] @ concat (chunks DATA_MAX_LENGTH data)))"
    by (intro readData_pipe list_all_chunks) simp_all
  then show "readData pipe_Write (d, []) = (Ok (), (advance (length ?W) d, data))"
    by (simp add: concat_chunks DATA_MAX_LENGTH_def)
qed

theorem sync_push_pull_roundtrip_witness:
  "\<exists>W. fst (writeData [1, 2, 3] 7 (new_conn [bytes_of ''OKAY'', [0, 0, 0, 0]] EOF)) = Ok () \<and>
     outgoing (snd (writeData [1, 2, 3] 7 (new_conn [bytes_of ''OKAY'', [0, 0, 0, 0]] EOF))) = W \<and>
     snd (snd (readData pipe_Write (new_conn [W] EOF, []))) = [1, 2, 3]"
proof -
  let ?c = "new_conn [bytes_of ''OKAY'', [0, 0, 0, 0]] EOF"
  have "\<not> isclosed ?c" "room ?c = None" "length [0, 0, 0, 0 :: byte] = 4"
    "pending ?c = bytes_of SYNC_OKAY @ [0, 0, 0, 0] @ []"
    by (simp_all add: SYNC_OKAY_def)
  from sync_push_pull_roundtrip [OF this(1,2,4,3), of "[1, 2, 3]" 7] obtain W where
    W: "writeData [1, 2, 3] 7 ?c = (Ok (), (advance 8 ?c)\<lparr>outgoing := outgoing ?c @ W\<rparr>)"
      "\<forall>d rest'. \<not> isclosed d \<and> pending d = W @ rest' \<longrightarrow>
         readData pipe_Write (d, []) = (Ok (), (advance (length W) d, [1, 2, 3]))" by blast
  have "pending (new_conn [W] EOF) = W @ []" by simp
  with W(2) have "readData pipe_Write (new_conn [W] EOF, []) =
      (Ok (), (advance (length W) (new_conn [W] EOF), [1, 2, 3]))" by (metis new_conn_simps(4))
  with W(1) show ?thesis by simp
qed

text \<open>C17: The device acknowledging, \<^verbatim>\<open>writeData\<close> sends the file as DATA frames of at least one
  and at most 65536 bytes each, in order and without loss, followed by one DONE frame with
  the timestamp.\<close>

theorem writeData_frames_bounded:
  assumes "\<not> isclosed c" and "room c = None"
    and "pending c = bytes_of SYNC_OKAY @ r @ rest" and "length r = 4"
  shows "\<exists>cs. outgoing (snd (writeData data t c)) =
      outgoing c @ concat (map data_frame cs) @ bytes_of SYNC_DONE @ put32 t \<and>
    concat cs = data \<and> list_all (\<lambda>d. d \<noteq> [] \<and> length d \<le> DATA_MAX_LENGTH) cs"
proof (intro exI conjI)
  let ?cs = "chunks DATA_MAX_LENGTH data"
  show "outgoing (snd (writeData data t c)) =
      outgoing c @ concat (map data_frame ?cs) @ bytes_of SYNC_DONE @ put32 t"
    using writeData_stream [OF assms] by (simp add: file_stream_def)
  show "concat ?cs = data" by (simp add: concat_chunks DATA_MAX_LENGTH_def)
  show "list_all (\<lambda>d. d \<noteq> [] \<and> length d \<le> DATA_MAX_LENGTH) ?cs"
    by (auto simp: list_all_iff dest: chunks_bounds)
qed

theorem writeData_frames_bounded_witness:
  "\<exists>cs. outgoing (snd (writeData [9] 5 (new_conn [bytes_of ''OKAY'' @ [0, 0, 0, 0]] EOF))) =
      concat (map data_frame cs) @ bytes_of SYNC_DONE @ put32 5 \<and> concat cs = [9]"
  using writeData_frames_bounded
    [of "new_conn [bytes_of ''OKAY'' @ [0, 0, 0, 0]] EOF" "[0, 0, 0, 0]" "[]" "[9]" 5]
  by (auto simp: SYNC_OKAY_def)

text \<open>C18: \<^verbatim>\<open>Readdir\<close> sends one LIST request and returns the entries the device lists, in order,
  with their mode, size and time, without the two entries for the directory itself and its
  parent.\<close>

theorem Readdir_returns_listing:
  assumes "\<not> isclosed c" and "room c = None"
    and "list_all (\<lambda>e. length (Name e) < 2 ^ 32) es"
    and "pending c = concat (map dent_frame es) @ bytes_of SYNC_DONE @ pad @ rest"
    and "length pad = 16"
  shows "fst (sync_Readdir path c) = Ok (filter (\<lambda>e. Name e \<notin> {''.'', ''..''}) es) \<and>
    outgoing (snd (sync_Readdir path c)) =
      outgoing c @ bytes_of ''LIST'' @ put32 (of_nat (length path)) @ bytes_of path \<and>
    pending (snd (sync_Readdir path c)) = rest"
proof -
  let ?c = "c\<lparr>outgoing := outgoing c @ bytes_of SYNC_LIST @ le_block (bytes_of path)\<rparr>"
  have f: "filter visible es = filter (\<lambda>e. Name e \<notin> {''.'', ''..''}) es"
    by (rule filter_cong) (simp_all add: visible_def)
  have "readdir_loop [] ?c = (Ok ([] @ filter visible es),
      advance (length (concat (map dent_frame es)) + 20) ?c)"
    using assms by (intro readdir_loop_listing [where pad = pad and rest = rest]) simp_all
  then have "sync_Readdir path c = (Ok (filter (\<lambda>e. Name e \<notin> {''.'', ''..''}) es),
      advance (length (concat (map dent_frame es)) + 20) ?c)"
    using assms(1,2) f by (simp add: sync_Readdir_def)
  then show ?thesis using assms(4,5) by (simp add: le_block_def SYNC_LIST_def SYNC_DONE_def)
qed

theorem Readdir_returns_listing_witness:
  "fst (sync_Readdir ''/'' (new_conn [dent_frame \<lparr>Name = ''.'', de_Mode = 1, de_Size = 0, de_Mtime = 0\<rparr>,
      dent_frame \<lparr>Name = ''a'', de_Mode = 2, de_Size = 3, de_Mtime = 4\<rparr>,
      bytes_of ''DONE'' @ replicate 16 0] EOF)) =
    Ok [\<lparr>Name = ''a'', de_Mode = 2, de_Size = 3, de_Mtime = 4\<rparr>]"
  using Readdir_returns_listing [of _ "[\<lparr>Name = ''.'', de_Mode = 1, de_Size = 0, de_Mtime = 0\<rparr>,
      \<lparr>Name = ''a'', de_Mode = 2, de_Size = 3, de_Mtime = 4\<rparr>]" "replicate 16 0" "[]"]
  by (simp add: SYNC_DONE_def)

text \<open>C16: Every operation of the sync service gives the same result and leaves the same
  connection state however the network cuts the device's bytes into segments.\<close>

theorem sync_operations_segment_free:
  "segment_free (sync_Stat path) \<and> segment_free (sync_Readdir path) \<and>
   segment_free (PushContent data path opts) \<and> segment_free (sync_Push content path opts) \<and>
   segment_free (sync_Pull path) \<and> segment_free (sync_ReadFile path)"
  unfolding sync_Stat_def sync_Readdir_def PushContent_def sync_Push_def sync_Pull_def
    sync_ReadFile_def writeData_def Let_def
  by (intro conjI oblivious_intros)

text \<open>C37: A transfer that breaks off is not always noticed: when the connection ends after some
  complete DATA frames and before DONE, \<^verbatim>\<open>ReadFile\<close> returns the partial content as if it were
  the whole file, with a nil error.\<close>

theorem ReadFile_accepts_truncated_transfer:
  assumes "\<not> isclosed c" and "room c = None" and "in_end c = EOF"
    and "list_all (\<lambda>d. length d < 2 ^ 32) cs" and "pending c = concat (map data_frame cs)"
  shows "fst (sync_ReadFile path c) = Ok (concat cs)"
proof -
  let ?c = "c\<lparr>outgoing := outgoing c @ bytes_of SYNC_RECV @ le_block (bytes_of path)\<rparr>"
  obtain c' where "readData pipe_Write (?c, []) = (Err EOF, (c', concat cs))"
    using assms readData_truncated [of cs ?c "[]"] by auto
  with assms show ?thesis
    by (simp add: sync_ReadFile_def sync_Pull_def pull_goroutine_def pipe_ReadAll_def ret_def)
qed

theorem ReadFile_accepts_truncated_transfer_witness:
  "fst (sync_ReadFile ''/f'' (new_conn [data_frame [1, 2]] EOF)) = Ok [1, 2]"
  using ReadFile_accepts_truncated_transfer [of "new_conn [data_frame [1, 2]] EOF" "[[1, 2]]"]
  by simp

end
