(* ===== verification/Package.thy ===== *)
theory Package
  imports Device Sync
begin

text \<open>
  Package management and intents: \<^verbatim>\<open>adb/device_package.go\<close> and \<^verbatim>\<open>adb/device_intent.go\<close>. The
  local file that an installation reads is a record of what the calls on it will return. The
  two functions that start an activity or a service call themselves again on certain output of
  the device; they are partial functions, whose value \<open>None\<close> is a call that does not return.
\<close>

section \<open>Packages\<close>

fun package_lines :: "string list \<Rightarrow> string list" where
  "package_lines [] = []"
| "package_lines (l # lines) =
     (let line = TrimSpace l in
      if HasPrefix line ''package:''
      then TrimPrefix line ''package:'' # package_lines lines
      else package_lines lines)"

definition GetPackages :: "device \<Rightarrow> (world, string list) prog" where
  "GetPackages d =
     andThen (Shell d ''pm list packages'') (\<lambda>conn.
     deferring (close_conn conn)
       (andThen (ReadAllFromConn conn) (\<lambda>data.
        ret (package_lines (Split (CHR 0x0A) (string_of data))))))"

definition ClearPackageData :: "device \<Rightarrow> string \<Rightarrow> (world, bool) prog" where
  "ClearPackageData d pkg = andThen (RunCommand d (''pm clear '' @ pkg)) (\<lambda>_. ret True)"

text \<open>
  A local file: what \<^verbatim>\<open>os.Open\<close> and \<^verbatim>\<open>Stat\<close> answer, the bytes that can be read from it and the
  error that ends the reading, if any.
\<close>

record local_file =
  open_err :: "go_error option"
  stat_size :: "go_error + int"
  content :: bytes
  read_err :: "go_error option"

definition os_Open :: "local_file \<Rightarrow> ('s, unit) prog" where
  "os_Open f = (case open_err f of Some e \<Rightarrow> fail e | None \<Rightarrow> ret ())"

text \<open>\<^verbatim>\<open>io.Copy(transport, file)\<close>: an error of the connection comes before one of the file.\<close>

definition io_Copy :: "local_file \<Rightarrow> (conn, unit) prog" where
  "io_Copy f =
     andThen (if content f = [] then ret 0 else conn_Write (content f)) (\<lambda>_.
       case read_err f of Some e \<Rightarrow> fail e | None \<Rightarrow> ret ())"

definition hasAbbExecFeature :: "device \<Rightarrow> go_error option \<Rightarrow> (world, bool) prog" where
  "hasAbbExecFeature d late = HasFeature d late ''abb_exec''"

text \<open>The conversation on the transport; the reply is read with a single \<^verbatim>\<open>Read\<close>.\<close>

definition abb_exchange :: "int \<Rightarrow> local_file \<Rightarrow> (conn, bool) prog" where
  "abb_exchange n file =
     (let cmd = ''abb_exec:package install -S '' @ dec_int n in
      andThen (write_frame cmd) (\<lambda>_.
      andThen (conn_Read 4) (\<lambda>r.
        let reply = string_of (r @ replicate (4 - length r) 0) in
        if reply \<noteq> StatusOkay
        then attempt readLengthPrefixed (\<lambda>m.
               fail (Errorf (''abb_exec command failed: '' @
                 (case m of Inl _ \<Rightarrow> '''' | Inr msg \<Rightarrow> string_of msg))))
        else andThen (io_Copy file) (\<lambda>_.
             andThen ReadAll (\<lambda>data. ret (Contains (string_of data) ''Success''))))))"

definition installUsingAbbExec :: "device \<Rightarrow> local_file \<Rightarrow> (world, bool) prog" where
  "installUsingAbbExec d file =
     andThen (os_Open file) (\<lambda>_.
       case stat_size file of
         Inl err \<Rightarrow> fail err
       | Inr n \<Rightarrow>
           andThen (Transport d) (\<lambda>transport.
           deferring (close_conn transport) (on_conn transport (abb_exchange n file))))"

definition temp_apk :: string where
  "temp_apk = ''/data/local/tmp/install.apk''"

definition file_ReadAll :: "local_file \<Rightarrow> go_error + bytes" where
  "file_ReadAll f = (case read_err f of Some e \<Rightarrow> Inl e | None \<Rightarrow> Inr (content f))"

definition installUsingPush :: "device \<Rightarrow> local_file \<Rightarrow> (world, bool) prog" where
  "installUsingPush d file =
     andThen (os_Open file) (\<lambda>_.
     andThen (device_Push d (file_ReadAll file) temp_apk 0x1A4) (\<lambda>_.
     andThen (RunCommand d (''pm install -r '' @ temp_apk)) (\<lambda>output.
     attempt (RunCommand d (''rm -f '' @ temp_apk)) (\<lambda>_.
     ret (Contains output ''Success'')))))"

definition Install :: "device \<Rightarrow> go_error option \<Rightarrow> local_file \<Rightarrow> (world, bool) prog" where
  "Install d late file =
     attempt (hasAbbExecFeature d late) (\<lambda>r. case r of
       Inl _ \<Rightarrow> installUsingPush d file
     | Inr hasAbbExec \<Rightarrow> if hasAbbExec then installUsingAbbExec d file else installUsingPush d file)"

text \<open>The connection that the last \<^verbatim>\<open>d.Shell\<close> opens is dropped, not closed.\<close>

definition InstallRemote :: "device \<Rightarrow> string \<Rightarrow> (world, bool) prog" where
  "InstallRemote d apkPath =
     andThen (executeTransportCommandWithResponse d (''shell:pm install -r '' @ apkPath)) (\<lambda>data.
       let output = TrimSpace (string_of data) in
       attempt (Shell d (''rm -f '' @ apkPath)) (\<lambda>_.
       ret (Contains output ''Success'')))"

definition Uninstall :: "device \<Rightarrow> string \<Rightarrow> (world, bool) prog" where
  "Uninstall d pkg =
     andThen (executeTransportCommandWithResponse d (''shell:pm uninstall '' @ pkg)) (\<lambda>data.
     ret (Contains (string_of data) ''Success''))"

definition IsInstalled :: "device \<Rightarrow> string \<Rightarrow> (world, bool) prog" where
  "IsInstalled d pkg =
     andThen (executeTransportCommandWithResponse d (''shell:pm path '' @ pkg)) (\<lambda>data.
     ret (Contains (string_of data) ''package:''))"

section \<open>Intents\<close>

text \<open>
  The extras are a map, and Go leaves open in which order a loop visits the entries of a map;
  the order may differ from one loop to the next. \<open>visit\<close> lists the entries of a map in the
  order of one loop.
\<close>

type_synonym visit = "(string \<rightharpoonup> string) \<Rightarrow> (string \<times> string) list"

record start_activity_options =
  sa_Action :: string
  sa_Data :: string
  sa_Type :: string
  sa_Category :: "string list"
  sa_Component :: string
  sa_Flags :: "string list"
  sa_User :: int
  sa_Extras :: "string \<rightharpoonup> string"
  sa_Wait :: bool
  sa_WaitForDebug :: bool

record start_service_options =
  ss_Action :: string
  ss_Data :: string
  ss_Type :: string
  ss_Component :: string
  ss_User :: int
  ss_Extras :: "string \<rightharpoonup> string"

definition opt_arg :: "string \<Rightarrow> string \<Rightarrow> string list" where
  "opt_arg flag v = (if v \<noteq> '''' then [flag, v] else [])"

definition buildActivityCommandArgs :: "visit \<Rightarrow> start_activity_options \<Rightarrow> string \<Rightarrow> string list" where
  "buildActivityCommandArgs visit opts baseCmd =
     [baseCmd] @ opt_arg ''-a'' (sa_Action opts) @ opt_arg ''-d'' (sa_Data opts) @
     opt_arg ''-t'' (sa_Type opts) @ concat (map (\<lambda>cat. [''-c'', cat]) (sa_Category opts)) @
     opt_arg ''-n'' (sa_Component opts) @ concat (map (\<lambda>flag. [''-f'', flag]) (sa_Flags opts)) @
     concat (map (\<lambda>(key, val). [''--es'', key, val]) (visit (sa_Extras opts))) @
     (if sa_Wait opts then [''-W''] else []) @ (if sa_WaitForDebug opts then [''-D''] else [])"

definition buildServiceCommandArgs :: "visit \<Rightarrow> start_service_options \<Rightarrow> string \<Rightarrow> string list" where
  "buildServiceCommandArgs visit opts baseCmd =
     [baseCmd] @ opt_arg ''-a'' (ss_Action opts) @ opt_arg ''-d'' (ss_Data opts) @
     opt_arg ''-t'' (ss_Type opts) @ opt_arg ''-n'' (ss_Component opts) @
     concat (map (\<lambda>(key, val). [''--es'', key, val]) (visit (ss_Extras opts)))"

text \<open>\<open>visits n\<close> is the order of the loop in the \<open>n\<close>-th call, counted from the outermost one.\<close>

partial_function (option) StartActivity ::
  "device \<Rightarrow> (nat \<Rightarrow> visit) \<Rightarrow> start_activity_options \<Rightarrow> world \<Rightarrow> (bool result \<times> world) option" where
  "StartActivity d visits opts w =
     (case RunCommand d (Join '' '' (buildActivityCommandArgs (visits 0) opts ''am start'')) w of
        (Err e, w') \<Rightarrow> Some (Err e, w')
      | (Panic p, w') \<Rightarrow> Some (Panic p, w')
      | (Ok output, w') \<Rightarrow>
          if Contains output ''No user'' then StartActivity d (\<lambda>n. visits (Suc n)) (opts\<lparr>sa_User := 0\<rparr>) w'
          else Some (Ok (\<not> Contains output ''Error''), w'))"

partial_function (option) StartService ::
  "device \<Rightarrow> (nat \<Rightarrow> visit) \<Rightarrow> start_service_options \<Rightarrow> world \<Rightarrow> (bool result \<times> world) option" where
  "StartService d visits opts w =
     (case RunCommand d (Join '' '' (buildServiceCommandArgs (visits 0) opts ''am startservice'')) w of
        (Err e, w') \<Rightarrow> Some (Err e, w')
      | (Panic p, w') \<Rightarrow> Some (Panic p, w')
      | (Ok output, w') \<Rightarrow>
          if Contains output ''--user'' then StartService d (\<lambda>n. visits (Suc n)) (opts\<lparr>ss_User := - 1\<rparr>) w'
          else Some (Ok (\<not> Contains output ''Error''), w'))"

end
