(* ===== verification/DeviceOps.thy ===== *)
theory DeviceOps
  imports Package
begin

text \<open>
  What the operations of a client and of a device do to the connections they open, as lemmas
  about any connector that dials (the property that collects them is in \<open>Leaks\<close>); the whole
  conversation of a shell command, from the dial to the returned output; the two operations
  that leave a connection open; and when the intents that repeat themselves return.
\<close>

section \<open>Operations that close what they open\<close>

lemma only_close [leak_free_intros]: "only h (close_conn h)"
  unfolding only_def
  by (intro allI tripleI) (auto simp: close_conn_def intro: one_open_on_conn [OF _ prod.collapse [symmetric]])

lemma only_deferring [leak_free_intros]: "only h m \<Longrightarrow> only h (deferring (close_conn h) m)"
  unfolding only_def
  by (fastforce simp: triple_def deferring_def close_conn_def split: prod.splits result.splits
      intro: one_open_on_conn [OF _ prod.collapse [symmetric]])

lemma only_getHostPrefix [leak_free_intros]: "only h (getHostPrefix d)"
  by (simp add: getHostPrefix_def only_basic split: device_descriptor_type.split)

lemma only_readAll [leak_free_intros]:
  "only h (readAllWithContext ctx h)" "only h (ReadAllFromConn h)"
  unfolding readAllWithContext_def ReadAllFromConn_def
  by (auto split: option.split intro!: leak_free_intros)

lemma leak_free_os_Open [leak_free_intros]: "leak_free (os_Open f)"
  by (simp add: os_Open_def leak_free_basic split: option.split)

lemmas host_ops = Version_def ConnectContext_def Connect_def DisconnectContext_def Disconnect_def
  ListDevices_def ListDevicesWithPaths_def KillServer_def ListForwards_def client_Features_def

lemmas device_ops = getAttribute_def device_Serial_def DevicePath_def device_State_def Properties_def
  DHCPIpAddress_def Reboot_def Remount_def Root_def WaitForDevice_def
  WaitBootComplete_def firstDeviceSerial_def FeaturesContext_def Features_def HasFeature_def TcpIp_def
  Usb_def ClearPackageData_def hasAbbExecFeature_def Uninstall_def IsInstalled_def

context dialer
begin

lemma SendHostCommand_leak_free: "connector c = dial \<Longrightarrow> leak_free (SendHostCommand c late cmd)"
  unfolding SendHostCommand_def by (rule SendHostCommandContext_leak_free)

lemma host_ops_leak_free:
  assumes "connector c = dial"
  shows "leak_free (Version c late)" "leak_free (ConnectContext c ctx hp)" "leak_free (Connect c late hp)"
    "leak_free (DisconnectContext c ctx hp)" "leak_free (Disconnect c late hp)"
    "leak_free (ListDevices c late)" "leak_free (ListDevicesWithPaths c late)"
    "leak_free (KillServer c late)" "leak_free (ListForwards c late)" "leak_free (client_Features c late)"
  unfolding host_ops
  using SendHostCommand_leak_free [OF assms] SendHostCommandContext_leak_free [OF assms]
  by (auto simp: Let_def intro!: leak_free_intros split: sum.split prod.split)

lemma Shell_yields: "connector (dev_client d) = dial \<Longrightarrow> yields_conn (Shell d cmd)"
  unfolding Shell_def using Transport_yields by (auto intro!: leak_free_intros)

lemma RunCommandContext_leak_free:
  "connector (dev_client d) = dial \<Longrightarrow> leak_free (RunCommandContext d ctx cmd)"
  unfolding RunCommandContext_def
  by (rule leak_free_yields [OF Shell_yields]) (auto intro!: leak_free_intros)

lemma RunCommand_leak_free: "connector (dev_client d) = dial \<Longrightarrow> leak_free (RunCommand d cmd)"
  unfolding RunCommand_def by (rule RunCommandContext_leak_free)

lemma NewSyncService_yields: "connector (dev_client d) = dial \<Longrightarrow> yields_conn (NewSyncService d)"
  unfolding NewSyncService_def by (rule openTransportConnection_yields)

lemma file_ops_leak_free:
  assumes "connector (dev_client d) = dial"
  shows "leak_free (device_Stat d path)" "leak_free (device_Readdir d path)"
    "leak_free (device_Push d con path mode)" "leak_free (device_ReadFile d path)"
  unfolding device_Stat_def device_Readdir_def device_Push_def device_ReadFile_def
  by (rule leak_free_yields [OF NewSyncService_yields [OF assms]], intro leak_free_intros)+

lemma forward_ops_leak_free:
  assumes "connector (dev_client d) = dial"
  shows "leak_free (Forward d l r)" "leak_free (ForwardRemove d l)" "leak_free (Reverse d r l)"
    "leak_free (ReverseRemove d r)" "leak_free (ListReverses d)"
proof -
  have c: "yields_conn (Connection (dev_client d))" using dial_yields assms by (simp add: Connection_def)
  show "leak_free (Forward d l r)" "leak_free (ForwardRemove d l)"
    unfolding Forward_def ForwardRemove_def
    by (rule leak_free_yields [OF c], intro leak_free_intros)+
  show "leak_free (Reverse d r l)" "leak_free (ReverseRemove d r)" "leak_free (ListReverses d)"
    unfolding Reverse_def ReverseRemove_def ListReverses_def
    by (rule leak_free_yields [OF Transport_yields [OF assms]], intro leak_free_intros)+
qed

lemma GetPackages_leak_free: "connector (dev_client d) = dial \<Longrightarrow> leak_free (GetPackages d)"
  unfolding GetPackages_def
  by (rule leak_free_yields [OF Shell_yields]) (auto intro!: leak_free_intros)

lemma installUsingAbbExec_leak_free:
  assumes "connector (dev_client d) = dial"
  shows "leak_free (installUsingAbbExec d f)"
proof -
  have "leak_free (andThen (Transport d) (\<lambda>t. deferring (close_conn t) (on_conn t (abb_exchange n f))))" for n
    by (rule leak_free_yields [OF Transport_yields [OF assms]]) (intro leak_free_intros)
  then show ?thesis
    unfolding installUsingAbbExec_def
    by (cases "stat_size f") (auto intro!: leak_free_andThen [OF leak_free_os_Open] leak_free_basic)
qed

lemma device_ops_leak_free:
  assumes "connector (dev_client d) = dial"
  shows "leak_free (device_Serial d late)" "leak_free (DevicePath d late)" "leak_free (device_State d late)"
    "leak_free (Properties d)" "leak_free (DHCPIpAddress d iface)" "leak_free (Reboot d)" "leak_free (Remount d)"
    "leak_free (Root d)" "leak_free (WaitForDevice d late)"
    "leak_free (WaitBootComplete d)" "leak_free (FeaturesContext d late ctx)" "leak_free (HasFeature d late feat)"
    "leak_free (TcpIp d port)" "leak_free (Usb d)" "leak_free (ClearPackageData d pkg)"
    "leak_free (Uninstall d pkg)" "leak_free (IsInstalled d pkg)"
  unfolding device_ops
  using SendHostCommand_leak_free [OF assms] SendHostCommandContext_leak_free [OF assms]
    RunCommand_leak_free [OF assms] executeTransportCommand_leak_free [OF assms]
    executeTransportCommandWithResponse_leak_free [OF assms] host_ops_leak_free(6) [OF assms]
  by (auto simp: Let_def intro!: leak_free_intros split: option.split list.split)

lemma installUsingPush_leak_free:
  assumes "connector (dev_client d) = dial"
  shows "leak_free (installUsingPush d f)"
  unfolding installUsingPush_def
  using file_ops_leak_free(3) [OF assms] RunCommand_leak_free [OF assms] by (intro leak_free_intros)

lemma Install_leak_free:
  assumes "connector (dev_client d) = dial"
  shows "leak_free (Install d late f)"
  unfolding Install_def hasAbbExecFeature_def
  using device_ops_leak_free(12) [OF assms] installUsingAbbExec_leak_free [OF assms]
    installUsingPush_leak_free [OF assms] by (intro leak_free_intros)

end

section \<open>The conversation of a shell command\<close>

lemma getTransportDescriptor_ret:
  "(\<And>i. descriptorType ds \<noteq> OtherDescriptor i) \<Longrightarrow> \<exists>t. getTransportDescriptor ds = ret t"
  by (cases "descriptorType ds") (auto simp: getTransportDescriptor_def)

lemma on_conn_last:
  "conns w = B @ [c] \<Longrightarrow> h = length B \<Longrightarrow> m c = (r, c') \<Longrightarrow>
   on_conn h m w = (r, w\<lparr>conns := B @ [c']\<rparr>)"
  by (simp add: on_conn_def)

text \<open>
  \<open>dials_to d w c w1\<close>: the client of \<open>d\<close> connects in \<open>w\<close>; its connection is \<open>c\<close>.
\<close>

definition dials_to :: "device \<Rightarrow> world \<Rightarrow> conn \<Rightarrow> world \<Rightarrow> bool" where
  "dials_to d w c w1 \<longleftrightarrow>
     Connection (dev_client d) w = (Ok (length (conns w)), w1) \<and> conns w1 = conns w @ [c]"

lemma dials_to_autoStart:
  "connector (dev_client d) = autoStart_Connection host port bin \<Longrightarrow> dials w = Inr c # ds \<Longrightarrow>
   dials_to d w c (w\<lparr>dialled := dialled w @ [connector_addr host port], dials := ds, conns := conns w @ [c]\<rparr>)"
  using autoStart_connects by (simp add: Connection_def dials_to_def)

lemma Transport_via:
  assumes "dials_to d w c w1"
    and "getTransportDescriptor (descriptor d) = (ret t :: (world, string) prog)"
    and "answers c StatusOkay rest"
  shows "Transport d w = (Ok (length (conns w)),
     w1\<lparr>conns := conns w @ [(advance 4 c)\<lparr>outgoing := outgoing c @ frame (''host:'' @ t)\<rparr>]\<rparr>)"
proof -
  from assms(1) have w1: "Connection (dev_client d) w = (Ok (length (conns w)), w1)" "conns w1 = conns w @ [c]"
    by (simp_all add: dials_to_def)
  from w1(2) have "on_conn (length (conns w)) (sendADBCommand (''host:'' @ t)) w1 =
      (Ok StatusOkay, w1\<lparr>conns := conns w @ [(advance 4 c)\<lparr>outgoing := outgoing c @ frame (''host:'' @ t)\<rparr>]\<rparr>)"
    by (rule on_conn_last [where c = c]) (simp, rule sendADBCommand_word [OF assms(3)])
  with w1 assms(2) show ?thesis by (simp add: Transport_def ret_def)
qed

lemma Shell_via:
  assumes "dials_to d w c w1"
    and "getTransportDescriptor (descriptor d) = (ret t :: (world, string) prog)"
    and "answers c StatusOkay (bytes_of StatusOkay @ out)"
  shows "Shell d cmd w = (Ok (length (conns w)),
     w1\<lparr>conns := conns w @ [(advance 8 c)\<lparr>outgoing := outgoing c @ frame (''host:'' @ t) @
         frame (''shell:'' @ cmd)\<rparr>]\<rparr>)"
proof -
  let ?c = "(advance 4 c)\<lparr>outgoing := outgoing c @ frame (''host:'' @ t)\<rparr>"
  have "replies ?c StatusOkay out" "room ?c = None"
    using assms(3) by (auto simp: replies_def answers_def StatusOkay_def)
  then have "SendCommand (''shell:'' @ cmd) ?c =
      (Ok StatusOkay, (advance 4 ?c)\<lparr>outgoing := outgoing ?c @ frame (''shell:'' @ cmd)\<rparr>)"
    by (intro SendCommand_word) (auto simp: StatusOkay_def StatusFail_def)
  then show ?thesis
    using Transport_via [OF assms]
    by (simp add: Shell_def on_conn_last [OF _ refl] ret_def)
qed

lemma RunCommand_via:
  assumes "dials_to d w c w1"
    and "getTransportDescriptor (descriptor d) = (ret t :: (world, string) prog)"
    and "answers c StatusOkay (bytes_of StatusOkay @ out)" and "in_end c = EOF"
  shows "\<exists>c'. RunCommand d cmd w = (Ok (string_of out), w1\<lparr>conns := conns w @ [c']\<rparr>) \<and> isclosed c' \<and>
     outgoing c' = outgoing c @ frame (''host:'' @ t) @ frame (''shell:'' @ cmd)"
proof -
  let ?c = "(advance 8 c)\<lparr>outgoing := outgoing c @ frame (''host:'' @ t) @ frame (''shell:'' @ cmd)\<rparr>"
  have "ReadAll ?c = (Ok out, drained ?c)"
    using assms(3,4) by (simp add: ReadAll_eq answers_def StatusOkay_def)
  with Shell_via [OF assms(1-3)] assms(3) show ?thesis
    by (intro exI [of _ "(drained ?c)\<lparr>isclosed := True\<rparr>"]) (simp add: RunCommand_def RunCommandContext_def background_def readAllWithContext_def
        on_conn_last [OF _ refl] deferring_def ret_def close_conn_def on_conn_def conn_Close_def answers_def)
qed

text \<open>C19: a shell command over a server that accepts the device and the command: \<^verbatim>\<open>RunCommand\<close> dials
  the server once, sends exactly the framed device selection and the framed command, returns
  all output of the device up to the end of the stream, and closes the connection.\<close>

theorem RunCommand_output:
  assumes "connector (dev_client d) = autoStart_Connection host port bin"
    and "getTransportDescriptor (descriptor d) = (ret t :: (world, string) prog)"
    and "dials w = Inr c # ds" and "answers c StatusOkay (bytes_of StatusOkay @ out)" and "in_end c = EOF"
  shows "\<exists>w' c'. RunCommand d cmd w = (Ok (string_of out), w') \<and>
     dialled w' = dialled w @ [connector_addr host port] \<and> spawned w' = spawned w \<and>
     conns w' = conns w @ [c'] \<and> isclosed c' \<and>
     outgoing c' = outgoing c @ frame (''host:'' @ t) @ frame (''shell:'' @ cmd)"
  using RunCommand_via [OF dials_to_autoStart [OF assms(1,3)] assms(2,4,5), of cmd] by auto

definition demo_device :: device where
  "demo_device = \<lparr>dev_client = \<lparr>connector = autoStart_Connection ''localhost'' 5037 ''adb''\<rparr>,
     descriptor = AnyDevice\<rparr>"

definition demo_conn :: "string \<Rightarrow> conn" where
  "demo_conn out = new_conn [bytes_of ''OKAY'', bytes_of (''OKAY'' @ out)] EOF"

lemma demo_conn_answers: "answers (demo_conn out) StatusOkay (bytes_of StatusOkay @ bytes_of out)"
  by (simp add: answers_def demo_conn_def StatusOkay_def) (simp add: new_conn_def)

lemma demo_device_facts:
  "connector (dev_client demo_device) = autoStart_Connection ''localhost'' 5037 ''adb''"
  "getTransportDescriptor (descriptor demo_device) = ret ''transport-any''"
  by (simp_all add: demo_device_def AnyDevice_def getTransportDescriptor_def)

theorem RunCommand_output_witness:
  "\<exists>w' c'. RunCommand demo_device ''ls'' (new_world [Inr (demo_conn ''sdcard'')]) = (Ok ''sdcard'', w') \<and>
     conns w' = [c'] \<and> isclosed c' \<and>
     outgoing c' = bytes_of ''0012host:transport-any0008shell:ls''"
proof -
  have "dials (new_world [Inr (demo_conn ''sdcard'')]) = Inr (demo_conn ''sdcard'') # []"
    by (simp add: new_world_def)
  moreover have "in_end (demo_conn ''sdcard'') = EOF" "outgoing (demo_conn ''sdcard'') = []"
    by (simp_all add: demo_conn_def)
  moreover have "frame ''host:transport-any'' @ frame ''shell:ls'' =
      bytes_of ''0012host:transport-any0008shell:ls''"
    by code_simp
  ultimately show ?thesis
    using RunCommand_output [OF demo_device_facts _ demo_conn_answers, of "new_world [Inr (demo_conn ''sdcard'')]" "''sdcard''" "[]" "''ls''"]
    by (auto simp: new_world_def simp del: bytes_of_Cons)
qed

lemma SendCommand_Ok:
  assumes "answers c StatusOkay (bytes_of StatusOkay @ rest)"
  shows "SendCommand cmd ((advance 4 c)\<lparr>outgoing := out\<rparr>) =
    (Ok StatusOkay, (advance 8 c)\<lparr>outgoing := out @ frame cmd\<rparr>)"
proof -
  let ?c = "(advance 4 c)\<lparr>outgoing := out\<rparr>"
  have "replies ?c StatusOkay rest" "room ?c = None"
    using assms by (auto simp: replies_def answers_def StatusOkay_def)
  then have "SendCommand cmd ?c = (Ok StatusOkay, (advance 4 ?c)\<lparr>outgoing := outgoing ?c @ frame cmd\<rparr>)"
    by (intro SendCommand_word) (auto simp: StatusOkay_def StatusFail_def)
  then show ?thesis by simp
qed

lemma executeTransportCommandWithResponse_Ok:
  assumes "connector (dev_client d) = autoStart_Connection host port bin"
    and "getTransportDescriptor (descriptor d) = (ret t :: (world, string) prog)"
    and "dials w = Inr c # ds" and "answers c StatusOkay (bytes_of StatusOkay @ out)" and "in_end c = EOF"
  shows "\<exists>w' c'. executeTransportCommandWithResponse d cmd w = (Ok out, w') \<and>
     dials w' = ds \<and> conns w' = conns w @ [c'] \<and> isclosed c'"
proof -
  let ?c = "(advance 8 c)\<lparr>outgoing := outgoing c @ frame (''host:'' @ t) @ frame cmd\<rparr>"
  have "ReadAll ?c = (Ok out, drained ?c)"
    using assms(4,5) by (simp add: ReadAll_eq answers_def StatusOkay_def)
  then have "ExecuteCommandWithResponse cmd ((advance 4 c)\<lparr>outgoing := outgoing c @ frame (''host:'' @ t)\<rparr>) =
      (Ok out, drained ?c)"
    using SendCommand_Ok [OF assms(4)]
    by (simp add: ExecuteCommandWithResponse_def StatusOkay_def StatusFail_def)
  with Transport_via [OF dials_to_autoStart [OF assms(1,3)] assms(2,4)] assms(4) show ?thesis
    by (simp add: executeTransportCommandWithResponse_def on_conn_last [OF _ refl] deferring_def
        close_conn_def on_conn_def conn_Close_def answers_def)
qed

lemma openTransportConnection_Ok:
  assumes "connector (dev_client d) = autoStart_Connection host port bin"
    and "getTransportDescriptor (descriptor d) = (ret t :: (world, string) prog)"
    and "dials w = Inr c # ds" and "answers c StatusOkay (bytes_of StatusOkay @ rest)"
  shows "\<exists>w'. openTransportConnection d cmd w = (Ok (length (conns w)), w') \<and> dials w' = ds \<and>
     conns w' = conns w @ [(advance 8 c)\<lparr>outgoing := outgoing c @ frame (''host:'' @ t) @ frame cmd\<rparr>]"
proof -
  have "ExecuteSimpleCommand cmd ((advance 4 c)\<lparr>outgoing := outgoing c @ frame (''host:'' @ t)\<rparr>) =
      (Ok (), (advance 8 c)\<lparr>outgoing := outgoing c @ frame (''host:'' @ t) @ frame cmd\<rparr>)"
    using SendCommand_Ok [OF assms(4)]
    by (simp add: ExecuteSimpleCommand_def StatusOkay_def StatusFail_def ret_def)
  with Transport_via [OF dials_to_autoStart [OF assms(1,3)] assms(2,4)] show ?thesis
    by (intro exI) (auto simp: openTransportConnection_def on_conn_last [OF _ refl] ret_def)
qed

lemma device_Pull_Ok:
  assumes "connector (dev_client d) = autoStart_Connection host port bin"
    and "getTransportDescriptor (descriptor d) = (ret t :: (world, string) prog)"
    and "dials w = Inr c # ds" and "answers c StatusOkay (bytes_of StatusOkay @ file_stream cs stamp)"
    and "list_all (\<lambda>b. length b < 2 ^ 32) cs"
  shows "\<exists>w' c'. device_Pull d path w = (Ok (concat cs, None), w') \<and> dials w' = ds \<and>
    conns w' = conns w @ [c'] \<and> pending c' = [] \<and> \<not> isclosed c' \<and>
    outgoing c' = outgoing c @ frame (''host:'' @ t) @ frame ''sync:'' @ bytes_of SYNC_RECV @ le_block (bytes_of path)"
proof -
  let ?o = "outgoing c @ frame (''host:'' @ t) @ frame ''sync:''"
  obtain w1 where w1: "openTransportConnection d ''sync:'' w = (Ok (length (conns w)), w1)"
    "dials w1 = ds" "conns w1 = conns w @ [(advance 8 c)\<lparr>outgoing := ?o\<rparr>]"
    using openTransportConnection_Ok [OF assms(1-4)] by blast
  let ?c = "(advance 8 c)\<lparr>outgoing := ?o @ bytes_of SYNC_RECV @ le_block (bytes_of path)\<rparr>"
  let ?c' = "advance (length (file_stream cs stamp)) ?c"
  have "pending ?c = file_stream cs stamp @ []" "\<not> isclosed ?c" "room c = None"
    using assms(4) by (auto simp: answers_def StatusOkay_def)
  moreover from this have "readData pipe_Write (?c, []) = (Ok (), (?c', concat cs))"
    using readData_pipe [OF assms(5), of ?c stamp "[]" "[]"] by simp
  ultimately have "sync_Pull path ((advance 8 c)\<lparr>outgoing := ?o\<rparr>) = (Ok (concat cs, None), ?c')"
    by (simp add: sync_Pull_def pull_goroutine_def)
  moreover have "pending ?c' = []" "\<not> isclosed ?c'"
    using assms(4) by (auto simp: answers_def StatusOkay_def)
  ultimately show ?thesis
    using w1 by (auto simp: device_Pull_def NewSyncService_def on_conn_last [OF _ refl])
qed

text \<open>C38: two operations do leave a connection open. \<^verbatim>\<open>InstallRemote\<close>, on a server that accepts its
  two commands, drops the connection of the \<^verbatim>\<open>rm\<close> command it starts after the installation; \<^verbatim>\<open>Pull\<close>
  never closes the connection of its sync service, not even when the whole file has been
  read.\<close>

theorem operations_that_leak:
  assumes "connector (dev_client d) = autoStart_Connection host port bin"
    and "getTransportDescriptor (descriptor d) = (ret t :: (world, string) prog)"
    and "dials w = Inr c1 # Inr c2 # ds" and "in_end c1 = EOF"
    and "answers c1 StatusOkay (bytes_of StatusOkay @ out)" and "answers c2 StatusOkay (bytes_of StatusOkay @ rest)"
    and "dials w3 = [Inr c3]" and "answers c3 StatusOkay (bytes_of StatusOkay @ file_stream cs stamp)"
    and "list_all (\<lambda>b. length b < 2 ^ 32) cs"
  shows "(\<exists>w' c1' c2'. InstallRemote d apkPath w = (Ok (Contains (TrimSpace (string_of out)) ''Success''), w') \<and>
       conns w' = conns w @ [c1', c2'] \<and> isclosed c1' \<and> \<not> isclosed c2') \<and>
     (\<exists>w' c3'. device_Pull d path w3 = (Ok (concat cs, None), w') \<and>
       conns w' = conns w3 @ [c3'] \<and> pending c3' = [] \<and> \<not> isclosed c3')"
proof
  obtain w1 c1' where w1: "executeTransportCommandWithResponse d (''shell:pm install -r '' @ apkPath) w = (Ok out, w1)"
    "dials w1 = Inr c2 # ds" "conns w1 = conns w @ [c1']" "isclosed c1'"
    using executeTransportCommandWithResponse_Ok [OF assms(1-3,5,4)] by blast
  then show "\<exists>w' c1' c2'. InstallRemote d apkPath w = (Ok (Contains (TrimSpace (string_of out)) ''Success''), w') \<and>
       conns w' = conns w @ [c1', c2'] \<and> isclosed c1' \<and> \<not> isclosed c2'"
    using Shell_via [OF dials_to_autoStart [OF assms(1) w1(2)] assms(2,6)] assms(6)
    by (simp add: InstallRemote_def Let_def ret_def answers_def)
  show "\<exists>w' c3'. device_Pull d path w3 = (Ok (concat cs, None), w') \<and>
       conns w' = conns w3 @ [c3'] \<and> pending c3' = [] \<and> \<not> isclosed c3'"
    using device_Pull_Ok [OF assms(1,2,7-9)] by blast
qed

theorem operations_that_leak_witness:
  "\<exists>w' c1 c2. InstallRemote demo_device ''a.apk'' (new_world [Inr (demo_conn ''Success''), Inr (demo_conn '''')]) = (Ok True, w') \<and>
     conns w' = [c1, c2] \<and> isclosed c1 \<and> \<not> isclosed c2"
proof -
  let ?w = "new_world [Inr (demo_conn ''Success''), Inr (demo_conn '''')]"
  have w: "dials ?w = Inr (demo_conn ''Success'') # Inr (demo_conn '''') # []" "conns ?w = []"
    by (simp_all add: new_world_def)
  define c3 where "c3 = demo_conn (string_of (file_stream [[7]] 0))"
  have c3: "answers c3 StatusOkay (bytes_of StatusOkay @ file_stream [[7]] 0)"
    using demo_conn_answers [of "string_of (file_stream [[7]] 0)"] by (simp add: c3_def)
  have "in_end (demo_conn ''Success'') = EOF" "dials (new_world [Inr c3]) = [Inr c3]"
    by (simp_all add: demo_conn_def new_world_def)
  from operations_that_leak [OF demo_device_facts w(1) this(1) demo_conn_answers demo_conn_answers this(2) c3]
  have leak: "\<exists>w' c1' c2'. InstallRemote demo_device ''a.apk'' ?w =
       (Ok (Contains (TrimSpace (string_of (bytes_of ''Success''))) ''Success''), w') \<and>
       conns w' = conns ?w @ [c1', c2'] \<and> isclosed c1' \<and> \<not> isclosed c2'" by simp
  have "TrimSpace ''Success'' = ''Success''"
    by (rule TrimSpace_graphic) (simp add: graphic_def graphic_char_def)
  then have "Contains (TrimSpace (string_of (bytes_of ''Success''))) ''Success''"
    by (simp only: string_of_bytes_of sublist_order.order.refl)
  with leak w(2) show ?thesis by (simp only: append_Nil)
qed

section \<open>Repeated intents\<close>

text \<open>
  \<open>answers_again d cmd word n w\<close>: the commands \<open>cmd 0\<close> to \<open>cmd (n - 1)\<close> can be run from \<open>w\<close> with
  an output that contains \<open>word\<close> each time; the state after them.
\<close>

fun answers_again :: "device \<Rightarrow> (nat \<Rightarrow> string) \<Rightarrow> string \<Rightarrow> nat \<Rightarrow> world \<Rightarrow> world option" where
  "answers_again d cmd word 0 w = Some w"
| "answers_again d cmd word (Suc n) w = (case RunCommand d (cmd 0) w of
       (Ok out, w') \<Rightarrow> if Contains out word then answers_again d (\<lambda>n. cmd (Suc n)) word n w' else None
     | _ \<Rightarrow> None)"

abbreviation activity_command :: "start_activity_options \<Rightarrow> visit \<Rightarrow> string" where
  "activity_command opts visit \<equiv> Join '' '' (buildActivityCommandArgs visit opts ''am start'')"

abbreviation service_command :: "start_service_options \<Rightarrow> visit \<Rightarrow> string" where
  "service_command opts visit \<equiv> Join '' '' (buildServiceCommandArgs visit opts ''am startservice'')"

lemma user_not_in_command [simp]:
  "buildActivityCommandArgs visit (opts\<lparr>sa_User := u\<rparr>) base = buildActivityCommandArgs visit opts base"
  "buildServiceCommandArgs visit (sopts\<lparr>ss_User := u\<rparr>) base = buildServiceCommandArgs visit sopts base"
  by (simp_all add: buildActivityCommandArgs_def buildServiceCommandArgs_def)

lemma answers_again_ends:
  assumes "\<And>out w'. RunCommand d (cmd 0) w = (Ok out, w') \<Longrightarrow> Contains out word \<Longrightarrow>
    \<exists>n. answers_again d (\<lambda>n. cmd (Suc n)) word n w' = None"
  shows "\<exists>n. answers_again d cmd word n w = None"
proof (cases "RunCommand d (cmd 0) w")
  case (Pair r w')
  show ?thesis
  proof (cases "\<exists>out. r = Ok out \<and> Contains out word")
    case True
    with assms Pair obtain n where "answers_again d (\<lambda>n. cmd (Suc n)) word n w' = None" by auto
    with True Pair have "answers_again d cmd word (Suc n) w = None" by auto
    then show ?thesis by blast
  next
    case False
    with Pair have "answers_again d cmd word (Suc 0) w = None" by (cases r) auto
    then show ?thesis by blast
  qed
qed

lemma StartActivity_Some:
  assumes "StartActivity d visits opts w = Some y"
  shows "\<exists>n. answers_again d (\<lambda>n. activity_command opts (visits n)) ''No user'' n w = None"
  by (rule StartActivity.raw_induct [OF _ assms, where P = "\<lambda>d visits opts w y.
        \<exists>n. answers_again d (\<lambda>n. activity_command opts (visits n)) ''No user'' n w = None"])
    (rule answers_again_ends, fastforce)

lemma StartActivity_None:
  "answers_again d (\<lambda>n. activity_command opts (visits n)) ''No user'' n w = None \<Longrightarrow>
   \<exists>y. StartActivity d visits opts w = Some y"
proof (induction n arbitrary: visits opts w)
  case (Suc n)
  show ?case
  proof (cases "RunCommand d (activity_command opts (visits 0)) w")
    case (Pair r w')
    with Suc.prems Suc.IH [of "\<lambda>n. visits (Suc n)" "opts\<lparr>sa_User := 0\<rparr>" w'] show ?thesis
      by (cases r) (auto simp: StartActivity.simps [of d visits opts w] split: if_splits)
  qed
qed simp

lemma StartService_Some:
  assumes "StartService d visits opts w = Some y"
  shows "\<exists>n. answers_again d (\<lambda>n. service_command opts (visits n)) ''--user'' n w = None"
  by (rule StartService.raw_induct [OF _ assms, where P = "\<lambda>d visits opts w y.
        \<exists>n. answers_again d (\<lambda>n. service_command opts (visits n)) ''--user'' n w = None"])
    (rule answers_again_ends, fastforce)

lemma StartService_None:
  "answers_again d (\<lambda>n. service_command opts (visits n)) ''--user'' n w = None \<Longrightarrow>
   \<exists>y. StartService d visits opts w = Some y"
proof (induction n arbitrary: visits opts w)
  case (Suc n)
  show ?case
  proof (cases "RunCommand d (service_command opts (visits 0)) w")
    case (Pair r w')
    with Suc.prems Suc.IH [of "\<lambda>n. visits (Suc n)" "opts\<lparr>ss_User := - 1\<rparr>" w'] show ?thesis
      by (cases r) (auto simp: StartService.simps [of d visits opts w] split: if_splits)
  qed
qed simp

text \<open>A device without the asked-for user: every connection to it answers in the same way.\<close>

definition stubborn_device :: device where
  "stubborn_device = \<lparr>dev_client = \<lparr>connector = (\<lambda>w. (Ok (length (conns w)),
       w\<lparr>conns := conns w @ [demo_conn ''No user, see --user'']\<rparr>))\<rparr>, descriptor = AnyDevice\<rparr>"

lemma stubborn_answers: "\<exists>w'. RunCommand stubborn_device cmd w = (Ok ''No user, see --user'', w')"
proof -
  let ?c = "demo_conn ''No user, see --user''"
  have "dials_to stubborn_device w ?c (w\<lparr>conns := conns w @ [?c]\<rparr>)"
    by (simp add: dials_to_def stubborn_device_def Connection_def)
  moreover have "getTransportDescriptor (descriptor stubborn_device) = (ret ''transport-any'' :: (world, string) prog)"
    by (simp add: stubborn_device_def AnyDevice_def getTransportDescriptor_def)
  moreover have "in_end ?c = EOF" by (simp add: demo_conn_def)
  ultimately obtain c' where "RunCommand stubborn_device cmd w =
      (Ok (string_of (bytes_of ''No user, see --user'')), w\<lparr>conns := conns w @ [?c], conns := conns w @ [c']\<rparr>)"
    using RunCommand_via demo_conn_answers by blast
  then show ?thesis by (simp only: string_of_bytes_of) blast
qed

lemma stubborn_again:
  assumes "Contains ''No user, see --user'' word"
  shows "answers_again stubborn_device cmd word n w \<noteq> None"
proof (induction n arbitrary: cmd w)
  case (Suc n)
  obtain w' where "RunCommand stubborn_device (cmd 0) w = (Ok ''No user, see --user'', w')"
    using stubborn_answers by blast
  with Suc assms show ?case by simp
qed simp

text \<open>C30: when starting an activity or a service returns. The retry that is meant to change the
  user sends the command of the original options again, because the user is not part of the
  command; only the order of the extras may differ. So the call returns exactly when the
  device's output to that command at some point no longer contains the words that cause a
  retry; a device that keeps answering with them keeps the call in its loop for ever, whatever
  the options are.\<close>

theorem intent_retries_terminate_iff:
  "((\<exists>y. StartActivity d visits opts w = Some y) \<longleftrightarrow>
      (\<exists>n. answers_again d (\<lambda>k. Join '' '' (buildActivityCommandArgs (visits k) opts ''am start'')) ''No user'' n w = None)) \<and>
   ((\<exists>y. StartService d visits sopts w = Some y) \<longleftrightarrow>
      (\<exists>n. answers_again d (\<lambda>k. Join '' '' (buildServiceCommandArgs (visits k) sopts ''am startservice'')) ''--user'' n w = None)) \<and>
   StartActivity stubborn_device visits opts w = None \<and> StartService stubborn_device visits sopts w = None"
proof -
  have "Contains ''No user, see --user'' ''No user''" "Contains ''No user, see --user'' ''--user''"
    by (simp_all add: sublist_code)
  with stubborn_again have "StartActivity stubborn_device visits opts w = None"
    "StartService stubborn_device visits sopts w = None"
    using StartActivity_Some StartService_Some by (metis not_None_eq)+
  moreover have "(\<exists>y. StartActivity d visits opts w = Some y) \<longleftrightarrow>
      (\<exists>n. answers_again d (\<lambda>k. activity_command opts (visits k)) ''No user'' n w = None)"
    using StartActivity_None by (auto dest: StartActivity_Some)
  moreover have "(\<exists>y. StartService d visits sopts w = Some y) \<longleftrightarrow>
      (\<exists>n. answers_again d (\<lambda>k. service_command sopts (visits k)) ''--user'' n w = None)"
    using StartService_None by (auto dest: StartService_Some)
  ultimately show ?thesis by blast
qed

end
