(* ===== verification/Faults.thy ===== *)
theory Faults
  imports DeviceOps
begin

text \<open>
  How the request and reply layer behaves on replies that are not what a healthy server sends
  in one piece: a status word cut in two by the network, a length prefix with a sign, and a
  payload that breaks off.
\<close>

section \<open>Length prefixes\<close>

text \<open>
  The first four bytes of the stream, as a number: what \<^verbatim>\<open>strconv.ParseInt\<close> accepts includes a
  sign.
\<close>

definition prefix_value :: "conn \<Rightarrow> go_error + int" where
  "prefix_value c = parseHexInt (string_of (take 4 (pending c)))"

text \<open>C31: every outcome of reading a length-prefixed payload from a stream of at least four bytes.
  The payload is returned exactly when the prefix is a number \<open>n \<ge> 0\<close> and \<open>n\<close> more bytes follow; a
  stream that ends inside the payload or a prefix that is no number is an error; and a negative
  prefix, which is four bytes such as \<^verbatim>\<open>-001\<close>, makes the process panic.\<close>

theorem readLengthPrefixed_outcomes:
  assumes "\<not> isclosed c" and "4 \<le> length (pending c)"
  shows "(fst (readLengthPrefixed c) = Ok d \<longleftrightarrow>
       (\<exists>n. prefix_value c = Inr (int n) \<and> 4 + n \<le> length (pending c) \<and> d = take n (drop 4 (pending c)))) \<and>
     ((\<exists>p. fst (readLengthPrefixed c) = Panic p) \<longleftrightarrow> (\<exists>n. prefix_value c = Inr n \<and> n < 0)) \<and>
     ((\<exists>e. fst (readLengthPrefixed c) = Err e) \<longleftrightarrow>
       (\<exists>e. prefix_value c = Inl e) \<or> (\<exists>n. prefix_value c = Inr (int n) \<and> length (pending c) < 4 + n))"
proof (cases "prefix_value c")
  case (Inl e)
  with assms show ?thesis by (simp add: readLengthPrefixed_def prefix_value_def fail_def)
next
  case (Inr n)
  have r: "readLengthPrefixed c = (if n = 0 then (Ok [], advance 4 c) else if n < 0 then (Panic MakeSliceLen, advance 4 c)
      else ReadFull (nat n) (advance 4 c))"
    using Inr assms by (simp add: readLengthPrefixed_def prefix_value_def ret_def panic_def)
  show ?thesis
  proof (cases "n < 0")
    case True
    with r Inr show ?thesis by auto
  next
    case False
    then obtain m where m: "n = int m" by (metis nonneg_int_cases not_less)
    have "m \<le> length (pending c) - 4 \<longleftrightarrow> 4 + m \<le> length (pending c)" using assms(2) by linarith
    with r m Inr assms(1) show ?thesis by (cases "m = 0") (auto simp: ReadFull_eq not_le)
  qed
qed

theorem readLengthPrefixed_outcomes_witness:
  "\<exists>p. fst (readLengthPrefixed (new_conn [bytes_of ''-001'', [7]] EOF)) = Panic p"
proof -
  let ?c = "new_conn [bytes_of ''-001'', [7]] EOF"
  have v: "prefix_value ?c = Inr (- 1)"
  proof -
    have "take 4 (pending ?c) = bytes_of ''-001''" by simp
    then have "prefix_value ?c = parseHexInt ''-001''"
      unfolding prefix_value_def by (simp only: string_of_bytes_of)
    also have "\<dots> = Inr (- 1)" by (simp add: parseHexInt_def ParseInt_def digit_val_def)
    finally show ?thesis .
  qed
  have "\<not> isclosed ?c" "4 \<le> length (pending ?c)" by simp_all
  from readLengthPrefixed_outcomes [OF this] v show ?thesis by auto
qed

section \<open>Status words\<close>

lemma sendADBCommand_short:
  assumes "length seg \<le> 4" and "incoming c = seg # segs" and "\<not> isclosed c" and "room c = None"
  shows "\<exists>c'. sendADBCommand cmd c = (Ok (string_of (seg @ replicate (4 - length seg) 0)), c')"
  using assms by (simp add: sendADBCommand_def conn_Read_def ret_def)

lemma sendADBCommand_not_segment_free: "\<not> segment_free (sendADBCommand cmd)"
proof
  assume sf: "segment_free (sendADBCommand cmd)"
  let ?c = "new_conn [bytes_of ''OKAY''] EOF" and ?d = "new_conn [bytes_of ''OK'', bytes_of ''AY''] EOF"
  have "same_stream ?c ?d" by (simp add: same_stream_def)
  with sf have "fst (sendADBCommand cmd ?c) = fst (sendADBCommand cmd ?d)" by (rule obliviousE) simp
  moreover have "incoming ?c = bytes_of ''OKAY'' # []" "incoming ?d = bytes_of ''OK'' # [bytes_of ''AY'']"
    by (simp_all only: new_conn_def conn.simps)
  then obtain c' d' where "sendADBCommand cmd ?c = (Ok (string_of (bytes_of ''OKAY'' @ replicate 0 0)), c')"
    "sendADBCommand cmd ?d = (Ok (string_of (bytes_of ''OK'' @ [0, 0])), d')"
    using sendADBCommand_short [of "bytes_of ''OKAY''" ?c "[]" cmd]
      sendADBCommand_short [of "bytes_of ''OK''" ?d "[bytes_of ''AY'']" cmd]
    by (auto simp: numeral_2_eq_2)
  ultimately show False by simp
qed

text \<open>C35: \<^verbatim>\<open>sendADBCommand\<close> depends on how the network cuts the reply. The status word is read with a
  single \<^verbatim>\<open>Read\<close>: a status whose first piece is shorter is cut off after that piece and filled up
  with zero bytes, so the same reply of a server is taken for different status words. Selecting
  a device then does not succeed, although the server may have accepted it.\<close>

theorem sendADBCommand_depends_on_segments:
  assumes "incoming c = seg # segs" and "length seg < 4" and "\<not> isclosed c" and "room c = None"
    and "dials_to d w c w1" and "getTransportDescriptor (descriptor d) = (ret t :: (world, string) prog)"
  shows "fst (sendADBCommand cmd c) = Ok (string_of (seg @ replicate (4 - length seg) 0)) \<and>
     \<not> segment_free (sendADBCommand cmd) \<and> (\<forall>h. fst (Transport d w) \<noteq> Ok h)"
proof (intro conjI)
  let ?status = "string_of (seg @ replicate (4 - length seg) 0)"
  show "fst (sendADBCommand cmd c) = Ok ?status"
    using sendADBCommand_short [of seg c segs cmd] assms(1-4) by auto
  show "\<not> segment_free (sendADBCommand cmd)" by (rule sendADBCommand_not_segment_free)
  have "last (seg @ replicate (4 - length seg) 0) = 0" using assms(2) by simp
  moreover have "last (bytes_of StatusOkay) \<noteq> 0" by (simp add: StatusOkay_def)
  ultimately have status: "?status \<noteq> StatusOkay" by (metis bytes_of_string_of)
  obtain c' where "sendADBCommand (''host:'' @ t) c = (Ok ?status, c')"
    using sendADBCommand_short [of seg c segs] assms(1-4) by auto
  with assms(5) have "on_conn (length (conns w)) (sendADBCommand (''host:'' @ t)) w1 =
      (Ok ?status, w1\<lparr>conns := conns w @ [c']\<rparr>)"
    by (intro on_conn_last [where c = c]) (simp_all add: dials_to_def)
  with assms(5,6) status show "\<forall>h. fst (Transport d w) \<noteq> Ok h"
    by (auto simp: Transport_def dials_to_def attempt_def andThen_def fail_def close_conn_def
        split: prod.splits result.splits)
qed

theorem sendADBCommand_depends_on_segments_witness:
  "fst (sendADBCommand ''host:version'' (new_conn [bytes_of ''OKA'', bytes_of ''Y''] EOF)) = Ok (''OKA'' @ [CHR 0x00]) \<and>
   (\<forall>h. fst (Transport demo_device (new_world [Inr (new_conn [bytes_of ''OKA'', bytes_of ''Y''] EOF)])) \<noteq> Ok h)"
proof -
  let ?c = "new_conn [bytes_of ''OKA'', bytes_of ''Y''] EOF"
  have c: "incoming ?c = bytes_of ''OKA'' # [bytes_of ''Y'']" "length (bytes_of ''OKA'') < 4" "\<not> isclosed ?c" "room ?c = None"
    by (simp_all add: new_conn_def)
  have "dials (new_world [Inr ?c]) = Inr ?c # []" by (simp add: new_world_def)
  from sendADBCommand_depends_on_segments [OF c dials_to_autoStart [OF demo_device_facts(1) this] demo_device_facts(2),
      of "''host:version''"]
  have "fst (sendADBCommand ''host:version'' ?c) = Ok (string_of (bytes_of ''OKA'' @ replicate (4 - length (bytes_of ''OKA'')) 0))"
    "\<forall>h. fst (Transport demo_device (new_world [Inr ?c])) \<noteq> Ok h" by simp_all
  moreover have "string_of (bytes_of ''OKA'' @ replicate (4 - length (bytes_of ''OKA'')) 0) = ''OKA'' @ [CHR 0x00]"
    by code_simp
  ultimately show ?thesis by simp
qed

section \<open>Replies that break off\<close>

text \<open>C36: a host command whose reply breaks off is reported as a success. When the server's
  connection ends inside the payload, the command returns an empty payload and no error: an end
  of stream is not one of the network errors that are passed on, and the bytes that had arrived
  are lost. So \<^verbatim>\<open>ListDevices\<close> returns an empty list when the list of devices was cut off.\<close>

theorem truncated_reply_is_success:
  assumes "connector cl = autoStart_Connection host port bin" and "dials w = Inr c # ds"
    and "answers c StatusOkay (bytes_of (hex4 n) @ part)" and "length part < n" and "n < 65536"
    and "in_end c = EOF" and "ctx_Err ctx = None"
  shows "fst (SendHostCommandContext cl ctx cmd w) = Ok [] \<and> fst (ListDevices cl None w) = Ok []"
proof -
  have ex: "\<exists>c'. host_exchange ctx' cmd' c = (Ok [], c')" if "ctx_Err ctx' = None" for ctx' cmd'
  proof -
    let ?c = "(advance 4 c)\<lparr>outgoing := outgoing c @ frame cmd'\<rparr>"
    have p: "pending ?c = bytes_of (hex4 n) @ part" "\<not> isclosed ?c"
      using assms(3) by (auto simp: answers_def)
    have l4: "length (hex4 n) = 4" using assms(5) by (rule length_hex4)
    with arg_cong [OF p(1), of length] have "length (pending c) - 4 = 4 + length part" by simp
    with l4 p assms(4-6) have "\<exists>e. readLengthPrefixed ?c = (Err e, drained (advance 4 ?c)) \<and> (e = EOF \<or> e = ErrUnexpectedEOF)"
      by (auto simp: readLengthPrefixed_def parseHexInt_def ReadFull_eq)
    then obtain e where "readLengthPrefixed ?c = (Err e, drained (advance 4 ?c))" "\<not> is_net_error e" by auto
    with sendADBCommand_word [OF assms(3), of cmd'] that p(2) show ?thesis
      by (simp add: host_exchange_def status_defs ret_def)
  qed
  have "fst (SendHostCommandContext cl ctx' cmd' w) = Ok []" if "ctx_Err ctx' = None" for ctx' cmd'
  proof -
    let ?w = "w\<lparr>dialled := dialled w @ [connector_addr host port], dials := ds, conns := conns w @ [c]\<rparr>"
    from ex [OF that] obtain c' where "host_exchange ctx' cmd' c = (Ok [], c')" by blast
    then have "on_conn (length (conns w)) (host_exchange ctx' cmd') ?w = (Ok [], ?w\<lparr>conns := conns w @ [c']\<rparr>)"
      by (simp add: on_conn_def)
    moreover have "Connection cl w = (Ok (length (conns w)), ?w)"
      using assms(1,2) autoStart_connects by (simp add: Connection_def)
    moreover have "(if has_deadline ctx' then on_conn (length (conns w)) conn_SetDeadline else ret ()) ?w = (Ok (), ?w)"
      using assms(3) by (simp add: on_conn_def conn_SetDeadline_def ret_def answers_def)
    ultimately show ?thesis by (simp add: SendHostCommandContext_def deferring_def)
  qed
  moreover from this have "fst (SendHostCommand cl None ''host:devices'' w) = Ok []"
    by (simp add: SendHostCommand_def with_timeout_def)
  then have "fst (ListDevices cl None w) = Ok []"
    by (cases "SendHostCommand cl None ''host:devices'' w") (simp add: ListDevices_def ret_def)
  ultimately show ?thesis using assms(7) by blast
qed

theorem truncated_reply_is_success_witness:
  "fst (ListDevices (dev_client demo_device) None
     (new_world [Inr (new_conn [bytes_of ''OKAY'', bytes_of (hex4 21), bytes_of ''emulator-5554''] EOF)])) = Ok []"
proof -
  let ?c = "new_conn [bytes_of ''OKAY'', bytes_of (hex4 21), bytes_of ''emulator-5554''] EOF"
  have "answers ?c StatusOkay (bytes_of (hex4 21) @ bytes_of ''emulator-5554'')"
    by (simp add: answers_def StatusOkay_def) (simp add: new_conn_def)
  moreover have "dials (new_world [Inr ?c]) = Inr ?c # []" by (simp add: new_world_def)
  moreover have "length (bytes_of ''emulator-5554'') < 21" "(21 :: nat) < 65536" "in_end ?c = EOF" "ctx_Err background = None"
    by (simp_all add: background_def)
  ultimately show ?thesis using truncated_reply_is_success [OF demo_device_facts(1)] by blast
qed

end
