(* ===== verification/Listings.thy ===== *)
theory Listings
  imports DeviceOps
begin

text \<open>
  The textual listings of the adb server and the device (devices, forwards, packages,
  properties) and addresses: what is printed in the documented form of one line per entry is
  parsed back to exactly the entries, through the whole operation that asks for it.
\<close>

section \<open>Lines\<close>

definition lines_of :: "string list \<Rightarrow> string" where
  "lines_of ls = concat (map (\<lambda>l. l @ [CHR 0x0A]) ls)"

text \<open>A line that starts and ends with a printable character and has no line end in it.\<close>

definition clean_line :: "string \<Rightarrow> bool" where
  "clean_line l \<longleftrightarrow> l \<noteq> [] \<and> graphic_char (hd l) \<and> graphic_char (last l) \<and> CHR 0x0A \<notin> set l"

lemma lines_of_Join: "ls \<noteq> [] \<Longrightarrow> lines_of ls = Join [CHR 0x0A] ls @ [CHR 0x0A]"
  by (induction "[CHR 0x0A]" ls rule: Join.induct) (auto simp: lines_of_def)

lemma Join_ends:
  "list_all clean_line ls \<Longrightarrow> ls \<noteq> [] \<Longrightarrow>
   Join [CHR 0x0A] ls \<noteq> [] \<and> hd (Join [CHR 0x0A] ls) = hd (hd ls) \<and> last (Join [CHR 0x0A] ls) = last (last ls)"
  by (induction "[CHR 0x0A]" ls rule: Join.induct) (auto simp: clean_line_def)

lemma trim_left_graphic_hd: "s \<noteq> [] \<Longrightarrow> graphic_char (hd s) \<Longrightarrow> trim_left s = s"
  by (cases s) (simp_all add: trim_left_graphic)

lemma TrimSpace_newline:
  assumes "s \<noteq> []" and "graphic_char (hd s)" and "graphic_char (last s)"
  shows "TrimSpace (s @ [CHR 0x0A]) = s"
proof -
  have "trim_left (s @ [CHR 0x0A]) = s @ [CHR 0x0A]" using assms by (intro trim_left_graphic_hd) auto
  moreover have "trim_right (s @ [CHR 0x0A]) = trim_right s" using trim_right_newline [of s] by simp
  moreover have "trim_right s = s"
    using trim_right_graphic [of "last s" "butlast s"] assms by simp
  ultimately show ?thesis by (simp add: TrimSpace_def)
qed

lemma TrimSpace_lines:
  assumes "list_all clean_line ls"
  shows "Split (CHR 0x0A) (TrimSpace (lines_of ls)) = (if ls = [] then [''''] else ls)"
proof (cases "ls = []")
  case False
  have "clean_line (hd ls)" "clean_line (last ls)" using assms False by (auto simp: list_all_iff)
  then have "TrimSpace (lines_of ls) = Join [CHR 0x0A] ls"
    using Join_ends [OF assms False] lines_of_Join [OF False] TrimSpace_newline
    by (auto simp: clean_line_def)
  moreover have "\<forall>l \<in> set ls. CHR 0x0A \<notin> set l" using assms by (auto simp: list_all_iff clean_line_def)
  ultimately show ?thesis using False Split_Join by simp
qed (simp add: lines_of_def)

lemma Split_lines:
  "list_all (\<lambda>l. CHR 0x0A \<notin> set l) ls \<Longrightarrow> Split (CHR 0x0A) (lines_of ls) = ls @ ['''']"
  by (induction ls) (auto simp: lines_of_def Split_append)

lemma TrimSpace_clean: "clean_line l \<Longrightarrow> TrimSpace l = l"
  by (rule TrimSpace_ends) (auto simp: clean_line_def)

section \<open>Devices and forwards\<close>

definition device_line :: "device_info \<Rightarrow> string" where
  "device_line i = Serial i @ [CHR 0x09] @ State i"

definition plain_device :: "device_info \<Rightarrow> bool" where
  "plain_device i \<longleftrightarrow> graphic (Serial i) \<and> graphic (State i)"

lemma graphic_clean: "graphic s \<Longrightarrow> CHR 0x0A \<notin> set s"
  using graphic_no_newline by blast

lemma clean_words:
  "graphic a \<Longrightarrow> graphic b \<Longrightarrow> CHR 0x0A \<notin> set m \<Longrightarrow> clean_line (a @ m @ b)"
  by (auto simp: clean_line_def graphic_def list_all_iff graphic_char_def dest: bspec)

lemma clean_device: "plain_device i \<Longrightarrow> clean_line (device_line i)"
  unfolding device_line_def plain_device_def by (intro clean_words) auto

lemma device_lines_parse:
  "list_all plain_device is \<Longrightarrow> device_lines (map device_line is) = is"
proof (induction "is")
  case (Cons i "is")
  then have "Fields (device_line i) = [Serial i, State i]"
    by (simp add: device_line_def plain_device_def Fields_word_blank Fields_word)
  with Cons show ?case by (auto simp: plain_device_def graphic_def device_line_def)
qed simp

lemma ListDevices_Ok:
  assumes "connector cl = autoStart_Connection host port bin" and "dials w = Inr c # ds"
    and "answers c StatusOkay (hex_frame (bytes_of (lines_of (map device_line is))) @ rest)"
    and "list_all plain_device is" and "length (lines_of (map device_line is)) < 65536"
  shows "\<exists>w' c'. ListDevices cl late w = (Ok is, w') \<and> dials w' = ds \<and> conns w' = conns w @ [c'] \<and>
    isclosed c' \<and> outgoing c' = outgoing c @ frame ''host:devices''"
proof -
  have "list_all clean_line (map device_line is)"
    using assms(4) by (auto simp: list_all_iff intro: clean_device)
  note split = TrimSpace_lines [OF this]
  obtain w' c' where "SendHostCommand cl late ''host:devices'' w = (Ok (bytes_of (lines_of (map device_line is))), w')"
    "dials w' = ds" "conns w' = conns w @ [c']" "isclosed c'" "outgoing c' = outgoing c @ frame ''host:devices''"
    using SendHostCommandContext_Ok [OF assms(1-3)] assms(5) unfolding SendHostCommand_def length_bytes_of by blast
  then show ?thesis
    using split device_lines_parse [OF assms(4)] by (auto simp: ListDevices_def ret_def)
qed

definition forward_line :: "forward_entry \<Rightarrow> string" where
  "forward_line e = fwd_Serial e @ '' '' @ fwd_Local e @ '' '' @ fwd_Remote e"

definition plain_forward :: "forward_entry \<Rightarrow> bool" where
  "plain_forward e \<longleftrightarrow> graphic (fwd_Serial e) \<and> graphic (fwd_Local e) \<and> graphic (fwd_Remote e)"

lemma clean_forward: "plain_forward e \<Longrightarrow> clean_line (forward_line e)"
  using clean_words [of "fwd_Serial e" "fwd_Remote e" "'' '' @ fwd_Local e @ '' ''"] graphic_clean
  by (auto simp: forward_line_def plain_forward_def)

lemma forward_lines_parse:
  "list_all plain_forward es \<Longrightarrow> forward_lines (map forward_line es) = es"
proof (induction es)
  case (Cons e es)
  then have "Fields (forward_line e) = [fwd_Serial e, fwd_Local e, fwd_Remote e]"
    by (simp add: forward_line_def plain_forward_def Fields_word_blank Fields_word)
  with Cons show ?case by simp
qed simp

text \<open>C21: the listings of the adb server are read back exactly. When the server answers
  \<^verbatim>\<open>host:devices\<close> or \<^verbatim>\<open>host:list-forward\<close> with one line per entry, \<^verbatim>\<open>ListDevices\<close> and \<^verbatim>\<open>ListForwards\<close>
  return the entries, all of them and in order, also when there are none.\<close>

theorem listings_roundtrip:
  assumes "connector cl = autoStart_Connection host port bin" and "dials w = Inr c # ds"
    and "answers c StatusOkay (hex_frame (bytes_of (lines_of (map device_line is))) @ rest)"
    and "list_all plain_device is" and "length (lines_of (map device_line is)) < 65536"
    and "dials v = Inr e # fs"
    and "answers e StatusOkay (hex_frame (bytes_of (lines_of (map forward_line es))) @ rest')"
    and "list_all plain_forward es" and "length (lines_of (map forward_line es)) < 65536"
  shows "fst (ListDevices cl late w) = Ok is \<and> fst (ListForwards cl late v) = Ok es"
proof
  show "fst (ListDevices cl late w) = Ok is" using ListDevices_Ok [OF assms(1-5)] by (metis fst_conv)
next
  have cl: "list_all clean_line (map forward_line es)"
    using assms(8) by (auto simp: list_all_iff intro: clean_forward)
  note split = TrimSpace_lines [OF this]
  obtain v' where "SendHostCommand cl late ''host:list-forward'' v = (Ok (bytes_of (lines_of (map forward_line es))), v')"
    using SendHostCommandContext_Ok [OF assms(1,6,7)] assms(9) unfolding SendHostCommand_def length_bytes_of by blast
  moreover have "TrimSpace (lines_of (map forward_line es)) = '''' \<longleftrightarrow> es = []"
  proof (cases "es = []")
    case False
    then obtain e es' where es: "es = e # es'" by (cases es) auto
    have "TrimSpace (lines_of (map forward_line es)) = '''' \<Longrightarrow> map forward_line es = ['''']"
      using split False by simp
    then show ?thesis using es assms(8) by (auto simp: forward_line_def plain_forward_def graphic_def)
  qed (simp add: lines_of_def)
  ultimately show "fst (ListForwards cl late v) = Ok es"
    using split forward_lines_parse [OF assms(8)] by (auto simp: ListForwards_def Let_def ret_def)
qed

section \<open>Packages and properties\<close>

lemma package_lines_parse:
  "list_all graphic ps \<Longrightarrow> package_lines (map (\<lambda>p. ''package:'' @ p) ps @ ['''']) = ps"
proof (induction ps)
  case (Cons p ps)
  then have "graphic (''package:'' @ p)" by (auto simp: graphic_def graphic_char_def)
  then have "TrimSpace (''package:'' @ p) = ''package:'' @ p" by (rule TrimSpace_graphic)
  with Cons show ?case by (simp add: TrimPrefix_def)
qed simp

text \<open>A property as \<^verbatim>\<open>getprop\<close> prints it. The key has no \<^verbatim>\<open>]:\<close> and no blank at an end.\<close>

definition prop_line :: "string \<times> string \<Rightarrow> string" where
  "prop_line = (\<lambda>(k, v). ''['' @ k @ '']: ['' @ v @ '']'')"

definition plain_prop :: "string \<times> string \<Rightarrow> bool" where
  "plain_prop = (\<lambda>(k, v). graphic k \<and> CHR '']'' \<notin> set k \<and> CHR 0x0A \<notin> set v)"

lemma Index_skip: "CHR '']'' \<notin> set k \<Longrightarrow> Index (k @ '']:'' @ r) '']:'' = Some (length k)"
  by (induction k) auto

lemma dropWhile_graphic: "graphic k \<Longrightarrow> dropWhile (\<lambda>c. c = CHR 0x20) k = k"
  by (cases k) (auto simp: graphic_def graphic_char_def)

lemma TrimBlank_graphic: "graphic k \<Longrightarrow> TrimBlank k = k"
  by (simp add: TrimBlank_def dropWhile_graphic [of "rev k"] dropWhile_graphic graphic_def)

lemma trim_left_blank: "trim_left (CHR 0x20 # s) = trim_left s"
  by (subst trim_left.simps) (simp add: space_len_ascii)

lemma getprop_line_parse:
  assumes "plain_prop (k, v)"
  shows "getprop_line (prop_line (k, v)) = Some (k, v)"
proof -
  let ?l = "prop_line (k, v)" and ?r = "''['' @ v @ '']''"
  have "TrimSpace ?l = ?l"
    by (rule TrimSpace_ends) (simp_all add: prop_line_def graphic_char_def)
  moreover have "Index ?l '']:'' = Some (Suc (length k))"
    using Index_skip [of k "'' ['' @ v @ '']''"] assms by (simp add: prop_line_def plain_prop_def)
  moreover have "TrimSpace ('' '' @ ?r) = ?r"
  proof -
    have "trim_left ?r = ?r" by (rule trim_left_graphic_hd) (simp_all add: graphic_char_def)
    moreover have "trim_right ?r = ?r"
      using trim_right_graphic [of "CHR '']''" "''['' @ v"] by (simp add: graphic_char_def)
    ultimately show ?thesis by (simp add: TrimSpace_def trim_left_blank)
  qed
  moreover have "HasSuffix ?r '']''" by (simp add: suffix_def)
  moreover have "TrimBlank k = k" using assms by (simp add: plain_prop_def TrimBlank_graphic)
  ultimately show ?thesis
    by (simp add: getprop_line_def Let_def prop_line_def)
qed

lemma parseGetpropOutput_lines:
  assumes "list_all plain_prop kvs"
  shows "parseGetpropOutput (lines_of (map prop_line kvs)) = map_of (rev kvs)"
proof -
  have nl: "CHR 0x0A \<notin> set (prop_line kv)" if "plain_prop kv" for kv
    using that by (cases kv) (auto simp: prop_line_def plain_prop_def dest: graphic_clean)
  define upd where "upd = (\<lambda>props line. case getprop_line line of
     None \<Rightarrow> props | Some (key, rest) \<Rightarrow> props(key \<mapsto> rest))"
  have "foldl upd m (map prop_line kvs) = m ++ map_of (rev kvs)" for m
    using assms
  proof (induction kvs arbitrary: m)
    case (Cons kv kvs)
    obtain k v where kv: "kv = (k, v)" by (cases kv)
    with Cons.prems have "upd m (prop_line kv) = m(k \<mapsto> v)"
      using getprop_line_parse [of k v] by (simp add: upd_def)
    with Cons kv show ?case by (simp add: map_add_def fun_eq_iff split: option.split)
  qed simp
  moreover have "upd m '''' = m" for m by (simp add: upd_def getprop_line_def)
  moreover have "Split (CHR 0x0A) (lines_of (map prop_line kvs)) = map prop_line kvs @ ['''']"
    using assms nl by (intro Split_lines) (auto simp: list_all_iff)
  ultimately show ?thesis by (simp add: parseGetpropOutput_def upd_def [symmetric])
qed

text \<open>C22: the listings of the device are read back exactly. When \<^verbatim>\<open>getprop\<close> prints one line per
  property, \<^verbatim>\<open>Properties\<close> returns the map of the properties, the last value winning for a key that
  occurs twice; when \<^verbatim>\<open>pm list packages\<close> prints one line per package, \<^verbatim>\<open>GetPackages\<close> returns the
  packages in order.\<close>

theorem device_listings_roundtrip:
  assumes "connector (dev_client d) = autoStart_Connection host port bin"
    and "getTransportDescriptor (descriptor d) = (ret t :: (world, string) prog)"
    and "dials w = Inr c # ds" and "in_end c = EOF"
    and "answers c StatusOkay (bytes_of StatusOkay @ bytes_of (lines_of (map prop_line kvs)))"
    and "list_all plain_prop kvs"
    and "dials v = Inr e # fs" and "in_end e = EOF"
    and "answers e StatusOkay (bytes_of StatusOkay @ bytes_of (lines_of (map (\<lambda>p. ''package:'' @ p) ps)))"
    and "list_all graphic ps"
  shows "fst (Properties d w) = Ok (map_of (rev kvs)) \<and> fst (GetPackages d v) = Ok ps"
proof
  obtain w' where "RunCommand d ''getprop'' w = (Ok (lines_of (map prop_line kvs)), w')"
    using RunCommand_via [OF dials_to_autoStart [OF assms(1,3)] assms(2,5,4), of "''getprop''"] by auto
  then show "fst (Properties d w) = Ok (map_of (rev kvs))"
    using parseGetpropOutput_lines [OF assms(6)] by (simp add: Properties_def ret_def)
next
  let ?out = "lines_of (map (\<lambda>p. ''package:'' @ p) ps)"
  let ?c = "(advance 8 e)\<lparr>outgoing := outgoing e @ frame (''host:'' @ t) @ frame (''shell:'' @ ''pm list packages'')\<rparr>"
  have "ReadAll ?c = (Ok (bytes_of ?out), drained ?c)"
    using assms(8,9) by (simp add: ReadAll_eq answers_def StatusOkay_def)
  moreover have "Split (CHR 0x0A) ?out = map (\<lambda>p. ''package:'' @ p) ps @ ['''']"
    using assms(10) by (intro Split_lines) (auto simp: list_all_iff dest: graphic_clean)
  ultimately show "fst (GetPackages d v) = Ok ps"
    using Shell_via [OF dials_to_autoStart [OF assms(1,7)] assms(2,9), of "''pm list packages''"]
      package_lines_parse [OF assms(10)]
    by (simp add: GetPackages_def ReadAllFromConn_def deferring_def on_conn_last [OF _ refl] close_conn_def
        on_conn_def conn_Close_def ret_def del: bytes_of_Cons)
qed

definition demo_reply :: "string \<Rightarrow> conn" where
  "demo_reply payload = new_conn [bytes_of ''OKAY'', hex_frame (bytes_of payload)] EOF"

lemma demo_reply_answers: "answers (demo_reply payload) StatusOkay (hex_frame (bytes_of payload) @ [])"
  by (simp add: answers_def demo_reply_def StatusOkay_def) (simp add: new_conn_def)

theorem listings_roundtrip_witness:
  "fst (ListDevices (dev_client demo_device) None (new_world [Inr (demo_reply (lines_of [''emulator-5554'' @ [CHR 0x09] @ ''device'']))]))
     = Ok [\<lparr>Serial = ''emulator-5554'', State = ''device''\<rparr>] \<and>
   fst (ListForwards (dev_client demo_device) None (new_world [Inr (demo_reply '''')])) = Ok []"
proof -
  let ?is = "[\<lparr>Serial = ''emulator-5554'', State = ''device''\<rparr>]"
  have "list_all plain_device ?is" "length (lines_of (map device_line ?is)) < 65536"
    "lines_of (map device_line ?is) = lines_of [''emulator-5554'' @ [CHR 0x09] @ ''device'']"
    by (simp_all add: plain_device_def graphic_def graphic_char_def lines_of_def device_line_def)
  moreover have "lines_of (map forward_line []) = ''''" by (simp add: lines_of_def)
  ultimately show ?thesis
    using listings_roundtrip [OF demo_device_facts(1) _ demo_reply_answers, of "new_world [Inr (demo_reply (lines_of (map device_line ?is)))]" ?is "[]"
        "new_world [Inr (demo_reply (lines_of (map forward_line [])))]" "demo_reply (lines_of (map forward_line []))" "[]" "[]" "[]"]
      demo_reply_answers [of "lines_of (map forward_line [])"]
    by (simp add: new_world_def del: bytes_of_Cons)
qed

theorem device_listings_roundtrip_witness:
  "fst (Properties demo_device (new_world [Inr (demo_conn (lines_of [''[a.b]: [1 2]'', ''[a.b]: []'']))]))
     = Ok (map_of [(''a.b'', ''''), (''a.b'', ''1 2'')]) \<and>
   fst (GetPackages demo_device (new_world [Inr (demo_conn (lines_of [''package:x.y'']))])) = Ok [''x.y'']"
proof -
  let ?kvs = "[(''a.b'', ''1 2''), (''a.b'', '''')]"
  have "list_all plain_prop ?kvs" "map prop_line ?kvs = [''[a.b]: [1 2]'', ''[a.b]: []'']" "list_all graphic [''x.y'']"
    "map (\<lambda>p. ''package:'' @ p) [''x.y''] = [''package:x.y'']"
    by (simp_all add: plain_prop_def graphic_def graphic_char_def prop_line_def)
  moreover have "in_end (demo_conn x) = EOF" "dials (new_world [Inr (demo_conn x)]) = Inr (demo_conn x) # []" for x
    by (simp_all add: demo_conn_def new_world_def)
  ultimately show ?thesis
    using device_listings_roundtrip [OF demo_device_facts, of "new_world [Inr (demo_conn (lines_of (map prop_line ?kvs)))]"
        "demo_conn (lines_of (map prop_line ?kvs))" "[]" ?kvs
        "new_world [Inr (demo_conn (lines_of (map (\<lambda>p. ''package:'' @ p) [''x.y''])))]"
        "demo_conn (lines_of (map (\<lambda>p. ''package:'' @ p) [''x.y'']))" "[]" "[''x.y'']"]
      demo_conn_answers by simp
qed

section \<open>Addresses\<close>

lemma dropWhile_takeWhile_colon:
  "CHR '':'' \<notin> set h \<Longrightarrow> takeWhile (\<lambda>c. c \<noteq> CHR '':'') (h @ CHR '':'' # r) = h \<and>
   dropWhile (\<lambda>c. c \<noteq> CHR '':'') (h @ CHR '':'' # r) = CHR '':'' # r"
  by (induction h) auto

lemma Contains_char: "Contains s [c] \<longleftrightarrow> c \<in> set s"
  by (auto simp: sublist_def in_set_conv_decomp)

text \<open>C23: addresses. A host and a port print and parse back to themselves, a host without a port
  gets the default port, and so \<^verbatim>\<open>Connect\<close> asks the server for exactly the address it was given,
  and \<^verbatim>\<open>Connect\<close> and \<^verbatim>\<open>Disconnect\<close> ask for port 5555 when they were given none; an address whose
  port is not a number is an error before anything is sent.\<close>

theorem Connect_address:
  assumes "CHR '':'' \<notin> set host" and "port < 2 ^ 63"
    and "\<And>n. Atoi bad \<noteq> Inr n"
  shows "ParseHostPort (host @ '':'' @ dec port) df = Inr (host, int port) \<and>
     ParseHostPort host df = Inr (host, df) \<and>
     ConnectContext c ctx (host @ '':'' @ dec port) =
       andThen (SendHostCommandContext c ctx (''host:connect:'' @ host @ '':'' @ dec port))
         (\<lambda>payload. ret (TrimSpace (string_of payload))) \<and>
     ConnectContext c ctx host =
       andThen (SendHostCommandContext c ctx (''host:connect:'' @ host @ '':5555''))
         (\<lambda>payload. ret (TrimSpace (string_of payload))) \<and>
     DisconnectContext c ctx host =
       andThen (SendHostCommandContext c ctx (''host:disconnect:'' @ host @ '':5555''))
         (\<lambda>payload. ret (TrimSpace (string_of payload))) \<and>
     (\<exists>e. ConnectContext c ctx (host @ '':'' @ bad) = fail e)"
proof -
  have p: "ParseHostPort (host @ '':'' @ r) df = (case Atoi r of Inl err \<Rightarrow> Inl err | Inr p \<Rightarrow> Inr (host, p))" for r df
    using dropWhile_takeWhile_colon [OF assms(1), of r] by (simp add: ParseHostPort_def Contains_char Let_def)
  moreover have "ParseHostPort host df = Inr (host, df)" for df
    using assms(1) by (simp add: ParseHostPort_def Contains_char)
  moreover have "dec_int (int port) = dec port" by (simp add: dec_int_def)
  moreover have "dec_int 5555 = ''5555''"
    by (simp add: dec_int_def dec_def digits.simps digit_char_def char_of_def bit_simps)
  moreover obtain e where "Atoi bad = Inl e" using assms(3) by (cases "Atoi bad") auto
  ultimately show ?thesis
    using assms(2) by (auto simp: ConnectContext_def DisconnectContext_def)
qed

theorem Connect_address_witness:
  "ParseHostPort (''10.0.0.2'' @ '':'' @ dec 5555) 7 = Inr (''10.0.0.2'', 5555) \<and>
   ParseHostPort ''10.0.0.2'' 7 = Inr (''10.0.0.2'', 7) \<and>
   (\<exists>e. ConnectContext (dev_client demo_device) background (''10.0.0.2'' @ '':'' @ ''x'') = fail e)"
proof -
  have bad: "Atoi ''x'' \<noteq> Inr n" for n
    by (simp add: ParseInt_def digit_val_def)
  have port: "(5555 :: nat) < 2 ^ 63" and host: "CHR '':'' \<notin> set ''10.0.0.2''" by simp_all
  from Connect_address [OF host port bad] show ?thesis by (simp only: of_nat_numeral simp_thms)
qed

end
