(* ===== verification/Tracking.thy ===== *)
theory Tracking
  imports Listings
begin

text \<open>
  \<^verbatim>\<open>TrackDevicesWithCallback\<close> of \<^verbatim>\<open>adb/client_commands.go\<close> with the scanner of
  \<^verbatim>\<open>adb/device_commands.go\<close>: the lines of the server's stream are parsed one by one and handed to a
  callback. The model returns the arguments of the callback in order, together with the error
  the function returns. \<open>scan_lines\<close> is \<^verbatim>\<open>bufio.Scanner\<close> with its line splitter on the bytes of the
  stream: a line ends at a line feed, a carriage return before it is dropped, the last line
  needs no line feed, and a line that does not fit the buffer of 65536 bytes is an error.
\<close>

section \<open>Scanning lines\<close>

definition dropCR :: "bytes \<Rightarrow> bytes" where
  "dropCR l = (if l \<noteq> [] \<and> last l = 0x0D then butlast l else l)"

definition max_token :: nat where
  "max_token = 65536"

function scan_lines :: "bytes \<Rightarrow> bytes list \<times> bool" where
  "scan_lines d =
     (if d = [] then ([], False)
      else let l = takeWhile (\<lambda>b. b \<noteq> 0x0A) d in
        if max_token \<le> length l then ([], True)
        else if length l < length d
        then (case scan_lines (drop (Suc (length l)) d) of (ls, tooLong) \<Rightarrow> (dropCR l # ls, tooLong))
        else ([dropCR l], False))"
  by pat_completeness auto
termination
  by (relation "measure length") auto

declare scan_lines.simps [simp del]

definition ErrTooLong :: go_error where
  "ErrTooLong = Errorf ''bufio.Scanner: token too long''"

text \<open>
  \<^verbatim>\<open>newScanner(conn)\<close> read to its end: the tokens, and what \<^verbatim>\<open>Err()\<close> answers afterwards.
\<close>

definition newScanner :: "(conn, bytes list \<times> go_error option) prog" where
  "newScanner c = (case read_all_loop [] c of ((b, e), c') \<Rightarrow>
     (case scan_lines b of (ls, tooLong) \<Rightarrow>
        (Ok (ls, if tooLong then Some ErrTooLong else e), c')))"

fun callback_args :: "bytes list \<Rightarrow> device_info list list" where
  "callback_args [] = []"
| "callback_args (t # ts) =
     (let line = TrimSpace (string_of t) in
      if line = '''' then callback_args ts else parseDevicesList line # callback_args ts)"

definition TrackDevicesWithCallback :: "client \<Rightarrow> (world, device_info list list \<times> go_error option) prog" where
  "TrackDevicesWithCallback c =
     andThen (TrackDevices c) (\<lambda>conn.
     deferring (close_conn conn)
       (andThen (on_conn conn newScanner) (\<lambda>(tokens, err). ret (callback_args tokens, err))))"

section \<open>What the callback sees\<close>

lemma takeWhile_bytes:
  "CHR 0x0A \<notin> set l \<Longrightarrow> takeWhile (\<lambda>b. b \<noteq> 0x0A) (bytes_of l @ 0x0A # r) = bytes_of l"
proof (induction l)
  case (Cons c l)
  have "(of_char c :: byte) \<noteq> 0x0A"
  proof
    assume "(of_char c :: byte) = 0x0A"
    then have "unat (of_char c :: byte) = unat (0x0A :: byte)" by simp
    then have "(of_char c :: nat) = of_char (CHR 0x0A)" by simp
    then have "c = CHR 0x0A" by (rule of_char_eqI)
    with Cons.prems show False by simp
  qed
  with Cons show ?case by simp
qed simp

lemma dropCR_clean: "clean_line l \<Longrightarrow> dropCR (bytes_of l) = bytes_of l"
proof -
  assume c: "clean_line l"
  then obtain xs x where l: "l = xs @ [x]" "graphic_char x" by (cases l rule: rev_cases) (auto simp: clean_line_def)
  have "(of_char x :: byte) \<noteq> 0x0D"
  proof
    assume "(of_char x :: byte) = 0x0D"
    then have "unat (of_char x :: byte) = unat (0x0D :: byte)" by simp
    with l(2) show False by (simp add: graphic_char_def)
  qed
  with l show ?thesis by (simp add: dropCR_def)
qed

lemma scan_lines_lines:
  "list_all (\<lambda>l. clean_line l \<and> length l < max_token) ls \<Longrightarrow>
   scan_lines (bytes_of (lines_of ls)) = (map bytes_of ls, False)"
proof (induction ls)
  case Nil
  then show ?case by (simp add: lines_of_def scan_lines.simps)
next
  case (Cons l ls)
  let ?d = "bytes_of l @ 0x0A # bytes_of (lines_of ls)"
  have d: "bytes_of (lines_of (l # ls)) = ?d" by (simp add: lines_of_def)
  have "takeWhile (\<lambda>b. b \<noteq> 0x0A) ?d = bytes_of l" "clean_line l" "length l < max_token"
    using Cons.prems by (auto simp: clean_line_def intro: takeWhile_bytes)
  then have "scan_lines ?d = (bytes_of l # fst (scan_lines (bytes_of (lines_of ls))), snd (scan_lines (bytes_of (lines_of ls))))"
    by (subst scan_lines.simps) (simp add: Let_def dropCR_clean split: prod.split)
  with Cons d show ?case by simp
qed

lemma pair_fields_device:
  "plain_device i \<Longrightarrow> parseDevicesList (device_line i) = [i]"
  by (simp add: parseDevicesList_def device_line_def plain_device_def Fields_word_blank Fields_word)

lemma callback_args_devices:
  "list_all plain_device is \<Longrightarrow> callback_args (map bytes_of (map device_line is)) = map (\<lambda>i. [i]) is"
proof (induction "is")
  case (Cons i "is")
  then have "plain_device i" by simp
  then have "TrimSpace (device_line i) = device_line i" "device_line i \<noteq> ''''"
    using clean_device TrimSpace_clean by (auto simp: clean_line_def)
  with Cons pair_fields_device show ?case by simp
qed simp

lemma graphic_digit: "d < 16 \<Longrightarrow> graphic_char (digit_char d)"
  by (auto simp: digit_char_def graphic_char_def)

lemma length_le_lines_of: "l \<in> set ls \<Longrightarrow> length l \<le> length (lines_of ls)"
  by (induction ls) (auto simp: lines_of_def)

definition tag_device :: "string \<Rightarrow> device_info list \<Rightarrow> device_info list" where
  "tag_device p is = (case is of [] \<Rightarrow> [] | i # is' \<Rightarrow> i\<lparr>Serial := p @ Serial i\<rparr> # is')"

lemma TrackDevices_Ok:
  assumes "connector cl = autoStart_Connection host port bin" and "dials w = Inr c # ds"
    and "answers c StatusOkay rest"
  shows "\<exists>w' out. TrackDevices cl w = (Ok (length (conns w)), w') \<and>
     conns w' = conns w @ [(advance 4 c)\<lparr>outgoing := out\<rparr>]"
proof -
  let ?w = "w\<lparr>dialled := dialled w @ [connector_addr host port], dials := ds, conns := conns w @ [c]\<rparr>"
  have "Connection cl w = (Ok (length (conns w)), ?w)"
    using assms(1,2) autoStart_connects by (simp add: Connection_def)
  moreover have "on_conn (length (conns w)) (sendADBCommand ''host:track-devices'') ?w =
      (Ok StatusOkay, ?w\<lparr>conns := conns w @ [(advance 4 c)\<lparr>outgoing := outgoing c @ frame ''host:track-devices''\<rparr>]\<rparr>)"
    by (rule on_conn_last [where c = c]) (simp, simp, rule sendADBCommand_word [OF assms(3)])
  ultimately show ?thesis by (auto simp: TrackDevices_def ret_def)
qed

text \<open>C39: what a tracker reports for one update of the server. The server answers like all its
  services with a payload behind four hexadecimal digits, one line per device. The callback is
  called once for every line, not once for the update, and the first device is reported under a
  serial number that starts with the four digits of the length prefix, which nothing
  removes.\<close>

theorem tracker_keeps_length_prefix:
  assumes "connector cl = autoStart_Connection host port bin" and "dials w = Inr c # ds" and "in_end c = EOF"
    and "answers c StatusOkay (hex_frame (bytes_of (lines_of (map device_line is))))"
    and "list_all plain_device is" and "length (lines_of (map device_line is)) < 65532" and "is \<noteq> []"
  shows "fst (TrackDevicesWithCallback cl w) =
    Ok (map (\<lambda>i. [i]) (tag_device (hex4 (length (lines_of (map device_line is)))) is), None)"
proof -
  let ?ls = "map device_line is" and ?p = "hex4 (length (lines_of (map device_line is)))"
  obtain i "is'" where "is": "is = i # is'" using assms(7) by (cases "is") auto
  define js where "js = tag_device ?p is"
  have js: "js = i\<lparr>Serial := ?p @ Serial i\<rparr> # is'" by (simp add: js_def "is" tag_device_def)
  have p4: "length ?p = 4" using assms(6) by (intro length_hex4) simp
  have pg: "list_all graphic_char ?p"
    using digits_less [of 16] by (auto simp: hex4_digits list_all_iff graphic_digit)
  have pj: "list_all plain_device js"
    using assms(5) pg by (auto simp: js "is" plain_device_def graphic_def)
  have stream: "hex_frame (bytes_of (lines_of ?ls)) = bytes_of (lines_of (map device_line js))"
    by (simp add: hex_frame_def js "is" lines_of_def device_line_def)
  have total: "length (lines_of (map device_line js)) = 4 + length (lines_of ?ls)"
    using p4 by (simp add: js "is" lines_of_def device_line_def)
  have "length l < max_token" if "l \<in> set (map device_line js)" for l
  proof -
    have "length l \<le> length (lines_of (map device_line js))"
      using that by (rule length_le_lines_of)
    with total assms(6) show ?thesis by (simp add: max_token_def)
  qed
  then have "scan_lines (bytes_of (lines_of (map device_line js))) = (map bytes_of (map device_line js), False)"
    using pj by (intro scan_lines_lines) (auto simp: list_all_iff intro: clean_device)
  moreover obtain w' out where tr: "TrackDevices cl w = (Ok (length (conns w)), w')"
    "conns w' = conns w @ [(advance 4 c)\<lparr>outgoing := out\<rparr>]"
    using TrackDevices_Ok [OF assms(1,2,4)] by blast
  moreover have "read_all_loop [] ((advance 4 c)\<lparr>outgoing := out\<rparr>) =
      ((bytes_of (lines_of (map device_line js)), None), drained ((advance 4 c)\<lparr>outgoing := out\<rparr>))"
    using assms(3,4) stream by (subst read_all_loop_eq) (auto simp: answers_def)
  ultimately show ?thesis
    using callback_args_devices [OF pj]
    by (simp add: TrackDevicesWithCallback_def newScanner_def on_conn_last [OF _ refl] deferring_def ret_def
        js_def [symmetric])
qed

theorem tracker_keeps_length_prefix_witness:
  "fst (TrackDevicesWithCallback (dev_client demo_device)
     (new_world [Inr (demo_reply (lines_of (map device_line [\<lparr>Serial = ''emu'', State = ''device''\<rparr>])))])) =
   Ok ([[\<lparr>Serial = ''000bemu'', State = ''device''\<rparr>]], None)"
proof -
  let ?is = "[\<lparr>Serial = ''emu'', State = ''device''\<rparr>]"
  let ?c = "demo_reply (lines_of (map device_line ?is))"
  have n: "length (lines_of (map device_line ?is)) = 11" by (simp add: lines_of_def device_line_def)
  have h: "hex4 11 = ''000b''" by code_simp
  have a: "answers ?c StatusOkay (hex_frame (bytes_of (lines_of (map device_line ?is))))"
    using demo_reply_answers [of "lines_of (map device_line ?is)"] by simp
  have "dials (new_world [Inr ?c]) = Inr ?c # []" "in_end ?c = EOF" "list_all plain_device ?is"
    by (simp_all add: new_world_def demo_reply_def plain_device_def graphic_def graphic_char_def)
  from tracker_keeps_length_prefix [OF demo_device_facts(1) this(1,2) a this(3)] n h show ?thesis
    by (simp add: tag_device_def)
qed

end
