(* ===== verification/Screen.thy ===== *)
theory Screen
  imports Device
begin

text \<open>
  Screenshots, \<^verbatim>\<open>adb/device_screen.go\<close>: the framebuffer service with its header and the decoder
  for raw pixels, \<^verbatim>\<open>screencap\<close> and \<^verbatim>\<open>logcat\<close>. An image is its size and its pixels row by row.
  Decoding a PNG or JPEG is package \<^verbatim>\<open>image\<close>'s business and a parameter. A Go \<^verbatim>\<open>int\<close> has 64 bits:
  width, height and bits per pixel come from 32-bit fields, so they are natural numbers here,
  and the products of the decoder's loop cannot overflow before its index check fails, which
  the check on the size of the image in \<^verbatim>\<open>image.NewRGBA\<close> precedes.
\<close>

section \<open>The header\<close>

record rgba =
  R :: byte
  G :: byte
  B :: byte
  A :: byte

record rgba_image =
  Dx :: nat
  Dy :: nat
  Pix :: "rgba list"

text \<open>The map \<^verbatim>\<open>meta\<close>, one field per key of the code; its keys are fixed.\<close>

record framebuffer_meta =
  fb_version :: u32
  bpp :: u32
  reserved :: u32
  fb_size :: u32
  height :: u32
  width :: u32
  red_offset :: u32
  red_length :: u32
  blue_offset :: u32
  blue_length :: u32
  green_offset :: u32
  green_length :: u32
  alpha_offset :: u32
  alpha_length :: u32

definition header_field :: "bytes \<Rightarrow> nat \<Rightarrow> u32" where
  "header_field header i = get32 (drop (4 * i) header)"

definition parse_meta :: "bytes \<Rightarrow> framebuffer_meta" where
  "parse_meta header =
     \<lparr>fb_version = header_field header 0, bpp = header_field header 1, reserved = header_field header 2,
      fb_size = header_field header 3, height = header_field header 4, width = header_field header 5,
      red_offset = header_field header 6, red_length = header_field header 7,
      blue_offset = header_field header 8, blue_length = header_field header 9,
      green_offset = header_field header 10, green_length = header_field header 11,
      alpha_offset = header_field header 12, alpha_length = 0\<rparr>"

section \<open>Decoding pixels\<close>

text \<open>Go's shifts by an unsigned count: all bits are gone when the count reaches the width.\<close>

definition shl32 :: "u32 \<Rightarrow> u32 \<Rightarrow> u32" where
  "shl32 x n = push_bit (unat n) x"

definition shr32 :: "u32 \<Rightarrow> u32 \<Rightarrow> u32" where
  "shr32 x n = drop_bit (unat n) x"

definition shl8 :: "byte \<Rightarrow> u32 \<Rightarrow> byte" where
  "shl8 x n = push_bit (unat n) x"

text \<open>\<^verbatim>\<open>uint32(0xFFFFFFFF>>(32-length)) << offset\<close>; the subtraction wraps around.\<close>

definition channel_mask :: "u32 \<Rightarrow> u32 \<Rightarrow> u32" where
  "channel_mask len offset = shl32 (shr32 0xFFFFFFFF (32 - len)) offset"

definition channel :: "u32 \<Rightarrow> u32 \<Rightarrow> u32 \<Rightarrow> byte" where
  "channel pixel len offset = ucast (shr32 (pixel AND channel_mask len offset) offset)"

definition widen :: "u32 \<Rightarrow> byte \<Rightarrow> byte" where
  "widen len c = (if len < 8 then shl8 c (8 - len) else c)"

text \<open>The bytes of one pixel, little end first; bytes after the fourth are shifted out.\<close>

fun pixel_bits :: "nat \<Rightarrow> bytes \<Rightarrow> u32" where
  "pixel_bits i [] = 0"
| "pixel_bits i (b # bs) = push_bit (i * 8) (ucast b) OR pixel_bits (Suc i) bs"

definition decode_pixel :: "framebuffer_meta \<Rightarrow> u32 \<Rightarrow> rgba" where
  "decode_pixel meta pixel =
     (let red = channel pixel (red_length meta) (red_offset meta);
          green = channel pixel (green_length meta) (green_offset meta);
          blue = channel pixel (blue_length meta) (blue_offset meta);
          alpha = (if alpha_length meta > 0 then channel pixel (alpha_length meta) (alpha_offset meta) else 0xFF)
      in \<lparr>R = widen (red_length meta) red, G = widen (green_length meta) green,
          B = widen (blue_length meta) blue,
          A = (if alpha_length meta < 8 \<and> alpha_length meta > 0 then shl8 alpha (8 - alpha_length meta) else alpha)\<rparr>)"

text \<open>
  The pixel that starts at \<open>offset\<close>: indexing the data beyond its end panics.
\<close>

definition read_pixel :: "bytes \<Rightarrow> nat \<Rightarrow> framebuffer_meta \<Rightarrow> nat \<Rightarrow> rgba result" where
  "read_pixel data bytesPerPixel meta offset =
     (if bytesPerPixel > 0 \<and> offset + bytesPerPixel > length data then Panic IndexOutOfRange
      else Ok (decode_pixel meta (pixel_bits 0 (take bytesPerPixel (drop offset data)))))"

fun scan :: "('a \<Rightarrow> 'b result) \<Rightarrow> 'a list \<Rightarrow> 'b list result" where
  "scan f [] = Ok []"
| "scan f (x # xs) = (case f x of
       Ok y \<Rightarrow> (case scan f xs of Ok ys \<Rightarrow> Ok (y # ys) | Err e \<Rightarrow> Err e | Panic p \<Rightarrow> Panic p)
     | Err e \<Rightarrow> Err e
     | Panic p \<Rightarrow> Panic p)"

text \<open>The order of the two nested loops.\<close>

definition raster :: "nat \<Rightarrow> nat \<Rightarrow> nat list" where
  "raster w h = concat (map (\<lambda>y. map (\<lambda>x. y * w + x) [0..<w]) [0..<h])"

definition huge_image :: go_panic where
  "huge_image = PanicCall ''image: NewRGBA Rectangle has huge or negative dimensions''"

definition decodeFramebuffer :: "bytes \<Rightarrow> nat \<Rightarrow> nat \<Rightarrow> nat \<Rightarrow> framebuffer_meta \<Rightarrow> rgba_image result" where
  "decodeFramebuffer data w h bits meta =
     (let bytesPerPixel = bits div 8 in
      if 2 ^ 63 \<le> 4 * w * h then Panic huge_image
      else case scan (\<lambda>k. read_pixel data bytesPerPixel meta (k * bytesPerPixel)) (raster w h) of
        Ok ps \<Rightarrow> Ok \<lparr>Dx = w, Dy = h, Pix = ps\<rparr>
      | Err e \<Rightarrow> Err e
      | Panic p \<Rightarrow> Panic p)"

section \<open>Operations\<close>

definition framebuffer_exchange :: "(conn, rgba_image) prog" where
  "framebuffer_exchange =
     andThen (SendCommand ''framebuffer:'') (\<lambda>status.
       if status \<noteq> StatusOkay then fail (Errorf (''unexpected status: '' @ status))
       else andThen (ReadFull 52) (\<lambda>header.
            let meta = parse_meta header in
            andThen (ReadFull (unat (fb_size meta))) (\<lambda>pixelData c.
              (decodeFramebuffer pixelData (unat (width meta)) (unat (height meta)) (unat (bpp meta)) meta, c))))"

definition Framebuffer :: "device \<Rightarrow> (world, rgba_image) prog" where
  "Framebuffer d =
     andThen (Transport d) (\<lambda>transport.
     deferring (close_conn transport) (on_conn transport framebuffer_exchange))"

text \<open>\<open>decode\<close> is \<^verbatim>\<open>image.Decode\<close>.\<close>

definition Screencap :: "(bytes \<Rightarrow> go_error + 'img) \<Rightarrow> device \<Rightarrow> (world, 'img) prog" where
  "Screencap decode d =
     andThen (Shell d ''screencap -p'') (\<lambda>conn.
     deferring (close_conn conn)
       (attempt (on_conn conn ReadAll) (\<lambda>r. case r of
          Inl err \<Rightarrow> fail (Wrapf ''failed to read screencap data'' err)
        | Inr data \<Rightarrow> (case decode data of
            Inl err \<Rightarrow> fail (Wrapf ''failed to decode screencap image'' err)
          | Inr img \<Rightarrow> ret img))))"

definition OpenLogcat :: "device \<Rightarrow> string \<Rightarrow> (world, nat) prog" where
  "OpenLogcat d options =
     Shell d (if options \<noteq> '''' then ''logcat'' @ '' '' @ options else ''logcat'')"

section \<open>The loop over the pixels\<close>

lemma raster_upt: "raster w h = [0..<w * h]"
proof (induction h)
  case (Suc h)
  have "map (\<lambda>x. h * w + x) [0..<w] = [h * w..<h * w + w]"
    using map_add_upt [of "h * w" w] by (simp only: add.commute [of "h * w"])
  moreover have "[0..<w * Suc h] = [0..<w * h] @ [h * w..<h * w + w]"
    using upt_add_eq_append [of 0 "w * h" w] by (simp add: mult.commute add.commute)
  moreover have "raster w (Suc h) = raster w h @ map (\<lambda>x. h * w + x) [0..<w]" by (simp add: raster_def)
  ultimately show ?case using Suc by simp
qed (simp add: raster_def)

lemma scan_Ok: "(\<And>x. x \<in> set xs \<Longrightarrow> f x = Ok (g x)) \<Longrightarrow> scan f xs = Ok (map g xs)"
  by (induction xs) simp_all

lemma scan_Panic:
  "x \<in> set xs \<Longrightarrow> f x = Panic p \<Longrightarrow> (\<And>y. y \<in> set xs \<Longrightarrow> f y = Panic p \<or> (\<exists>v. f y = Ok v)) \<Longrightarrow>
   scan f xs = Panic p"
proof (induction xs)
  case (Cons y ys)
  show ?case
  proof (cases "f y = Panic p")
    case False
    with Cons.prems obtain v where v: "f y = Ok v" by fastforce
    with Cons.prems(1,2) have "x \<in> set ys" by auto
    with Cons v show ?thesis by auto
  qed simp
qed simp

definition pixel_at :: "bytes \<Rightarrow> nat \<Rightarrow> framebuffer_meta \<Rightarrow> nat \<Rightarrow> rgba" where
  "pixel_at data n meta k = decode_pixel meta (pixel_bits 0 (take n (drop (k * n) data)))"

lemma decodeFramebuffer_enough:
  assumes "4 * w * h < 2 ^ 63" and "w * h * (bits div 8) \<le> length data"
  shows "decodeFramebuffer data w h bits meta =
    Ok \<lparr>Dx = w, Dy = h, Pix = map (pixel_at data (bits div 8) meta) [0..<w * h]\<rparr>"
proof -
  let ?n = "bits div 8"
  have "read_pixel data ?n meta (k * ?n) = Ok (pixel_at data ?n meta k)" if "k < w * h" for k
  proof -
    from that have "(k + 1) * ?n \<le> w * h * ?n" by (intro mult_right_mono) simp_all
    with assms(2) show ?thesis by (simp add: read_pixel_def pixel_at_def)
  qed
  then have "scan (\<lambda>k. read_pixel data ?n meta (k * ?n)) [0..<w * h] = Ok (map (pixel_at data ?n meta) [0..<w * h])"
    by (intro scan_Ok) simp
  with assms(1) show ?thesis by (simp add: decodeFramebuffer_def raster_upt Let_def)
qed

lemma decodeFramebuffer_short:
  assumes "4 * w * h < 2 ^ 63" and "length data < w * h * (bits div 8)"
  shows "decodeFramebuffer data w h bits meta = Panic IndexOutOfRange"
proof -
  let ?n = "bits div 8"
  have pos: "0 < ?n" "0 < w * h" using assms(2) by (auto intro: Nat.gr0I)
  have last: "w * h - 1 \<in> set [0..<w * h]" using pos(2) by simp
  have "(w * h - 1) * ?n + ?n = w * h * ?n"
    using pos(2) by (metis Suc_diff_1 add.commute mult_Suc)
  then have "read_pixel data ?n meta ((w * h - 1) * ?n) = Panic IndexOutOfRange"
    using assms(2) pos(1) by (simp add: read_pixel_def)
  moreover have "read_pixel data ?n meta (k * ?n) = Panic IndexOutOfRange \<or> (\<exists>v. read_pixel data ?n meta (k * ?n) = Ok v)" for k
    by (simp add: read_pixel_def)
  ultimately have "scan (\<lambda>k. read_pixel data ?n meta (k * ?n)) [0..<w * h] = Panic IndexOutOfRange"
    by (intro scan_Panic [OF last]) simp_all
  with assms(1) show ?thesis by (simp add: decodeFramebuffer_def raster_upt Let_def)
qed

text \<open>C25: decoding a framebuffer of any layout is total on the size that fits: with at least
  \<open>w * h\<close> pixels of data the result is the image of \<open>w * h\<close> pixels, each decoded from its own bytes;
  with fewer the decoder panics with an index out of range. The sizes come from the device, so
  a header that announces more pixels than data ends the process.\<close>

theorem decodeFramebuffer_bounds:
  assumes "4 * w * h < 2 ^ 63"
  shows "(if w * h * (bits div 8) \<le> length data
     then \<exists>img. decodeFramebuffer data w h bits meta = Ok img \<and> Dx img = w \<and> Dy img = h \<and> length (Pix img) = w * h \<and>
       (\<forall>y < h. \<forall>x < w. Pix img ! (y * w + x) =
          decode_pixel meta (pixel_bits 0 (take (bits div 8) (drop ((y * w + x) * (bits div 8)) data))))
     else decodeFramebuffer data w h bits meta = Panic IndexOutOfRange)"
proof (cases "w * h * (bits div 8) \<le> length data")
  case True
  have "y * w + x < w * h" if "y < h" "x < w" for x y
  proof -
    have "y * w + x < (y + 1) * w" using that(2) by simp
    also have "\<dots> \<le> h * w" using that(1) by (intro mult_right_mono) simp_all
    finally show ?thesis by (simp add: mult.commute)
  qed
  with True decodeFramebuffer_enough [OF assms True, of meta] show ?thesis by (simp add: pixel_at_def)
qed (simp add: decodeFramebuffer_short [OF assms] not_le)

section \<open>Eight bits per channel\<close>

text \<open>The layout of most devices: red, green, blue and alpha, one byte each.\<close>

definition rgba8888 :: "nat \<Rightarrow> nat \<Rightarrow> nat \<Rightarrow> framebuffer_meta" where
  "rgba8888 n w h = \<lparr>fb_version = 1, bpp = 32, reserved = 0, fb_size = of_nat n, height = of_nat h,
     width = of_nat w, red_offset = 0, red_length = 8, blue_offset = 16, blue_length = 8,
     green_offset = 8, green_length = 8, alpha_offset = 24, alpha_length = 0\<rparr>"

definition rgba_bytes :: "rgba \<Rightarrow> bytes" where
  "rgba_bytes p = [R p, G p, B p, A p]"



lemma length_rgba_bytes [simp]: "length (rgba_bytes p) = 4"
  by (simp add: rgba_bytes_def)

lemma length_concat_rgba [simp]: "length (concat (map rgba_bytes ps)) = 4 * length ps"
  by (induction ps) simp_all


definition header_bytes :: "framebuffer_meta \<Rightarrow> bytes" where
  "header_bytes m = put32 (fb_version m) @ put32 (bpp m) @ put32 (reserved m) @ put32 (fb_size m) @
     put32 (height m) @ put32 (width m) @ put32 (red_offset m) @ put32 (red_length m) @
     put32 (blue_offset m) @ put32 (blue_length m) @ put32 (green_offset m) @ put32 (green_length m) @
     put32 (alpha_offset m)"

lemma length_header_bytes [simp]: "length (header_bytes m) = 52"
  by (simp add: header_bytes_def)






theorem decodeFramebuffer_bounds_witness:
  "decodeFramebuffer [1, 2, 3] 1 1 32 (rgba8888 4 1 1) = Panic IndexOutOfRange \<and>
   (\<exists>img. decodeFramebuffer [1, 2, 3, 4] 1 1 32 (rgba8888 4 1 1) = Ok img \<and> length (Pix img) = 1)"
  using decodeFramebuffer_bounds [of 1 1 32 "[1, 2, 3]" "rgba8888 4 1 1"]
    decodeFramebuffer_bounds [of 1 1 32 "[1, 2, 3, 4]" "rgba8888 4 1 1"] by auto

end
