(* ===== verification/Leaks.thy ===== *)
theory Leaks
  imports Tracking Screen ShellV2
begin

text \<open>
  Which connections the operations of a client and a device leave open. The functions that
  return a value close what they open, on success and on every error path; the functions that
  return a connection or a session leave exactly that one open, and none when they fail.
\<close>

section \<open>The remaining operations\<close>

text \<open>\<open>closes w w'\<close>: on the way from \<open>w\<close> to \<open>w'\<close> every connection that was opened was closed again.\<close>

definition closes :: "world \<Rightarrow> world \<Rightarrow> bool" where
  "closes w w' \<longleftrightarrow> (\<exists>new. conns w' = conns w @ new \<and> list_all isclosed new)"

lemma closes_trans: "closes w1 w2 \<Longrightarrow> closes w2 w3 \<Longrightarrow> closes w1 w3"
  by (auto simp: closes_def)

lemma leak_free_closes: "leak_free m \<Longrightarrow> m w = (r, w') \<Longrightarrow> (\<And>p. r \<noteq> Panic p) \<Longrightarrow> closes w w'"
  unfolding closes_def by (rule leak_freeD)

lemma leak_free_WaitForDeviceWithTimeout:
  assumes "leak_free (WaitForDevice d late)"
  shows "leak_free (WaitForDeviceWithTimeout d late None)"
proof -
  have "WaitForDeviceWithTimeout d late None =
      attempt (WaitForDevice d late) (\<lambda>r. case r of Inl err \<Rightarrow> fail err | Inr _ \<Rightarrow> ret ())"
    by (simp add: fun_eq_iff WaitForDeviceWithTimeout_def)
  with assms show ?thesis by (auto intro!: leak_free_intros)
qed

context dialer
begin

lemma screen_ops_leak_free:
  assumes "connector (dev_client d) = dial"
  shows "leak_free (Framebuffer d)" "leak_free (Screencap decode d)"
proof -
  show "leak_free (Framebuffer d)"
    unfolding Framebuffer_def by (rule leak_free_yields [OF Transport_yields [OF assms]], intro leak_free_intros)
  show "leak_free (Screencap decode d)"
    unfolding Screencap_def
    by (rule leak_free_yields [OF Shell_yields [OF assms]]) (auto intro!: leak_free_intros split: sum.split)
qed

lemma TrackDevicesWithCallback_leak_free: "connector c = dial \<Longrightarrow> leak_free (TrackDevicesWithCallback c)"
  unfolding TrackDevicesWithCallback_def
  by (rule leak_free_yields [OF TrackDevices_yields]) (auto intro!: leak_free_intros split: prod.split)

lemma connection_ops_yield:
  assumes "connector (dev_client d) = dial"
  shows "yields_conn (OpenLocal d path)" "yields_conn (OpenLog d name)" "yields_conn (OpenSocketContext d addr)"
    "yields_conn (TrackJdwp d)" "yields_conn (OpenLogcat d options)"
  unfolding OpenLocal_def OpenLog_def OpenSocketContext_def TrackJdwp_def OpenLogcat_def
  using openTransportConnection_yields [OF assms] Transport_yields [OF assms] Shell_yields [OF assms]
  by (auto intro!: leak_free_intros)

text \<open>The intents that run their command again.\<close>

lemma RunCommand_closes:
  "connector (dev_client d) = dial \<Longrightarrow> RunCommand d cmd w = (r, w') \<Longrightarrow> (\<And>p. r \<noteq> Panic p) \<Longrightarrow> closes w w'"
  using RunCommand_leak_free leak_free_closes by blast

lemma StartActivity_closes:
  assumes "connector (dev_client d) = dial" and "StartActivity d visits opts w = Some (r, w')" and "\<And>p. r \<noteq> Panic p"
  shows "closes w w'"
proof -
  have "connector (dev_client d) = dial \<longrightarrow> (\<forall>p. fst (r, w') \<noteq> Panic p) \<longrightarrow> closes w (snd (r, w'))"
    by (rule StartActivity.raw_induct [OF _ assms(2), where P = "\<lambda>d visits opts w y.
          connector (dev_client d) = dial \<longrightarrow> (\<forall>p. fst y \<noteq> Panic p) \<longrightarrow> closes w (snd y)"])
      (auto split: prod.splits result.splits if_splits intro: RunCommand_closes closes_trans)
  with assms(1,3) show ?thesis by simp
qed

lemma StartService_closes:
  assumes "connector (dev_client d) = dial" and "StartService d visits opts w = Some (r, w')" and "\<And>p. r \<noteq> Panic p"
  shows "closes w w'"
proof -
  have "connector (dev_client d) = dial \<longrightarrow> (\<forall>p. fst (r, w') \<noteq> Panic p) \<longrightarrow> closes w (snd (r, w'))"
    by (rule StartService.raw_induct [OF _ assms(2), where P = "\<lambda>d visits opts w y.
          connector (dev_client d) = dial \<longrightarrow> (\<forall>p. fst y \<noteq> Panic p) \<longrightarrow> closes w (snd y)"])
      (auto split: prod.splits result.splits if_splits intro: RunCommand_closes closes_trans)
  with assms(1,3) show ?thesis by simp
qed

end

section \<open>Shell v2 sessions\<close>

text \<open>The first half of \<open>ShellV2WithOptionsContext\<close>: the connection with the service selected.\<close>

definition v2_transport :: "device \<Rightarrow> string \<Rightarrow> (world, nat) prog" where
  "v2_transport d service =
     andThen (Transport d) (\<lambda>transport.
     attempt (on_conn transport (SendCommand service)) (\<lambda>r. case r of
       Inl err \<Rightarrow> andThen (close_conn transport) (\<lambda>_. fail err)
     | Inr status \<Rightarrow>
         if status \<noteq> StatusOkay
         then attempt (on_conn transport readLengthPrefixed) (\<lambda>m.
              andThen (close_conn transport) (\<lambda>_. fail
                (case m of
                  Inl _ \<Rightarrow> Errorf (''unexpected status: '' @ status)
                | Inr msg \<Rightarrow>
                    if length msg > 0 then Errorf (''shell v2 failed: '' @ string_of msg)
                    else Errorf (''unexpected status: '' @ status))))
         else ret transport))"

lemma ShellV2_via_transport:
  "ShellV2WithOptionsContext d command opts w =
     (case v2_transport d (buildShellV2Service command opts) w of
        (Ok h, w') \<Rightarrow> (Ok (new_session (conns w' ! h)), w')
      | (Err e, w') \<Rightarrow> (Err e, w')
      | (Panic p, w') \<Rightarrow> (Panic p, w'))"
  by (auto simp: ShellV2WithOptionsContext_def v2_transport_def andThen_def attempt_def fail_def ret_def
      split: prod.splits result.splits sum.splits if_splits)

context dialer
begin

lemma v2_transport_yields: "connector (dev_client d) = dial \<Longrightarrow> yields_conn (v2_transport d service)"
  unfolding v2_transport_def using Transport_yields by (auto intro!: leak_free_intros)

lemma ShellV2_opens:
  assumes "connector (dev_client d) = dial" and "ShellV2WithOptionsContext d command opts w = (r, w')"
    and "\<And>p. r \<noteq> Panic p"
  shows "case r of Ok s \<Rightarrow> (\<exists>new. conns w' = conns w @ new @ [transport s] \<and> list_all isclosed new)
    | _ \<Rightarrow> closes w w'"
proof -
  let ?m = "v2_transport d (buildShellV2Service command opts)"
  have t: "triple (all_closed (conns w)) ?m (one_open (conns w)) (all_closed (conns w))"
    using v2_transport_yields [OF assms(1)] by (simp add: yields_conn_def)
  have start: "all_closed (conns w) w" by (auto simp: all_closed_def)
  obtain q w1 where q: "?m w = (q, w1)" by (cases "?m w")
  show ?thesis
  proof (cases q)
    case (Ok h)
    with q triple_Ok [OF t start] have "one_open (conns w) h w1" by blast
    then obtain new c where "conns w1 = conns w @ new @ [c]" "list_all isclosed new"
        "h = length (conns w) + length new" by (auto simp: one_open_def)
    moreover from this have "conns w1 ! h = c" by (simp add: nth_append)
    ultimately show ?thesis using assms(2) q Ok by (auto simp: ShellV2_via_transport new_session_def)
  next
    case (Err e)
    with q triple_Err [OF t start] have "all_closed (conns w) w1" by blast
    with assms(2) q Err show ?thesis by (auto simp: ShellV2_via_transport closes_def all_closed_def)
  qed (use assms(2,3) q in \<open>auto simp: ShellV2_via_transport\<close>)
qed

end

section \<open>Properties\<close>

text \<open>C12: which connections the operations of a client with the standard connector leave open. An
  operation that returns a value closes each connection it opened, on success and on every
  error path, and touches no other connection: this is shown of all host commands of the
  client, the device's attributes, properties, features and state, \<^verbatim>\<open>WaitForDeviceWithTimeout\<close>
  when its timer does not fire first, the shell command, port forwards, the file operations
  but \<^verbatim>\<open>Pull\<close>, the screenshots, the device tracker with a callback, the package operations but
  \<^verbatim>\<open>InstallRemote\<close>, and the two intents whenever they return. An operation that returns a
  connection leaves exactly that one open, and none when it fails; the same holds of a shell
  v2 session, and with it of \<^verbatim>\<open>RunCommandV2Context\<close> up to the point where its goroutines take
  the session over. (\<^verbatim>\<open>Pull\<close> and \<^verbatim>\<open>InstallRemote\<close> do leak and are the subject of a property of
  their own; what \<^verbatim>\<open>WaitForDeviceWithTimeout\<close> leaves behind after a timeout depends on where its
  goroutine stands.)\<close>

theorem operations_close_their_connections:
  assumes "connector (dev_client d) = autoStart_Connection host port bin"
  shows "leak_free (SendHostCommandContext (dev_client d) ctx cmd) \<and>
    leak_free (Version (dev_client d) late) \<and>
    leak_free (ConnectContext (dev_client d) ctx hp) \<and>
    leak_free (DisconnectContext (dev_client d) ctx hp) \<and>
    leak_free (ListDevices (dev_client d) late) \<and>
    leak_free (ListDevicesWithPaths (dev_client d) late) \<and>
    leak_free (KillServer (dev_client d) late) \<and>
    leak_free (ListForwards (dev_client d) late) \<and>
    leak_free (client_Features (dev_client d) late) \<and>
    leak_free (RunCommandContext d ctx cmd) \<and> leak_free (device_Serial d late) \<and>
    leak_free (DevicePath d late) \<and> leak_free (device_State d late) \<and>
    leak_free (Properties d) \<and> leak_free (DHCPIpAddress d iface) \<and>
    leak_free (Reboot d) \<and> leak_free (Remount d) \<and> leak_free (Root d) \<and>
    leak_free (WaitForDevice d late) \<and> leak_free (WaitBootComplete d) \<and>
    leak_free (FeaturesContext d late ctx) \<and> leak_free (HasFeature d late feat) \<and>
    leak_free (Forward d l r) \<and> leak_free (ForwardRemove d l) \<and>
    leak_free (Reverse d r l) \<and> leak_free (ReverseRemove d r) \<and>
    leak_free (ListReverses d) \<and> leak_free (TcpIp d port') \<and> leak_free (Usb d) \<and>
    leak_free (device_Stat d path) \<and> leak_free (device_Readdir d path) \<and>
    leak_free (device_Push d con path mode) \<and> leak_free (device_ReadFile d path) \<and>
    leak_free (GetPackages d) \<and> leak_free (ClearPackageData d pkg) \<and>
    leak_free (Install d late f) \<and> leak_free (Uninstall d pkg) \<and>
    leak_free (IsInstalled d pkg) \<and>
    leak_free (Framebuffer d) \<and> leak_free (Screencap decode d) \<and>
    leak_free (TrackDevicesWithCallback (dev_client d)) \<and>
    leak_free (WaitForDeviceWithTimeout d late None) \<and>
    (\<forall>visits opts w q w'. StartActivity d visits opts w = Some (q, w') \<and> (\<forall>p. q \<noteq> Panic p) \<longrightarrow> closes w w') \<and>
    (\<forall>visits opts w q w'. StartService d visits opts w = Some (q, w') \<and> (\<forall>p. q \<noteq> Panic p) \<longrightarrow> closes w w') \<and>
    yields_conn (Transport d) \<and> yields_conn (Shell d cmd) \<and> yields_conn (NewSyncService d) \<and>
    yields_conn (OpenLocal d path) \<and> yields_conn (OpenLog d name) \<and> yields_conn (OpenSocketContext d addr) \<and>
    yields_conn (TrackJdwp d) \<and> yields_conn (OpenLogcat d options) \<and>
    yields_conn (TrackDevices (dev_client d)) \<and>
    (\<forall>opts w q w'. ShellV2WithOptionsContext d cmd opts w = (q, w') \<longrightarrow>
       (\<forall>e. q = Err e \<longrightarrow> closes w w') \<and>
       (\<forall>s. q = Ok s \<longrightarrow> (\<exists>new. conns w' = conns w @ new @ [transport s] \<and> list_all isclosed new))) \<and>
    (\<forall>silent w e w'. RunCommandV2Context silent d cmd w = (Err e, w') \<longrightarrow> closes w w')"
proof -
  note opens = autostart.ShellV2_opens [OF assms]
  have session: "(\<forall>e. q = Err e \<longrightarrow> closes w w') \<and>
      (\<forall>s. q = Ok s \<longrightarrow> (\<exists>new. conns w' = conns w @ new @ [transport s] \<and> list_all isclosed new))"
    if "ShellV2WithOptionsContext d cmd opts w = (q, w')" for opts w q w'
    using opens [OF that] by (cases q) auto
  have run: "closes w w'" if "RunCommandV2Context silent d cmd w = (Err e, w')" for silent w e w'
    using that session by (fastforce simp: RunCommandV2Context_def andThen_def ret_def split: prod.splits result.splits)
  have activity: "\<forall>visits opts w q w'. StartActivity d visits opts w = Some (q, w') \<and> (\<forall>p. q \<noteq> Panic p) \<longrightarrow> closes w w'"
    using autostart.StartActivity_closes [OF assms] by blast
  have service: "\<forall>visits opts w q w'. StartService d visits opts w = Some (q, w') \<and> (\<forall>p. q \<noteq> Panic p) \<longrightarrow> closes w w'"
    using autostart.StartService_closes [OF assms] by blast
  show ?thesis
    by (intro conjI activity service autostart.SendHostCommandContext_leak_free autostart.host_ops_leak_free
        autostart.RunCommandContext_leak_free autostart.device_ops_leak_free
        autostart.forward_ops_leak_free autostart.file_ops_leak_free
        autostart.GetPackages_leak_free autostart.Install_leak_free autostart.screen_ops_leak_free
        autostart.TrackDevicesWithCallback_leak_free leak_free_WaitForDeviceWithTimeout
        autostart.Transport_yields autostart.Shell_yields autostart.NewSyncService_yields
        autostart.connection_ops_yield autostart.TrackDevices_yields)
      (rule assms | use session run in blast)+
qed

definition refusing_world :: world where
  "refusing_world = new_world [Inr ((new_conn [] EOF)\<lparr>room := Some 0\<rparr>)]"

theorem operations_close_their_connections_witness:
  "leak_free (Install demo_device None \<lparr>open_err = None, stat_size = Inr 1, content = [1], read_err = None\<rparr>) \<and>
   leak_free (device_ReadFile demo_device ''/sdcard/a'') \<and>
   (\<exists>e w'. RunCommandV2Context True demo_device ''ls'' refusing_world = (Err e, w') \<and> closes refusing_world w' \<and>
     length (conns w') = 1)"
proof -
  let ?r = "RunCommandV2Context True demo_device ''ls'' refusing_world"
  have "case ?r of (Err e, w') \<Rightarrow> length (conns w') = 1 | _ \<Rightarrow> False"
    by (simp add: RunCommandV2Context_def ShellV2WithOptionsContext_def Transport_def Connection_def
        demo_device_def AnyDevice_def getTransportDescriptor_def refusing_world_def new_world_def
        autoStart_connects on_conn_def sendADBCommand_def conn_Write_def close_conn_def conn_Close_def
        andThen_def attempt_def fail_def ret_def new_conn_def frame_def)
  then obtain e w' where r: "?r = (Err e, w')" "length (conns w') = 1"
    by (auto split: prod.splits result.splits)
  note all = operations_close_their_connections [OF demo_device_facts(1), where cmd = "''ls''" and late = None
      and f = "\<lparr>open_err = None, stat_size = Inr 1, content = [1], read_err = None\<rparr>" and path = "''/sdcard/a''"
      and decode = "\<lambda>_. Inr ()"]
  have "\<forall>silent w e w'. RunCommandV2Context silent demo_device ''ls'' w = (Err e, w') \<longrightarrow> closes w w'"
    using all by meson
  with r(1) have "closes refusing_world w'" by blast
  with r all show ?thesis by meson
qed

end
