(* ===== verification/Flags.thy ===== *)
theory Flags
  imports GoLib
begin

text \<open>
  Command line flags as package \<^verbatim>\<open>flag\<close> parses them, for the programs of the repository: a flag
  set is a map from names to values, and a value is text, a number or a duration. Parsing
  stops at the first argument that is no flag. The flag sets of the repository end the process
  on an error, so an error is the exit status: 0 after a request for help, 2 otherwise. A
  duration is represented by the way it prints; \<open>durations\<close> stands for \<^verbatim>\<open>time.ParseDuration\<close>
  followed by printing.
\<close>

section \<open>Numbers in any base\<close>

text \<open>
  \<^verbatim>\<open>strconv.ParseUint(s, 0, 64)\<close>: the base is that of the prefix, and underscores may
  separate digits. \<open>underscores_ok\<close> remembers whether a digit, or the prefix, comes before.
\<close>

fun underscores_ok :: "bool \<Rightarrow> string \<Rightarrow> bool" where
  "underscores_ok after_digit [] \<longleftrightarrow> after_digit"
| "underscores_ok after_digit (c # cs) \<longleftrightarrow>
     (if c = CHR ''_'' then after_digit \<and> underscores_ok False cs else underscores_ok True cs)"

definition base_prefix :: "string \<Rightarrow> nat option" where
  "base_prefix s =
     (if length s < 3 \<or> s ! 0 \<noteq> CHR ''0'' then None
      else if s ! 1 = CHR ''b'' \<or> s ! 1 = CHR ''B'' then Some 2
      else if s ! 1 = CHR ''o'' \<or> s ! 1 = CHR ''O'' then Some 8
      else if s ! 1 = CHR ''x'' \<or> s ! 1 = CHR ''X'' then Some 16
      else None)"

definition ParseUint0 :: "string \<Rightarrow> go_error + nat" where
  "ParseUint0 s =
     (if s = '''' then Inl (ErrSyntax s)
      else let (b, digits, sep) = (case base_prefix s of
                 Some b \<Rightarrow> (b, drop 2 s, underscores_ok True (drop 2 s))
               | None \<Rightarrow> if hd s = CHR ''0'' then (8, tl s, underscores_ok False s)
                         else (10, s, underscores_ok False s))
           in case parse_uint s b 0 (filter (\<lambda>c. c \<noteq> CHR ''_'') digits) of
                Inl e \<Rightarrow> Inl e
              | Inr n \<Rightarrow> if CHR ''_'' \<in> set digits \<and> \<not> sep then Inl (ErrSyntax s) else Inr n)"

section \<open>Flag sets\<close>

datatype flag_value = StringFlag string | Uint64Flag nat | DurationFlag string

type_synonym flag_set = "string \<rightharpoonup> flag_value"

definition string_flag :: "flag_set \<Rightarrow> string \<Rightarrow> string" where
  "string_flag fs name = (case fs name of Some (StringFlag s) \<Rightarrow> s | _ \<Rightarrow> '''')"

definition uint64_flag :: "flag_set \<Rightarrow> string \<Rightarrow> nat" where
  "uint64_flag fs name = (case fs name of Some (Uint64Flag n) \<Rightarrow> n | _ \<Rightarrow> 0)"

definition duration_flag :: "flag_set \<Rightarrow> string \<Rightarrow> string" where
  "duration_flag fs name = (case fs name of Some (DurationFlag s) \<Rightarrow> s | _ \<Rightarrow> '''')"

fun set_flag :: "(string \<Rightarrow> string option) \<Rightarrow> flag_value \<Rightarrow> string \<Rightarrow> flag_value option" where
  "set_flag durations (StringFlag _) v = Some (StringFlag v)"
| "set_flag durations (Uint64Flag _) v =
     (case ParseUint0 v of Inr n \<Rightarrow> Some (Uint64Flag n) | Inl _ \<Rightarrow> None)"
| "set_flag durations (DurationFlag _) v = map_option DurationFlag (durations v)"

definition is_flag :: "string \<Rightarrow> bool" where
  "is_flag s \<longleftrightarrow> 2 \<le> length s \<and> hd s = CHR ''-''"

fun parse_flags ::
  "(string \<Rightarrow> string option) \<Rightarrow> flag_set \<Rightarrow> string list \<Rightarrow> int + flag_set \<times> string list" where
  "parse_flags durations fs [] = Inr (fs, [])"
| "parse_flags durations fs (s # args) =
     (if \<not> is_flag s then Inr (fs, s # args)
      else if s = ''--'' then Inr (fs, args)
      else let name = drop (if s ! 1 = CHR ''-'' then 2 else 1) s in
        if hd name = CHR ''-'' \<or> hd name = CHR ''='' then Inl 2
        else let key = takeWhile (\<lambda>c. c \<noteq> CHR ''='') name in
          case fs key of
            None \<Rightarrow> Inl (if key = ''help'' \<or> key = ''h'' then 0 else 2)
          | Some f \<Rightarrow>
              if length key < length name
              then (case set_flag durations f (drop (Suc (length key)) name) of
                      None \<Rightarrow> Inl 2 | Some f' \<Rightarrow> parse_flags durations (fs(key \<mapsto> f')) args)
              else case args of
                     [] \<Rightarrow> Inl 2
                   | v # args' \<Rightarrow> (case set_flag durations f v of
                       None \<Rightarrow> Inl 2 | Some f' \<Rightarrow> parse_flags durations (fs(key \<mapsto> f')) args'))"

lemma parse_flags_stop [simp]: "\<not> is_flag s \<Longrightarrow> parse_flags durations fs (s # args) = Inr (fs, s # args)"
  by simp

end
