(* ===== verification/Cli.thy ===== *)
theory Cli
  imports Flags Listings Screen
begin

text \<open>
  The command line program of \<^verbatim>\<open>examples/basic/main.go\<close>, on top of the client library: its
  dispatch, flags, choice of the device and handlers. The state is the network, what the
  program has printed on its standard output and the local files it has written. A handler
  either returns or ends the process with a status: 1 from \<^verbatim>\<open>os.Exit(1)\<close> and \<^verbatim>\<open>log.Fatalf\<close>,
  2 from a panic. Standard error, where \<^verbatim>\<open>log\<close> and the usage texts of the flag sets go, is
  not modelled.
\<close>

section \<open>Programs that may end the process\<close>

record terminal =
  tw :: world
  printed :: string
  disk :: "string \<rightharpoonup> bytes"

type_synonym 'a cli = "terminal \<Rightarrow> (int + 'a) \<times> terminal"

definition cli_ret :: "'a \<Rightarrow> 'a cli" where
  "cli_ret x t = (Inr x, t)"

definition cli_then :: "'a cli \<Rightarrow> ('a \<Rightarrow> 'b cli) \<Rightarrow> 'b cli" where
  "cli_then m k t = (case m t of (Inl status, t') \<Rightarrow> (Inl status, t') | (Inr x, t') \<Rightarrow> k x t')"

definition os_Exit :: "int \<Rightarrow> 'a cli" where
  "os_Exit status t = (Inl status, t)"

definition Print :: "string \<Rightarrow> unit cli" where
  "Print s t = (Inr (), t\<lparr>printed := printed t @ s\<rparr>)"

definition Println :: "string list \<Rightarrow> unit cli" where
  "Println ls = Print (concat (map (\<lambda>l. l @ [CHR 0x0A]) ls))"

text \<open>A call of the library whose error is fatal.\<close>

definition or_Fatal :: "(world, 'a) prog \<Rightarrow> 'a cli" where
  "or_Fatal m t = (case m (tw t) of (r, w) \<Rightarrow>
     ((case r of Ok x \<Rightarrow> Inr x | Err _ \<Rightarrow> Inl 1 | Panic _ \<Rightarrow> Inl 2), t\<lparr>tw := w\<rparr>))"

definition WriteFile :: "string \<Rightarrow> bytes \<Rightarrow> unit cli" where
  "WriteFile path b t = (Inr (), t\<lparr>disk := (disk t)(path \<mapsto> b)\<rparr>)"

text \<open>
  What the program gets from its environment: the variables and the platform, the error that
  a context reports once its time is over, the printing of durations, the image packages, the
  local files it opens and the errors of creating one. Writing to a created file succeeds.
\<close>

record 'img environment =
  env_get :: "string \<Rightarrow> string"
  env_goos :: string
  env_late :: "go_error option"
  env_durations :: "string \<Rightarrow> string option"
  env_Decode :: "bytes \<Rightarrow> go_error + 'img"
  env_Encode :: "'img \<Rightarrow> go_error + bytes"
  env_open :: "string \<Rightarrow> local_file"
  env_create :: "string \<Rightarrow> go_error option"

definition os_Create :: "'img environment \<Rightarrow> string \<Rightarrow> unit cli" where
  "os_Create env path = (case env_create env path of
       Some _ \<Rightarrow> os_Exit 1 | None \<Rightarrow> WriteFile path [])"

definition flags_or_exit :: "'img environment \<Rightarrow> flag_set \<Rightarrow> string list \<Rightarrow> (flag_set \<times> string list) cli" where
  "flags_or_exit env fs args = (case parse_flags (env_durations env) fs args of
       Inl status \<Rightarrow> os_Exit status | Inr r \<Rightarrow> cli_ret r)"

section \<open>Usage\<close>

definition usage_lines :: "string list" where
  "usage_lines =
    [''ADB command-line tool'',
     '''',
     ''Usage:'',
     ''  basic devices                      - List connected devices'',
     ''  basic kill-server                   - Kill ADB server'',
     ''  basic connect [options] <host[:port]>  - Connect to a remote ADB device'',
     ''  basic disconnect <host[:port]>     - Disconnect from a remote ADB device'',
     ''  basic shell <command>              - Execute shell command'',
     ''  basic screenshot [options]         - Take screenshot'',
     ''  basic push <local> <remote> [opts]  - Push file to device'',
     ''  basic pull <remote> <local> [opts]  - Pull file from device'',
     '''',
     ''Shell Command:'',
     ''  -s <serial>    Device serial number (auto-detect if only one device)'',
     ''  <command>      Shell command to execute'',
     '''',
     ''Screenshot Options:'',
     ''  -s <serial>    Device serial number (auto-detect if only one device)'',
     ''  -o <output>    Output file path (default: screenshot.png)'',
     '''',
     ''Push/Pull Options:'',
     ''  -s <serial>    Device serial number (auto-detect if only one device)'',
     ''  -m <mode>      File permissions (octal, e.g., 0644)'',
     '''',
     ''Examples:'',
     ''  basic devices'',
     ''  basic kill-server'',
     ''  basic connect 192.168.1.100:5555'',
     ''  basic connect 192.168.1.100         # Default port 5555'',
     ''  basic disconnect 192.168.1.100:5555'',
     ''  basic shell getprop ro.product.model'',
     ''  basic shell -s emulator-5554 ls /sdcard'',
     ''  basic screenshot                           # Auto-detect device'',
     ''  basic screenshot -s emulator-5554           # Specify device'',
     ''  basic screenshot -s emulator-5554 -o screen.png'',
     ''  basic push test.txt /sdcard/test.txt'',
     ''  basic push test.txt /sdcard/test.txt -s emulator-5554'',
     ''  basic pull /sdcard/test.txt ./test.txt'',
     ''  basic pull /sdcard/test.txt ./test.txt -s emulator-5554'']"

definition printUsage :: "unit cli" where
  "printUsage = Println usage_lines"

text \<open>The error branches of the handlers print a list of lines and end the process.\<close>

definition complain :: "string list \<Rightarrow> 'a cli" where
  "complain ls = cli_then (Println ls) (\<lambda>_. os_Exit 1)"

section \<open>Devices\<close>

definition device_table :: "device_info list \<Rightarrow> string list" where
  "device_table ds = map (\<lambda>i. ''  '' @ Serial i @ [CHR 0x09] @ State i) ds"

definition listDevices :: "'img environment \<Rightarrow> client \<Rightarrow> unit cli" where
  "listDevices env c =
     cli_then (or_Fatal (ListDevices c (env_late env))) (\<lambda>devices.
       if length devices = 0 then Println [''No devices found'']
       else Println ((''Found '' @ dec (length devices) @ '' device(s):'') # device_table devices))"

definition killServer :: "'img environment \<Rightarrow> client \<Rightarrow> unit cli" where
  "killServer env c =
     cli_then (or_Fatal (KillServer c (env_late env))) (\<lambda>ok.
       Println [if ok then ''ADB server killed successfully'' else ''Failed to kill ADB server''])"

text \<open>The serial number that is used, for the one given.\<close>

definition autoDetectDevice :: "'img environment \<Rightarrow> client \<Rightarrow> string \<Rightarrow> string cli" where
  "autoDetectDevice env c sn =
     (if sn \<noteq> '''' then cli_ret sn
      else cli_then (or_Fatal (ListDevices c (env_late env))) (\<lambda>devices.
        if length devices = 0 then complain [''Error: No devices found'']
        else if length devices > 1
        then complain ([''Error: Multiple devices found, please specify serial with -s'', '''',
               ''Available devices:''] @ device_table devices)
        else cli_ret (Serial (devices ! 0))))"

section \<open>Handlers\<close>

definition connect_flags :: flag_set where
  "connect_flags = [''t'' \<mapsto> DurationFlag ''5s'']"

definition handleConnect :: "'img environment \<Rightarrow> client \<Rightarrow> string list \<Rightarrow> unit cli" where
  "handleConnect env c args =
     cli_then (flags_or_exit env connect_flags args) (\<lambda>(fs, hostArgs).
       case hostArgs of
         [] \<Rightarrow> complain [''Error: host[:port] is required'', '''', '''',
                 ''Example: basic connect 192.168.1.100:5555'',
                 ''         basic connect -t 10s 192.168.1.100'']
       | hostPort # _ \<Rightarrow>
           cli_then (Println [''Connecting to '' @ hostPort @ '' (timeout: '' @ duration_flag fs ''t'' @ '')...'']) (\<lambda>_.
           cli_then (or_Fatal (ConnectContext c (with_timeout (env_late env)) hostPort)) (\<lambda>msg.
           Println [msg])))"

definition handleDisconnect :: "'img environment \<Rightarrow> client \<Rightarrow> string list \<Rightarrow> unit cli" where
  "handleDisconnect env c args =
     (case args of
        [] \<Rightarrow> complain [''Error: host[:port] is required'', '''',
                ''Example: basic disconnect 192.168.1.100:5555'',
                ''         basic disconnect 192.168.1.100'']
      | hostPort # _ \<Rightarrow>
          cli_then (Println [''Disconnecting from '' @ hostPort @ ''...'']) (\<lambda>_.
          cli_then (or_Fatal (Disconnect c (env_late env) hostPort)) (\<lambda>msg.
          Println [msg])))"

definition shell_flags :: flag_set where
  "shell_flags = [''s'' \<mapsto> StringFlag '''']"

definition handleShell :: "'img environment \<Rightarrow> client \<Rightarrow> string list \<Rightarrow> unit cli" where
  "handleShell env c args =
     cli_then (flags_or_exit env shell_flags args) (\<lambda>(fs, commandArgs).
       if length commandArgs = 0
       then complain [''Error: Shell command is required'', '''', '''',
              ''Example: basic shell getprop ro.product.model'',
              ''         basic shell -s emulator-5554 ls /sdcard'']
       else let command = Join '' '' commandArgs in
         cli_then (autoDetectDevice env c (string_flag fs ''s'')) (\<lambda>sn.
         cli_then (or_Fatal (RunCommand (client_Device c (DeviceWithSerial sn)) command)) (\<lambda>output.
         Print output)))"

definition screenshot_flags :: flag_set where
  "screenshot_flags = [''s'' \<mapsto> StringFlag '''', ''o'' \<mapsto> StringFlag ''screenshot.png'']"

definition handleScreenshot :: "'img environment \<Rightarrow> client \<Rightarrow> string list \<Rightarrow> unit cli" where
  "handleScreenshot env c args =
     cli_then (flags_or_exit env screenshot_flags args) (\<lambda>(fs, _).
     cli_then (if string_flag fs ''s'' = ''''
               then cli_then (autoDetectDevice env c (string_flag fs ''s'')) (\<lambda>sn.
                    cli_then (Println [''Auto-detected device: '' @ sn]) (\<lambda>_. cli_ret sn))
               else cli_ret (string_flag fs ''s'')) (\<lambda>sn.
     cli_then (Println [''Taking screenshot from device '' @ sn @ ''...'']) (\<lambda>_.
     cli_then (or_Fatal (Screencap (env_Decode env) (client_Device c (DeviceWithSerial sn)))) (\<lambda>img.
     cli_then (os_Create env (string_flag fs ''o'')) (\<lambda>_.
       case env_Encode env img of
         Inl _ \<Rightarrow> os_Exit 1
       | Inr b \<Rightarrow>
           cli_then (WriteFile (string_flag fs ''o'') b) (\<lambda>_.
           Println [''Screenshot saved to: '' @ string_flag fs ''o'']))))))"

definition push_flags :: flag_set where
  "push_flags = [''s'' \<mapsto> StringFlag '''', ''m'' \<mapsto> Uint64Flag 0x1A4]"

definition handlePush :: "'img environment \<Rightarrow> client \<Rightarrow> string list \<Rightarrow> unit cli" where
  "handlePush env c args =
     cli_then (flags_or_exit env push_flags args) (\<lambda>(fs, paths).
       case paths of
         localPath # remotePath # _ \<Rightarrow>
           cli_then (autoDetectDevice env c (string_flag fs ''s'')) (\<lambda>sn.
           cli_then (Println [''Pushing '' @ localPath @ '' to '' @ remotePath @ '' on device '' @ sn @ ''...'']) (\<lambda>_.
           let f = env_open env localPath in
           cli_then (or_Fatal (os_Open f)) (\<lambda>_.
           cli_then (or_Fatal (device_Push (client_Device c (DeviceWithSerial sn)) (file_ReadAll f)
             remotePath (of_nat (uint64_flag fs ''m'')))) (\<lambda>_.
           Println [''File pushed successfully'']))))
       | _ \<Rightarrow> complain [''Error: Both local and remote paths are required'', '''', '''',
              ''Example: basic push test.txt /sdcard/test.txt'',
              ''         basic push test.txt /sdcard/test.txt -s emulator-5554''])"

text \<open>\<^verbatim>\<open>io.Copy(f, reader)\<close> on the stream of a pull: what arrived is in the file in any case.\<close>

definition copy_pulled :: "string \<Rightarrow> bytes \<times> go_error option \<Rightarrow> unit cli" where
  "copy_pulled path r = (case r of (b, e) \<Rightarrow>
     cli_then (WriteFile path b) (\<lambda>_. if e = None \<or> e = Some EOF then cli_ret () else os_Exit 1))"

definition handlePull :: "'img environment \<Rightarrow> client \<Rightarrow> string list \<Rightarrow> unit cli" where
  "handlePull env c args =
     cli_then (flags_or_exit env shell_flags args) (\<lambda>(fs, paths).
       case paths of
         remotePath # localPath # _ \<Rightarrow>
           cli_then (autoDetectDevice env c (string_flag fs ''s'')) (\<lambda>sn.
           cli_then (Println [''Pulling '' @ remotePath @ '' from device '' @ sn @ '' to '' @ localPath @ ''...'']) (\<lambda>_.
           cli_then (or_Fatal (device_Pull (client_Device c (DeviceWithSerial sn)) remotePath)) (\<lambda>reader.
           cli_then (os_Create env localPath) (\<lambda>_.
           cli_then (copy_pulled localPath reader) (\<lambda>_.
           Println [''File pulled successfully''])))))
       | _ \<Rightarrow> complain [''Error: Both remote and local paths are required'', '''', '''',
              ''Example: basic pull /sdcard/test.txt ./test.txt'',
              ''         basic pull /sdcard/test.txt ./test.txt -s emulator-5554''])"

section \<open>The program\<close>

definition basic_command :: "'img environment \<Rightarrow> client \<Rightarrow> string \<Rightarrow> string list \<Rightarrow> unit cli" where
  "basic_command env client command args =
     (if command = ''devices'' then listDevices env client
      else if command = ''kill-server'' then killServer env client
      else if command = ''shell'' then handleShell env client args
      else if command = ''screenshot'' then handleScreenshot env client args
      else if command = ''connect'' then handleConnect env client args
      else if command = ''disconnect'' then handleDisconnect env client args
      else if command = ''push'' then handlePush env client args
      else if command = ''pull'' then handlePull env client args
      else if command = ''-h'' \<or> command = ''--help'' \<or> command = ''help'' then printUsage
      else cli_then (Println [''Unknown command: '' @ command]) (\<lambda>_.
           cli_then printUsage (\<lambda>_. os_Exit 1)))"

definition basic_main :: "'img environment \<Rightarrow> string list \<Rightarrow> unit cli" where
  "basic_main env argv =
     (case argv of
        _ # command # args \<Rightarrow> basic_command env (NewClient (env_get env) (env_goos env)) command args
      | _ \<Rightarrow> cli_then printUsage (\<lambda>_. os_Exit 1))"

section \<open>Running a command\<close>

lemmas cli_defs = cli_then_def cli_ret_def os_Exit_def Print_def Println_def WriteFile_def

lemma cli_then_Inr [simp]: "m t = (Inr x, t') \<Longrightarrow> cli_then m k t = k x t'"
  by (simp add: cli_then_def)

lemma cli_then_Inl [simp]: "m t = (Inl s, t') \<Longrightarrow> cli_then m k t = (Inl s, t')"
  by (simp add: cli_then_def)

lemma cli_then_ret [simp]: "cli_then (cli_ret x) k = k x"
  by (simp add: cli_defs fun_eq_iff)

lemma or_Fatal_Ok [simp]: "m (tw t) = (Ok x, w) \<Longrightarrow> or_Fatal m t = (Inr x, t\<lparr>tw := w\<rparr>)"
  by (simp add: or_Fatal_def)

lemma flags_or_exit_stop [simp]: "\<not> is_flag s \<Longrightarrow> flags_or_exit env fs (s # args) = cli_ret (fs, s # args)"
  by (simp add: flags_or_exit_def)

lemma flags_or_exit_serial [simp]:
  assumes "fs ''s'' = Some (StringFlag v)" and "\<not> is_flag s"
  shows "flags_or_exit env fs (''-s'' # sn # s # args) = cli_ret (fs(''s'' \<mapsto> StringFlag sn), s # args)"
  using assms by (simp add: flags_or_exit_def is_flag_def)

lemma NewClient_connector:
  "\<exists>host port bin. connector (NewClient getenv goos) = autoStart_Connection host port bin"
  unfolding NewClient_def NewClientWithOptions_def Let_def client.simps by blast

text \<open>The number a mode flag stands for depends on its prefix; only a leading zero makes it octal.\<close>

lemma mode_flag_base:
  "map_option (\<lambda>r. uint64_flag (fst r) ''m'') (case parse_flags durations push_flags [''-m'', ''644''] of Inr r \<Rightarrow> Some r | Inl _ \<Rightarrow> None) = Some 644"
  "map_option (\<lambda>r. uint64_flag (fst r) ''m'') (case parse_flags durations push_flags [''-m'', ''0644''] of Inr r \<Rightarrow> Some r | Inl _ \<Rightarrow> None) = Some 420"
  by (simp_all add: is_flag_def push_flags_def uint64_flag_def ParseUint0_def base_prefix_def digit_val_def)

text \<open>C40: flags only count in front of the paths. Whatever follows the two paths of \<^verbatim>\<open>push\<close> and
  \<^verbatim>\<open>pull\<close> has no effect, so the \<^verbatim>\<open>-s\<close> of the usage's own examples, written after the paths, is
  ignored; written first, as for \<^verbatim>\<open>shell\<close>, it names the device, and the device list is not
  asked for.\<close>

theorem flags_count_before_arguments:
  assumes "\<not> is_flag p" and "sn \<noteq> ''''"
  shows "basic_main env (prog # ''push'' # p # q # extra) = basic_main env [prog, ''push'', p, q] \<and>
    basic_main env (prog # ''pull'' # p # q # extra) = basic_main env [prog, ''pull'', p, q] \<and>
    basic_main env (prog # ''shell'' # ''-s'' # sn # p # args) =
      cli_then (or_Fatal (RunCommand (client_Device (NewClient (env_get env) (env_goos env)) (DeviceWithSerial sn))
        (Join '' '' (p # args)))) Print"
  using assms
  by (simp add: basic_main_def basic_command_def handlePush_def handlePull_def handleShell_def shell_flags_def
      autoDetectDevice_def string_flag_def Let_def)

definition demo_env :: "unit environment" where
  "demo_env = \<lparr>env_get = (\<lambda>_. ''''), env_goos = ''linux'', env_late = None, env_durations = (\<lambda>_. None),
     env_Decode = (\<lambda>_. Inl EOF), env_Encode = (\<lambda>_. Inl EOF),
     env_open = (\<lambda>_. \<lparr>open_err = None, stat_size = Inr 0, content = [], read_err = None\<rparr>), env_create = (\<lambda>_. None)\<rparr>"

theorem flags_count_before_arguments_witness:
  "basic_main demo_env [''basic'', ''push'', ''a'', ''/sdcard/a'', ''-s'', ''emu''] =
   basic_main demo_env [''basic'', ''push'', ''a'', ''/sdcard/a'']"
  using flags_count_before_arguments [of "''a''" "''emu''" demo_env "''basic''" "''/sdcard/a''" "[''-s'', ''emu'']"]
  by (simp add: is_flag_def)

lemma DeviceWithSerial_descriptor:
  "getTransportDescriptor (descriptor (client_Device c (DeviceWithSerial sn))) = (ret (''transport:'' @ sn) :: (world, string) prog)"
  "dev_client (client_Device c d) = c"
  by (simp_all add: client_Device_def DeviceWithSerial_def getTransportDescriptor_def)

text \<open>C20: a file pulled without naming a device. The program asks the server for its devices. When
  there is exactly one, it selects that device by its serial number, requests the file and
  writes exactly the bytes the device sent to the local file; with no device, or with several,
  it ends with status 1 and has neither opened a second connection nor touched a file.\<close>

theorem pull_from_the_only_device:
  assumes "dials (tw t) = Inr c1 # Inr c2 # ds"
    and "answers c1 StatusOkay (hex_frame (bytes_of (lines_of (map device_line is))) @ rest)"
    and "list_all plain_device is" and "length (lines_of (map device_line is)) < 65536"
    and "answers c2 StatusOkay (bytes_of StatusOkay @ file_stream cs stamp)"
    and "list_all (\<lambda>b. length b < 2 ^ 32) cs"
    and "env_create env path = None" and "\<not> is_flag remote"
  shows "case is of
      [i] \<Rightarrow> \<exists>t' c1' c2'. basic_main env [prog, ''pull'', remote, path] t = (Inr (), t') \<and>
        disk t' = (disk t)(path \<mapsto> concat cs) \<and> conns (tw t') = conns (tw t) @ [c1', c2'] \<and> isclosed c1' \<and>
        outgoing c2' = outgoing c2 @ frame (''host:transport:'' @ Serial i) @ frame ''sync:'' @
          bytes_of SYNC_RECV @ le_block (bytes_of remote)
    | _ \<Rightarrow> \<exists>t' c1'. basic_main env [prog, ''pull'', remote, path] t = (Inl 1, t') \<and>
        disk t' = disk t \<and> dials (tw t') = Inr c2 # ds \<and> conns (tw t') = conns (tw t) @ [c1'] \<and> isclosed c1'"
proof -
  let ?cl = "NewClient (env_get env) (env_goos env)"
  obtain host port bin where cl: "connector ?cl = autoStart_Connection host port bin"
    using NewClient_connector by blast
  obtain w1 c1' where w1: "ListDevices ?cl (env_late env) (tw t) = (Ok is, w1)" "dials w1 = Inr c2 # ds"
    "conns w1 = conns (tw t) @ [c1']" "isclosed c1'"
    using ListDevices_Ok [OF cl assms(1-4)] by blast
  have run: "basic_main env [prog, ''pull'', remote, path] = handlePull env ?cl [remote, path]"
    by (simp add: basic_main_def basic_command_def)
  consider "is = []" | i where "is = [i]" | i j ks where "is = i # j # ks"
    by (metis neq_Nil_conv)
  then show ?thesis
  proof cases
    case 1
    with w1 assms(8) show ?thesis
      by (simp add: run handlePull_def shell_flags_def string_flag_def autoDetectDevice_def complain_def cli_defs)
  next
    case 2
    let ?d = "client_Device ?cl (DeviceWithSerial (Serial i))"
    obtain w2 c2' where "device_Pull ?d remote w1 = (Ok (concat cs, None), w2)" "conns w2 = conns w1 @ [c2']"
      "outgoing c2' = outgoing c2 @ frame (''host:'' @ ''transport:'' @ Serial i) @ frame ''sync:'' @
         bytes_of SYNC_RECV @ le_block (bytes_of remote)"
      using device_Pull_Ok [of ?d, unfolded DeviceWithSerial_descriptor, OF cl refl w1(2) assms(5,6)] by blast
    with 2 w1 assms(7,8) show ?thesis
      by (simp add: run handlePull_def shell_flags_def string_flag_def autoDetectDevice_def
          os_Create_def copy_pulled_def cli_defs)
  next
    case 3
    with w1 assms(8) show ?thesis
      by (simp add: run handlePull_def shell_flags_def string_flag_def autoDetectDevice_def complain_def cli_defs)
  qed
qed

definition demo_term :: "device_info list \<Rightarrow> terminal" where
  "demo_term is = \<lparr>tw = new_world [Inr (demo_reply (lines_of (map device_line is))),
     Inr (demo_conn (string_of (file_stream [[7, 8], [9]] 0)))], printed = '''', disk = Map.empty\<rparr>"

theorem pull_from_the_only_device_witness:
  "(\<exists>t'. basic_main demo_env [''basic'', ''pull'', ''/sdcard/a'', ''a''] (demo_term [\<lparr>Serial = ''emu'', State = ''device''\<rparr>]) = (Inr (), t') \<and>
     disk t' = [''a'' \<mapsto> [7, 8, 9]]) \<and>
   (\<exists>t'. basic_main demo_env [''basic'', ''pull'', ''/sdcard/a'', ''a''] (demo_term []) = (Inl 1, t') \<and> disk t' = Map.empty)"
proof -
  let ?is = "[\<lparr>Serial = ''emu'', State = ''device''\<rparr>]"
  let ?c2 = "demo_conn (string_of (file_stream [[7, 8], [9]] 0))"
  have c2: "answers ?c2 StatusOkay (bytes_of StatusOkay @ file_stream [[7, 8], [9]] 0)"
    using demo_conn_answers [of "string_of (file_stream [[7, 8], [9]] 0)"] by simp
  have d: "dials (tw (demo_term is)) = Inr (demo_reply (lines_of (map device_line is))) # Inr ?c2 # []"
    "disk (demo_term is) = Map.empty" for "is"
    by (simp_all add: demo_term_def new_world_def)
  have p: "list_all plain_device ?is" "length (lines_of (map device_line ?is)) < 65536"
    "env_create demo_env ''a'' = None" "\<not> is_flag ''/sdcard/a''"
    by (simp_all add: plain_device_def graphic_def graphic_char_def lines_of_def device_line_def demo_env_def is_flag_def)
  note use = pull_from_the_only_device [OF d(1) demo_reply_answers _ _ c2 _ p(3,4)]
  from use [OF p(1,2), of "''basic''"] have "\<exists>t'. basic_main demo_env [''basic'', ''pull'', ''/sdcard/a'', ''a''] (demo_term ?is) = (Inr (), t') \<and>
     disk t' = [''a'' \<mapsto> [7, 8, 9]]" by (auto simp: d(2))
  moreover have "length (lines_of (map device_line [])) < 65536" by (simp add: lines_of_def)
  from use [OF _ this, of "''basic''"] have "\<exists>t'. basic_main demo_env [''basic'', ''pull'', ''/sdcard/a'', ''a''] (demo_term []) = (Inl 1, t') \<and>
     disk t' = Map.empty" by (auto simp: d(2))
  ultimately show ?thesis by blast
qed

end
