(* ===== verification/Spec2Isabelle.thy ===== *)
theory Spec2Isabelle
  imports BridgeOwnership ShellV2Run Server Faults Leaks Cli
begin

text \<open>
  This development models and verifies the Go library under \<^verbatim>\<open>src/\<close>: a client of the adb server
  (package \<^verbatim>\<open>adb\<close>), a bridge that serves one Android device to adb clients over TCP (package
  \<^verbatim>\<open>tcpusb\<close>, command \<^verbatim>\<open>cmd/usb-bridge\<close>) and the command line example \<^verbatim>\<open>examples/basic\<close>.

  \<^bold>\<open>How the parts work together.\<close> A \<^verbatim>\<open>Client\<close> dials the adb server, starting it once when the dial
  fails, sends a command behind four hexadecimal digits and reads a status word and a payload.
  A \<^verbatim>\<open>Device\<close> opens such a connection, selects a device on it and then runs a service of the
  device: a shell, the sync protocol for files, the framebuffer and so on. The bridge accepts
  TCP connections of adb clients; a \<^verbatim>\<open>Socket\<close> reads packets, authenticates the client and starts
  a \<^verbatim>\<open>Service\<close> per stream, which dials the same device through package \<^verbatim>\<open>adb\<close> and forwards data in
  both directions, one unacknowledged packet at a time. A \<^verbatim>\<open>Server\<close> keeps the sockets.

  \<^bold>\<open>How programs are represented.\<close> A Go function that returns an error and changes state is a
  function from a state to a result and a state (\<open>prog\<close> in \<open>Prelude\<close>); a result is a value, an
  error or a panic, and nothing recovers from a panic. A connection (\<open>Conn\<close>) is a record of what
  the peer will send, cut into the segments single reads will see, of the error at the end, of
  the bytes written and of how many more the peer takes. All theorems quantify over these
  records, so they hold for every peer, every segmentation and every point of failure they do
  not exclude. The world (\<open>Client\<close>) is the table of connections a process has opened, with the
  outcomes of its coming dials. Where several goroutines share state, a step relation runs them
  one step at a time: a step is one critical section or one operation outside of one, every
  goroutine has a program counter in the state, and the properties hold for all interleavings.

  \<^bold>\<open>Theories and sources.\<close>
  \<^item> \<open>Prelude\<close>, \<open>GoLib\<close>, \<open>Flags\<close>: bytes, errors, programs and their calculi; the functions of Go's
    packages \<^verbatim>\<open>strings\<close>, \<^verbatim>\<open>strconv\<close>, \<^verbatim>\<open>fmt\<close> and \<^verbatim>\<open>flag\<close> that the sources call.
  \<^item> \<open>Conn\<close>: \<^verbatim>\<open>net.Conn\<close> and \<^verbatim>\<open>io\<close>; the contracts \<open>byte_sink\<close> (a writer), \<open>open_sink\<close> (one that
    takes everything) and \<open>frame_format\<close> (an encoder and a reader that fit), which the file
    transfer, the shell packets and the bridge packets instantiate.
  \<^item> \<open>Wire\<close>, \<open>Client\<close>, \<open>HostCommands\<close>: \<^verbatim>\<open>adb/connection.go\<close>, \<^verbatim>\<open>status.go\<close>, \<^verbatim>\<open>device_transport.go\<close>,
    \<^verbatim>\<open>client.go\<close>, \<^verbatim>\<open>device.go\<close>, \<^verbatim>\<open>device_descriptor.go\<close>, \<^verbatim>\<open>client_commands.go\<close>. The contract \<open>dialer\<close> of a
    connector carries the calculus that shows that an operation closes what it opens.
  \<^item> \<open>Sync\<close>: \<^verbatim>\<open>sync.go\<close>, \<^verbatim>\<open>device_file.go\<close>, \<^verbatim>\<open>file_operations.go\<close>.
  \<^item> \<open>Device\<close>, \<open>Package\<close>, \<open>Screen\<close>: \<^verbatim>\<open>device_shell.go\<close>, \<^verbatim>\<open>device_info.go\<close>, \<^verbatim>\<open>device_features.go\<close>,
    \<^verbatim>\<open>device_forward.go\<close>, \<^verbatim>\<open>device_network.go\<close>, \<^verbatim>\<open>device_package.go\<close>, \<^verbatim>\<open>device_intent.go\<close>,
    \<^verbatim>\<open>device_screen.go\<close>; \<open>DeviceOps\<close> and \<open>Listings\<close> hold their properties, \<open>Faults\<close> those on misbehaving
    peers, \<open>Leaks\<close> which connections every operation leaves open, and \<open>Tracking\<close> the device
    tracker with its line scanner (\<^verbatim>\<open>device_commands.go\<close>).
  \<^item> \<open>ShellV2\<close>, \<open>ShellV2Run\<close>: \<^verbatim>\<open>device_shell_v2.go\<close>; \<open>v2step\<close> runs the read loop, the two readers, the
    watcher and the caller of \<^verbatim>\<open>RunCommandV2\<close>. Here, where the code has a way out of a read that
    never returns, the device may fall silent (\<open>device_silent\<close>): the read loop then waits until
    the session is closed.
  \<^item> \<open>Packet\<close>, \<open>ServiceMap\<close>: \<^verbatim>\<open>tcpusb/packet.go\<close>, \<^verbatim>\<open>packet_reader.go\<close>, \<^verbatim>\<open>rolling_counter.go\<close>,
    \<^verbatim>\<open>service_map.go\<close> with the contract \<open>id_table\<close>.
  \<^item> \<open>Transition\<close>: runs of a step relation, and the contract \<open>invariant\<close> that every invariant of
    the development instantiates.
  \<^item> \<open>Bridge\<close>, \<open>BridgeRuns\<close>, \<open>BridgeProofs\<close>, \<open>BridgeData\<close>, \<open>BridgeOwnership\<close>: \<^verbatim>\<open>socket.go\<close>,
    \<^verbatim>\<open>service.go\<close>; \<open>bstep\<close> runs the socket's loop, the goroutine and the forwarder of every service,
    and closing.
  \<^item> \<open>Server\<close>: \<^verbatim>\<open>server.go\<close>, \<^verbatim>\<open>bridge.go\<close>, \<^verbatim>\<open>cmd/usb-bridge/main.go\<close>; \<open>sstep\<close> runs the accept loop, all
    sockets and \<^verbatim>\<open>Close\<close>. The sockets share the list of connections and nothing else; each has its own
    table of device connections, so that they do not influence each other is part of the model
    and not a result.
  \<^item> \<open>Cli\<close>: \<^verbatim>\<open>examples/basic/main.go\<close>.

  \<^bold>\<open>What is shown.\<close>
  \<^item> The bridge, in every interleaving: a client that has not authenticated reaches nothing; at
    most one data packet per stream is unacknowledged; the client's byte stream consists of
    whole packets; the service table is exact; the data packets of a stream carry what the
    device sent, in order and complete; every open device connection has exactly one service
    that will close it, and all are closed when the services are done. The packet reader refines a reference reader and
    detects corruption. Counter values do not repeat early.
  \<^item> The server: the list of connections is exact, and \<^verbatim>\<open>Close\<close> ends every registered socket.
  \<^item> The client: what operations send and return on a well-behaved peer, round trips of all
    formats, independence of segmentation where the code reads in full, and that the operations
    listed in \<open>Leaks\<close> close their connections on every path.
  \<^item> Shell sessions: results, truncation, and that every run of \<^verbatim>\<open>RunCommandV2\<close> is finite, with an
    explicit bound on its steps, and ends with everything closed once the context is done, the
    stream has ended or the exit packet has been sent.
  \<^item> Behaviour the code does not intend, as theorems too: crashes and lost connections in rare
    interleavings, short reads of the status word, truncated replies and files taken for
    complete, connections that stay open, retries that never end, flags that are ignored.

  \<^bold>\<open>Termination and bounds.\<close> No model uses fuel. Loops are recursive functions with a measure,
  mostly the number of bytes and segments still to come; the retrying intents, which may run
  for ever, are partial functions whose domain is characterised exactly. Machine integers
  keep their width: packet fields are 32-bit words, and counters, checksums and lengths wrap.

  \<^bold>\<open>Parameters.\<close> Code outside the repository is an argument of the definitions that use it: image
  coding, the printing of durations, the order in which a loop visits a map, random tokens,
  the authentication handler, local files, and the errors and timers of the operating system.

  \<^bold>\<open>Not modelled.\<close> Logging, standard error, \<^verbatim>\<open>Server.Addr\<close>, the signal handler of
  \<^verbatim>\<open>cmd/usb-bridge\<close> and the tests. Data races on unprotected fields are covered as far as each
  access is atomic. Memory is unbounded. Outside of \<open>ShellV2\<close> a read does not wait for ever: the
  peer's stream is finite and ends with \<open>in_end\<close>, and a deadline or a cancelled context shows as
  such an end. What the goroutine of \<^verbatim>\<open>WaitForDeviceWithTimeout\<close> does after a timeout happens after
  the call; \<^verbatim>\<open>Pull\<close> runs its goroutine to the end, as for a caller that reads the pipe to its end.
\<close>

end
